(* ===== verification/Swarm_Prelude.thy ===== *)
theory Swarm_Prelude
  imports Main "HOL-Library.Word" "HOL-Library.Monad_Syntax" "HOL-Library.AList"
begin

text \<open>
  What every component of the Swarm server model shares: the fixed-width integer types of
  ServerCore/Pch/Types.h, the result of an operation that can abort the process, blocks of
  bytes that are written in place (memmove, a kernel filling a buffer), the little-endian
  16-bit fields of a packet header and the hash maps of ServerCore/Container/Container.h.
\<close>

section \<open>Machine integers\<close>

type_synonym u8 = "8 word"
type_synonym u16 = "16 word"
type_synonym u32 = "32 word"
type_synonym u64 = "64 word"

unbundle bit_operations_syntax

text \<open>Facts about hash maps, bytes and buffers that the component proofs share.\<close>

named_theorems hm_simps
named_theorems byte_simps
named_theorems buf_simps

lemma unat_sub_le [byte_simps]: "(b :: 'a::len word) \<le> a \<Longrightarrow> unat (a - b) = unat a - unat b"
  by (rule unat_sub)

lemma unat_add_le [byte_simps]:
  "unat (a :: 'a::len word) + unat b < 2 ^ LENGTH('a) \<Longrightarrow> unat (a + b) = unat a + unat b"
  by (simp add: unat_word_ariths)

lemma unat_add_bounded:
  fixes a b c :: "'a::len word"
  assumes "unat a + unat b \<le> unat c"
  shows "unat (a + b) = unat a + unat b" and "a + b \<le> c"
proof -
  have "unat c < 2 ^ LENGTH('a)" by (rule unsigned_less)
  with assms have "unat a + unat b < 2 ^ LENGTH('a)" by (rule le_less_trans)
  then show *: "unat (a + b) = unat a + unat b" by (simp add: unat_word_ariths)
  show "a + b \<le> c" using assms * by (simp add: word_le_nat_alt)
qed

lemma unat_u32_less: "unat (w :: u32) < 4294967296"
proof -
  have "unat w < 2 ^ LENGTH(32)" by (rule unsigned_less)
  then show ?thesis by simp
qed

lemma unat_of_nat_u32: "n < 4294967296 \<Longrightarrow> unat (of_nat n :: u32) = n"
  by (simp add: unat_of_nat)

lemma unat_u16_less: "unat (w :: u16) < 65536"
proof -
  have "unat w < 2 ^ LENGTH(16)" by (rule unsigned_less)
  then show ?thesis by simp
qed

lemma unat_of_nat_u16: "n < 65536 \<Longrightarrow> unat (of_nat n :: u16) = n"
  by (simp add: unat_of_nat)

lemma unat_ucast_u16_u32 [simp]: "unat (ucast (n :: u16) :: u32) = unat n"
  using unat_u16_less [of n] by (simp add: unsigned_ucast_eq take_bit_nat_eq_self)

lemma sint_u32_small:
  assumes "unat (w :: u32) < 2147483648"
  shows "sint w = int (unat w)"
proof -
  have "int (unat w) < 2147483648" using assms by linarith
  moreover have "- 2147483648 \<le> int (unat w)" by linarith
  ultimately show ?thesis by (simp add: sint_uint signed_take_bit_int_eq_self)
qed

lemma add_4_mod_65536:
  fixes p :: nat
  assumes "p < 65536" and "4 \<le> (4 + p) mod 65536"
  shows "(4 + p) mod 65536 = 4 + p"
proof (cases "4 + p < 65536")
  case False
  then have "(4 + p) mod 65536 = 4 + p - 65536"
    using assms(1) by (subst le_mod_geq) simp_all
  with assms show ?thesis by linarith
qed simp

lemma those_map_Some: "\<forall>x \<in> set xs. f x \<noteq> None \<Longrightarrow> \<exists>ys. those (map f xs) = Some ys"
  by (induction xs) auto

section \<open>Aborting operations\<close>

text \<open>
  The macros CRASH and ASSERT_CRASH of ServerCore/Pch/CoreMacro.h write through a null pointer:
  the process ends. An operation that can do so returns an option, and None is the crash.
\<close>

definition assert_crash :: "bool \<Rightarrow> unit option" where
  "assert_crash expr = (if expr then Some () else None)"

lemma assert_crash_True [simp]: "assert_crash True = Some ()"
  by (simp add: assert_crash_def)

lemma assert_crash_False [simp]: "assert_crash False = None"
  by (simp add: assert_crash_def)

lemma bind_assert_crash [simp]:
  "Option.bind (assert_crash c) f = (if c then f () else None)"
  by (simp add: assert_crash_def)

section \<open>Blocks of bytes\<close>

text \<open>Writing a run of bytes at an offset; the block keeps its length when the run fits.\<close>

definition overwrite :: "'a list \<Rightarrow> nat \<Rightarrow> 'a list \<Rightarrow> 'a list" where
  "overwrite xs i ys = take i xs @ ys @ drop (i + length ys) xs"

definition memmove :: "'a list \<Rightarrow> nat \<Rightarrow> nat \<Rightarrow> nat \<Rightarrow> 'a list" where
  "memmove xs dst src n = overwrite xs dst (take n (drop src xs))"

lemma length_overwrite [byte_simps]:
  "i + length ys \<le> length xs \<Longrightarrow> length (overwrite xs i ys) = length xs"
  by (simp add: overwrite_def)

lemma take_overwrite [byte_simps]: "i \<le> length xs \<Longrightarrow> take i (overwrite xs i ys) = take i xs"
  by (simp add: overwrite_def)

lemma overwrite_window [byte_simps]:
  assumes "r \<le> i" and "i \<le> length xs"
  shows "take (i + length ys - r) (drop r (overwrite xs i ys)) = take (i - r) (drop r xs) @ ys"
proof -
  have "drop r (overwrite xs i ys) = take (i - r) (drop r xs) @ ys @ drop (i + length ys) xs"
    using assms by (simp add: overwrite_def drop_take)
  then show ?thesis using assms by simp
qed

lemma length_memmove [byte_simps]:
  "dst + n \<le> length xs \<Longrightarrow> src + n \<le> length xs \<Longrightarrow> length (memmove xs dst src n) = length xs"
  by (simp add: memmove_def length_overwrite)

lemma take_memmove_front [byte_simps]:
  "src + n \<le> length xs \<Longrightarrow> take n (memmove xs 0 src n) = take n (drop src xs)"
  by (simp add: memmove_def overwrite_def)

section \<open>Little-endian fields\<close>

text \<open>The server runs on little-endian hosts and casts a byte pointer to the header struct.\<close>

definition u16_bytes :: "u16 \<Rightarrow> u8 list" where
  "u16_bytes v = [ucast v, ucast (drop_bit 8 v)]"

definition bytes_u16 :: "u8 \<Rightarrow> u8 \<Rightarrow> u16" where
  "bytes_u16 lo hi = ucast lo OR push_bit 8 (ucast hi)"

lemma length_u16_bytes [simp]: "length (u16_bytes v) = 2"
  by (simp add: u16_bytes_def)

lemma bytes_u16_roundtrip [simp]: "bytes_u16 (ucast v) (ucast (drop_bit 8 v)) = v"
  unfolding bytes_u16_def
  by (rule bit_word_eqI) (auto simp: bit_simps)

section \<open>Hash maps\<close>

text \<open>
  A std::unordered_map is an association list with distinct keys: its order is the iteration
  order, which the standard leaves open. find is map_of; insert keeps an entry that is there;
  operator[] assignment replaces it; erase removes the key.
\<close>

definition hm_insert :: "'k \<Rightarrow> 'v \<Rightarrow> ('k \<times> 'v) list \<Rightarrow> ('k \<times> 'v) list" where
  "hm_insert k v m = (case map_of m k of None \<Rightarrow> m @ [(k, v)] | Some _ \<Rightarrow> m)"

abbreviation hm_assign :: "'k \<Rightarrow> 'v \<Rightarrow> ('k \<times> 'v) list \<Rightarrow> ('k \<times> 'v) list" where
  "hm_assign \<equiv> AList.update"

abbreviation hm_erase :: "'k \<Rightarrow> ('k \<times> 'v) list \<Rightarrow> ('k \<times> 'v) list" where
  "hm_erase \<equiv> AList.delete"

lemma map_of_hm_insert [hm_simps]:
  "map_of (hm_insert k v m) j = (if j = k \<and> map_of m k = None then Some v else map_of m j)"
  by (auto simp: hm_insert_def map_add_def split: option.splits)

lemma map_of_hm_assign [hm_simps]: "map_of (hm_assign k v m) = (map_of m)(k \<mapsto> v)"
  by (rule update_conv')

lemma map_of_hm_erase [hm_simps]: "map_of (hm_erase k m) = (map_of m)(k := None)"
  by (rule delete_conv')

lemma keys_hm_insert [hm_simps]:
  "fst ` set (hm_insert k v m) = insert k (fst ` set m)"
  by (force simp: hm_insert_def map_of_eq_None_iff split: option.splits dest: map_of_SomeD)

lemma distinct_hm_insert [hm_simps]:
  "distinct (map fst m) \<Longrightarrow> distinct (map fst (hm_insert k v m))"
  by (auto simp: hm_insert_def map_of_eq_None_iff split: option.splits)

end
