(* ===== verification/Base_Buffer.thy ===== *)
theory Base_Buffer
  imports Swarm_Prelude
begin

text \<open>
  The send and receive buffers: ServerCore/Container/BaseBuffer.cpp and its two subclasses
  ServerCore/Network/RecvBuffer.cpp and SendBuffer.cpp. A buffer is a block of bytes with a read
  and a write position; the bytes between them are its content. The contract is the locale
  byte_fifo: whatever the positions do, a buffer behaves as a queue of bytes.
\<close>

section \<open>State\<close>

record base_buffer =
  buffer :: "u8 list"
  bufferSize :: u32
  readPos :: u32
  writePos :: u32

definition MAX_PACKET_SIZE :: u32 where
  "MAX_PACKET_SIZE = 2048"

definition BUFFER_SIZE :: u32 where
  "BUFFER_SIZE = 8196"

definition BaseBuffer :: "u32 \<Rightarrow> base_buffer" where
  "BaseBuffer n = \<lparr>buffer = replicate (unat n) 0, bufferSize = n, readPos = 0, writePos = 0\<rparr>"

section \<open>Operations\<close>

text \<open>The positions are 32-bit: the sums in the two assertions wrap as the code's do.\<close>

definition MoveReadPos :: "u32 \<Rightarrow> base_buffer \<Rightarrow> base_buffer option" where
  "MoveReadPos sz b = do {
     assert_crash (readPos b + sz \<le> writePos b);
     Some (b\<lparr>readPos := readPos b + sz\<rparr>) }"

definition MoveWritePos :: "u32 \<Rightarrow> base_buffer \<Rightarrow> base_buffer option" where
  "MoveWritePos sz b = do {
     assert_crash (writePos b + sz \<le> bufferSize b);
     Some (b\<lparr>writePos := writePos b + sz\<rparr>) }"

definition GetDataSize :: "base_buffer \<Rightarrow> u32" where
  "GetDataSize b = writePos b - readPos b"

definition GetFreeSize :: "base_buffer \<Rightarrow> u32" where
  "GetFreeSize b = bufferSize b - writePos b"

definition Compact :: "base_buffer \<Rightarrow> base_buffer" where
  "Compact b =
     (if readPos b = 0 then b
      else (let dataSize = GetDataSize b in
        if dataSize = 0 then b\<lparr>readPos := 0, writePos := 0\<rparr>
        else if GetFreeSize b < MAX_PACKET_SIZE
        then b\<lparr>buffer := memmove (buffer b) 0 (unat (readPos b)) (unat dataSize),
               writePos := dataSize, readPos := 0\<rparr>
        else b))"

text \<open>GetReadPtr and GetWritePtr are offsets into the block.\<close>

definition GetReadPtr :: "base_buffer \<Rightarrow> nat" where
  "GetReadPtr b = unat (readPos b)"

definition GetWritePtr :: "base_buffer \<Rightarrow> nat" where
  "GetWritePtr b = unat (writePos b)"

text \<open>The WSABUF a RecvBuffer offers to WSARecv: where to write, and how many bytes.\<close>

definition recv_GetWSABUF :: "base_buffer \<Rightarrow> nat \<times> u32" where
  "recv_GetWSABUF b = (GetWritePtr b, GetFreeSize b)"

text \<open>The WSABUF a SendBuffer offers to WSASend: the bytes from its read position on.\<close>

definition send_GetWSABUF :: "base_buffer \<Rightarrow> u8 list" where
  "send_GetWSABUF b = take (unat (GetDataSize b)) (drop (GetReadPtr b) (buffer b))"

definition recv_OnRecvCompleted :: "u32 \<Rightarrow> base_buffer \<Rightarrow> base_buffer option" where
  "recv_OnRecvCompleted bytesTransferred b = MoveWritePos bytesTransferred b"

definition send_OnSendCompleted :: "u32 \<Rightarrow> base_buffer \<Rightarrow> base_buffer option" where
  "send_OnSendCompleted bytesTransferred b = MoveReadPos bytesTransferred b"

definition IsCompleted :: "base_buffer \<Rightarrow> bool" where
  "IsCompleted b \<longleftrightarrow> GetDataSize b = 0"

text \<open>
  What a completed WSARecv has done: the received bytes stand at the write pointer of the WSABUF
  it was given. It is a step of the environment, not of the code.
\<close>

definition wsa_fill :: "u8 list \<Rightarrow> base_buffer \<Rightarrow> base_buffer" where
  "wsa_fill bs b = b\<lparr>buffer := overwrite (buffer b) (fst (recv_GetWSABUF b)) bs\<rparr>"

section \<open>Well-formed buffers and their content\<close>

definition wf_buffer :: "base_buffer \<Rightarrow> bool" where
  "wf_buffer b \<longleftrightarrow> length (buffer b) = unat (bufferSize b) \<and>
     readPos b \<le> writePos b \<and> writePos b \<le> bufferSize b"

abbreviation content :: "base_buffer \<Rightarrow> u8 list" where
  "content \<equiv> send_GetWSABUF"

abbreviation room :: "base_buffer \<Rightarrow> nat" where
  "room b \<equiv> unat (GetFreeSize b)"

definition recv_fill :: "u8 list \<Rightarrow> base_buffer \<Rightarrow> base_buffer option" where
  "recv_fill bs b = recv_OnRecvCompleted (of_nat (length bs)) (wsa_fill bs b)"

definition consume :: "nat \<Rightarrow> base_buffer \<Rightarrow> base_buffer option" where
  "consume n b = MoveReadPos (of_nat n) b"

lemma wf_bufferD:
  assumes "wf_buffer b"
  shows "unat (readPos b) \<le> unat (writePos b)" and "unat (writePos b) \<le> length (buffer b)"
    and "unat (GetDataSize b) = unat (writePos b) - unat (readPos b)"
    and "room b = length (buffer b) - unat (writePos b)"
    and "length (buffer b) = unat (bufferSize b)"
  using assms
  by (auto simp: wf_buffer_def GetDataSize_def GetFreeSize_def word_le_nat_alt unat_sub_le)

lemma wf_BaseBuffer [simp]: "wf_buffer (BaseBuffer n)"
  by (simp add: wf_buffer_def BaseBuffer_def)

lemma content_BaseBuffer [simp]: "content (BaseBuffer n) = []"
  by (simp add: send_GetWSABUF_def BaseBuffer_def GetDataSize_def)

lemma room_BaseBuffer [simp]: "room (BaseBuffer n) = unat n"
  by (simp add: BaseBuffer_def GetFreeSize_def)

lemma bufferSize_BaseBuffer [simp]: "bufferSize (BaseBuffer n) = n"
  by (simp add: BaseBuffer_def)

lemma length_content [buf_simps]: "wf_buffer b \<Longrightarrow> length (content b) = unat (GetDataSize b)"
  using wf_bufferD [of b] by (simp add: send_GetWSABUF_def GetReadPtr_def)

lemma content_alt:
  "wf_buffer b \<Longrightarrow>
     content b = take (unat (writePos b) - unat (readPos b)) (drop (unat (readPos b)) (buffer b))"
  using wf_bufferD [of b] by (simp add: send_GetWSABUF_def GetReadPtr_def)

section \<open>The contract: a queue of bytes\<close>

text \<open>
  What the session relies on. fill appends received bytes, consume drops parsed ones and crashes
  beyond the content, compact reclaims space and never loses a byte.
\<close>

locale byte_fifo =
  fixes wf :: "'b \<Rightarrow> bool"
    and bytes :: "'b \<Rightarrow> 'c list"
    and space :: "'b \<Rightarrow> nat"
    and fill :: "'c list \<Rightarrow> 'b \<Rightarrow> 'b option"
    and drain :: "nat \<Rightarrow> 'b \<Rightarrow> 'b option"
    and compact :: "'b \<Rightarrow> 'b"
  assumes fill_ok: "wf b \<Longrightarrow> length bs \<le> space b \<Longrightarrow>
      \<exists>b'. fill bs b = Some b' \<and> wf b' \<and> bytes b' = bytes b @ bs"
    and drain_ok: "wf b \<Longrightarrow> n \<le> length (bytes b) \<Longrightarrow>
      \<exists>b'. drain n b = Some b' \<and> wf b' \<and> bytes b' = drop n (bytes b)"
    and compact_wf: "wf b \<Longrightarrow> wf (compact b)"
    and compact_bytes: "wf b \<Longrightarrow> bytes (compact b) = bytes b"
begin

text \<open>Filling twice is filling once with the bytes of both, when both fit.\<close>

lemma fill_fill:
  assumes "wf b" and "fill xs b = Some b1" and "length xs \<le> space b" and "length ys \<le> space b1"
  shows "\<exists>b2. fill ys b1 = Some b2 \<and> wf b2 \<and> bytes b2 = bytes b @ (xs @ ys)"
proof -
  from fill_ok [OF assms(1,3)] assms(2) have b1: "wf b1" "bytes b1 = bytes b @ xs" by auto
  from fill_ok [OF b1(1) assms(4)] b1(2) show ?thesis by auto
qed

text \<open>Draining in two steps drops the sum.\<close>

lemma drain_drain:
  assumes "wf b" and "m + n \<le> length (bytes b)"
  shows "\<exists>b'. Option.bind (drain m b) (drain n) = Some b' \<and> wf b' \<and>
           bytes b' = drop (m + n) (bytes b)"
proof -
  from drain_ok [OF assms(1), of m] assms(2) obtain b1
    where b1: "drain m b = Some b1" "wf b1" "bytes b1 = drop m (bytes b)" by auto
  with drain_ok [of b1 n] assms(2) show ?thesis by (auto simp: add.commute)
qed

text \<open>A receive cycle: what is left is what was there, extended and parsed off at the front.\<close>

lemma cycle:
  assumes "wf b" and "length bs \<le> space b" and "n \<le> length (bytes b @ bs)"
  shows "\<exists>b'. Option.bind (fill bs b) (drain n) = Some b' \<and> wf (compact b') \<and>
           bytes (compact b') = drop n (bytes b @ bs)"
proof -
  from fill_ok [OF assms(1,2)] obtain b1
    where b1: "fill bs b = Some b1" "wf b1" "bytes b1 = bytes b @ bs" by auto
  with drain_ok [of b1 n] assms(3) show ?thesis by (auto simp: compact_wf compact_bytes)
qed

end

section \<open>BaseBuffer meets the contract\<close>

lemma recv_fill_ok:
  assumes wf: "wf_buffer b" and fits: "length bs \<le> room b"
  shows "\<exists>b'. recv_fill bs b = Some b' \<and> wf_buffer b' \<and> content b' = content b @ bs"
proof -
  note d = wf_bufferD [OF wf]
  let ?n = "of_nat (length bs) :: u32" and ?w = "unat (writePos b)"
  have len: "?w + length bs \<le> unat (bufferSize b)" using fits d by simp
  have small: "length bs < 4294967296"
    using fits unat_u32_less [of "GetFreeSize b"] by simp
  then have n: "unat ?n = length bs" by (simp add: unat_of_nat_u32)
  note sum = unat_add_bounded [of "writePos b" ?n "bufferSize b", unfolded n, OF len]
  let ?b' = "wsa_fill bs b\<lparr>writePos := writePos b + ?n\<rparr>"
  have eq: "recv_fill bs b = Some ?b'"
    using sum by (simp add: recv_fill_def recv_OnRecvCompleted_def MoveWritePos_def wsa_fill_def)
  have wf': "wf_buffer ?b'"
    using wf sum d len
    by (auto simp: wf_buffer_def wsa_fill_def recv_GetWSABUF_def GetWritePtr_def
        length_overwrite word_le_nat_alt)
  have "content ?b' = content b @ bs"
    using d len sum content_alt [OF wf] content_alt [OF wf']
    by (simp add: wsa_fill_def recv_GetWSABUF_def GetWritePtr_def overwrite_window)
  with eq wf' show ?thesis by blast
qed

lemma consume_ok:
  assumes wf: "wf_buffer b" and le: "n \<le> length (content b)"
  shows "\<exists>b'. consume n b = Some b' \<and> wf_buffer b' \<and> content b' = drop n (content b)"
proof -
  note d = wf_bufferD [OF wf]
  have len: "unat (readPos b) + n \<le> unat (writePos b)"
    using le d by (simp add: length_content [OF wf])
  then have "n < 4294967296" using unat_u32_less [of "writePos b"] by simp
  then have n: "unat (of_nat n :: u32) = n" by (simp add: unat_of_nat_u32)
  note sum = unat_add_bounded [of "readPos b" "of_nat n" "writePos b", unfolded n, OF len]
  let ?b' = "b\<lparr>readPos := readPos b + of_nat n\<rparr>"
  have eq: "consume n b = Some ?b'" using sum by (simp add: consume_def MoveReadPos_def)
  have wf': "wf_buffer ?b'" using wf sum by (simp add: wf_buffer_def)
  have "content ?b' = drop n (content b)"
    using sum content_alt [OF wf] content_alt [OF wf'] by (simp add: drop_take add.commute)
  with eq wf' show ?thesis by blast
qed

lemma Compact_wf: "wf_buffer b \<Longrightarrow> wf_buffer (Compact b)"
proof -
  assume wf: "wf_buffer b"
  note d = wf_bufferD [OF wf]
  have "unat (GetDataSize b) \<le> unat (bufferSize b)" using d by simp
  then show ?thesis
    using wf d by (auto simp: Compact_def Let_def wf_buffer_def length_memmove word_le_nat_alt)
qed

lemma Compact_content: "wf_buffer b \<Longrightarrow> content (Compact b) = content b"
proof -
  assume wf: "wf_buffer b"
  note d = wf_bufferD [OF wf]
  have "unat (readPos b) + unat (GetDataSize b) \<le> length (buffer b)" using d by simp
  then have "take (unat (GetDataSize b)) (memmove (buffer b) 0 (unat (readPos b)) (unat (GetDataSize b)))
      = content b"
    by (simp add: take_memmove_front send_GetWSABUF_def GetReadPtr_def)
  then show ?thesis
    by (auto simp: Compact_def Let_def send_GetWSABUF_def GetReadPtr_def)
       (simp_all add: GetDataSize_def)
qed

interpretation rb: byte_fifo wf_buffer content room recv_fill consume Compact
  by unfold_locales (simp_all add: recv_fill_ok consume_ok Compact_wf Compact_content)

section \<open>Further lemmas\<close>

lemma Compact_bufferSize [simp]: "bufferSize (Compact b) = bufferSize b"
  by (simp add: Compact_def Let_def)

lemma consume_bufferSize: "consume n b = Some b' \<Longrightarrow> bufferSize b' = bufferSize b"
  by (auto simp: consume_def MoveReadPos_def split: if_splits)

lemma recv_fill_bufferSize: "recv_fill bs b = Some b' \<Longrightarrow> bufferSize b' = bufferSize b"
  by (auto simp: recv_fill_def recv_OnRecvCompleted_def MoveWritePos_def wsa_fill_def
      split: if_splits)

text \<open>Space after Compact: a whole packet fits, or nothing has been consumed in front.\<close>

lemma Compact_room:
  assumes "wf_buffer b" and "length (content b) + 2048 \<le> unat (bufferSize b)"
  shows "2048 \<le> room (Compact b)"
proof -
  note wf = wf_bufferD [OF assms(1)] and wf' = wf_bufferD [OF Compact_wf [OF assms(1)]]
  have "GetFreeSize b < MAX_PACKET_SIZE \<Longrightarrow> readPos (Compact b) = 0"
    by (simp add: Compact_def Let_def)
  moreover have "\<not> GetFreeSize b < MAX_PACKET_SIZE \<Longrightarrow> 2048 \<le> room b"
    by (simp add: MAX_PACKET_SIZE_def word_less_nat_alt not_less)
  moreover have "room b \<le> room (Compact b)"
    using wf assms(1) Compact_wf [OF assms(1)] by (auto simp: Compact_def Let_def GetFreeSize_def
        wf_buffer_def unat_sub_le word_le_nat_alt GetDataSize_def)
  moreover have "readPos (Compact b) = 0 \<Longrightarrow> 2048 \<le> room (Compact b)"
    using wf' assms length_content [OF Compact_wf [OF assms(1)]]
    by (simp add: Compact_content)
  ultimately show ?thesis by fastforce
qed

end
