(* ===== verification/Packet_Format.thy ===== *)
theory Packet_Format
  imports Base_Buffer
begin

text \<open>
  The wire format: PacketHeader of ServerCore/Network/Session.h, the packet ids of
  GameServer/Packet/PacketId.h, and the first half of PacketHandler::SendPacket
  (GameServer/Packet/PacketHandler.h), which builds the send buffer. The serialised protobuf
  message is given by its bytes. The function frames is the specification of a byte stream:
  the packets it starts with, what is left, and whether the left part starts with a bad header.
\<close>

section \<open>Packet ids and headers\<close>

datatype packet_id =
    SC_SYSTEM_PING | SC_PLAYER_ENTER_GAME | SC_OBJECT_SPAWN | SC_OBJECT_DESPAWN
  | SC_PLAYER_MOVE | SC_CHAT_MSG
  | CS_SYSTEM_PONG | CS_PLAYER_ENTER_GAME | CS_PLAYER_MOVE | CS_CHAT_MSG

fun packet_num :: "packet_id \<Rightarrow> u16" where
  "packet_num SC_SYSTEM_PING = 0"
| "packet_num SC_PLAYER_ENTER_GAME = 1"
| "packet_num SC_OBJECT_SPAWN = 2"
| "packet_num SC_OBJECT_DESPAWN = 3"
| "packet_num SC_PLAYER_MOVE = 4"
| "packet_num SC_CHAT_MSG = 5"
| "packet_num CS_SYSTEM_PONG = 6"
| "packet_num CS_PLAYER_ENTER_GAME = 7"
| "packet_num CS_PLAYER_MOVE = 8"
| "packet_num CS_CHAT_MSG = 9"

record packet_header =
  hdr_id :: u16
  hdr_size :: u16

definition header_bytes :: "packet_header \<Rightarrow> u8 list" where
  "header_bytes h = u16_bytes (hdr_id h) @ u16_bytes (hdr_size h)"

definition sizeof_header :: nat where
  "sizeof_header = 4"

text \<open>reinterpret_cast of the first four bytes; None where they are not there.\<close>

fun read_header :: "u8 list \<Rightarrow> packet_header option" where
  "read_header (a # b # c # d # _) = Some \<lparr>hdr_id = bytes_u16 a b, hdr_size = bytes_u16 c d\<rparr>"
| "read_header _ = None"

section \<open>Building a packet\<close>

text \<open>
  SerializeToArray writes the message only if it fits the announced size; it reports failure
  otherwise and SendPacket ignores the report.
\<close>

definition SerializeToArray :: "u8 list \<Rightarrow> nat \<Rightarrow> u8 list" where
  "SerializeToArray msg n = (if length msg \<le> n then msg else [])"

definition payload_size :: "u8 list \<Rightarrow> u16" where
  "payload_size msg = of_nat (length msg)"

definition total_size :: "u8 list \<Rightarrow> u16" where
  "total_size msg = of_nat sizeof_header + payload_size msg"

text \<open>
  The buffer SendPacket hands to the session: None is a write past the end of the block, Some
  None a packet dropped for its size.
\<close>

definition MakeSendBuffer :: "packet_id \<Rightarrow> u8 list \<Rightarrow> base_buffer option option" where
  "MakeSendBuffer pid msg =
     (let totalSize = total_size msg in
      if MAX_PACKET_SIZE < ucast totalSize then Some None
      else do {
        let b = BaseBuffer (ucast totalSize);
        assert_crash (GetWritePtr b + sizeof_header \<le> length (buffer b));
        let b1 = b\<lparr>buffer := overwrite (buffer b) (GetWritePtr b)
                     (header_bytes \<lparr>hdr_id = packet_num pid, hdr_size = totalSize\<rparr>)\<rparr>;
        let b2 = b1\<lparr>buffer := overwrite (buffer b1) (GetWritePtr b1 + sizeof_header)
                     (SerializeToArray msg (unat (payload_size msg)))\<rparr>;
        b3 \<leftarrow> MoveWritePos (ucast totalSize) b2;
        Some (Some b3) })"

section \<open>Streams of packets\<close>

definition encode :: "packet_id \<Rightarrow> u8 list \<Rightarrow> u8 list" where
  "encode pid msg =
     header_bytes \<lparr>hdr_id = packet_num pid, hdr_size = of_nat (sizeof_header + length msg)\<rparr> @ msg"

definition bad_size :: "u16 \<Rightarrow> bool" where
  "bad_size n \<longleftrightarrow> MAX_PACKET_SIZE < ucast n \<or> unat n < sizeof_header"

function frames :: "u8 list \<Rightarrow> u8 list list \<times> u8 list \<times> bool" where
  "frames bs =
     (case read_header bs of
        None \<Rightarrow> ([], bs, False)
      | Some h \<Rightarrow>
          if bad_size (hdr_size h) then ([], bs, True)
          else if length bs < unat (hdr_size h) then ([], bs, False)
          else (case frames (drop (unat (hdr_size h)) bs) of
                  (ps, rest, bad) \<Rightarrow> (take (unat (hdr_size h)) bs # ps, rest, bad)))"
  by pat_completeness auto
termination
  by (relation "measure length")
     (auto simp: bad_size_def sizeof_header_def not_less elim!: read_header.elims)

declare frames.simps [simp del]

abbreviation packets_of :: "u8 list \<Rightarrow> u8 list list" where
  "packets_of bs \<equiv> fst (frames bs)"

abbreviation rest_of :: "u8 list \<Rightarrow> u8 list" where
  "rest_of bs \<equiv> fst (snd (frames bs))"

abbreviation bad_stream :: "u8 list \<Rightarrow> bool" where
  "bad_stream bs \<equiv> snd (snd (frames bs))"

section \<open>Lemmas about headers\<close>

lemma bad_size_iff: "bad_size n \<longleftrightarrow> 2048 < unat n \<or> unat n < 4"
  by (simp add: bad_size_def sizeof_header_def MAX_PACKET_SIZE_def word_less_nat_alt)

lemma read_header_None [simp]: "read_header bs = None \<longleftrightarrow> length bs < 4"
  by (cases bs rule: read_header.cases) auto

lemma read_header_length: "read_header bs = Some h \<Longrightarrow> 4 \<le> length bs"
  by (cases bs rule: read_header.cases) auto

lemma read_header_append [simp]: "read_header bs = Some h \<Longrightarrow> read_header (bs @ xs) = Some h"
  by (cases bs rule: read_header.cases) auto

lemma read_header_bytes [simp]: "read_header (header_bytes h @ xs) = Some h"
  by (simp add: header_bytes_def u16_bytes_def)

lemma length_header_bytes [simp]: "length (header_bytes h) = 4"
  by (simp add: header_bytes_def)

lemma length_encode [simp]: "length (encode pid msg) = 4 + length msg"
  by (simp add: encode_def)

section \<open>Lemmas about streams\<close>

lemma frames_short: "length bs < 4 \<Longrightarrow> frames bs = ([], bs, False)"
  by (subst frames.simps) (auto split: option.splits dest: read_header_length)

lemma frames_incomplete:
  "read_header bs = Some h \<Longrightarrow> \<not> bad_size (hdr_size h) \<Longrightarrow> length bs < unat (hdr_size h) \<Longrightarrow>
     frames bs = ([], bs, False)"
  by (subst frames.simps) simp

lemma frames_bad: "read_header bs = Some h \<Longrightarrow> bad_size (hdr_size h) \<Longrightarrow> frames bs = ([], bs, True)"
  by (subst frames.simps) simp

lemma frames_step:
  assumes "read_header bs = Some h" and "\<not> bad_size (hdr_size h)" and "unat (hdr_size h) \<le> length bs"
  shows "frames bs =
     (take (unat (hdr_size h)) bs # packets_of (drop (unat (hdr_size h)) bs),
      rest_of (drop (unat (hdr_size h)) bs), bad_stream (drop (unat (hdr_size h)) bs))"
  using assms by (subst frames.simps) (simp add: not_less split: prod.splits)

lemmas frames_eqs = frames_short frames_incomplete frames_bad frames_step

text \<open>The cases of a stream: too short, bad header, incomplete packet, complete packet.\<close>

lemma stream_cases [case_names short bad incomplete packet]:
  assumes "length bs < 4 \<Longrightarrow> P"
    and "\<And>h. read_header bs = Some h \<Longrightarrow> bad_size (hdr_size h) \<Longrightarrow> P"
    and "\<And>h. read_header bs = Some h \<Longrightarrow> \<not> bad_size (hdr_size h) \<Longrightarrow>
           length bs < unat (hdr_size h) \<Longrightarrow> P"
    and "\<And>h. read_header bs = Some h \<Longrightarrow> \<not> bad_size (hdr_size h) \<Longrightarrow>
           unat (hdr_size h) \<le> length bs \<Longrightarrow> P"
  shows P
  using assms by (cases "read_header bs") (auto simp: not_less[symmetric])

text \<open>No byte is lost or invented.\<close>

lemma frames_concat: "concat (packets_of bs) @ rest_of bs = bs"
proof (induction bs rule: frames.induct)
  case (1 bs)
  show ?case
  proof (cases bs rule: stream_cases)
    case (packet h)
    with 1 have "concat (packets_of (drop (unat (hdr_size h)) bs)) @
        rest_of (drop (unat (hdr_size h)) bs) = drop (unat (hdr_size h)) bs" by simp
    with packet show ?thesis by (simp add: frames_step)
  qed (simp_all add: frames_eqs)
qed

text \<open>What is left of a good stream is shorter than the largest packet.\<close>

lemma rest_of_short: "\<not> bad_stream bs \<Longrightarrow> length (rest_of bs) < 2048"
proof (induction bs rule: frames.induct)
  case (1 bs)
  then show ?case
    by (cases bs rule: stream_cases) (auto simp: frames_eqs bad_size_iff)
qed

lemma rest_of_frames: "frames (rest_of bs) = ([], rest_of bs, bad_stream bs)"
proof (induction bs rule: frames.induct)
  case (1 bs)
  then show ?case
    by (cases bs rule: stream_cases) (auto simp: frames_eqs)
qed

text \<open>Cutting a stream in two: the parse of the whole is the parse of the parts.\<close>

lemma frames_append:
  "frames (xs @ ys) =
     (if bad_stream xs then (packets_of xs, rest_of xs @ ys, True)
      else (packets_of xs @ packets_of (rest_of xs @ ys), rest_of (rest_of xs @ ys),
            bad_stream (rest_of xs @ ys)))"
proof (induction xs rule: frames.induct)
  case (1 xs)
  show ?case
  proof (cases xs rule: stream_cases)
    case (bad h)
    then show ?thesis by (simp add: frames_bad)
  next
    case (packet h)
    with 1 show ?thesis by (simp add: frames_step)
  qed (simp_all add: frames_short frames_incomplete)
qed

text \<open>Going on from what was left, also after a bad header.\<close>

lemma frames_resume:
  "frames (xs @ ys) = (packets_of xs @ packets_of (rest_of xs @ ys), rest_of (rest_of xs @ ys),
     bad_stream (rest_of xs @ ys))"
proof (cases "bad_stream xs")
  case True
  have "frames (rest_of xs @ ys) = ([], rest_of xs @ ys, True)"
    using frames_append [of "rest_of xs" ys] rest_of_frames [of xs] True by simp
  with True show ?thesis using frames_append [of xs ys] by simp
next
  case False
  then show ?thesis using frames_append [of xs ys] by simp
qed

lemma encode_header:
  assumes "length msg \<le> 2044"
  shows "read_header (encode pid msg @ r) =
           Some \<lparr>hdr_id = packet_num pid, hdr_size = of_nat (4 + length msg)\<rparr>"
    and "unat (of_nat (4 + length msg) :: u16) = 4 + length msg"
  using assms unat_of_nat_u16 [of "4 + length msg"] by (simp_all add: encode_def sizeof_header_def)

text \<open>A well-sized packet in front of a stream is parsed off whole.\<close>

lemma frames_encode:
  assumes "length msg \<le> 2044"
  shows "frames (encode pid msg @ r) = (encode pid msg # packets_of r, rest_of r, bad_stream r)"
  using assms encode_header(1) [OF assms, of pid r] encode_header(2) [OF assms]
  by (subst frames_step) (auto simp: bad_size_iff)

lemma frames_encodes:
  assumes "\<forall>(pid, msg) \<in> set ps. length msg \<le> 2044"
  shows "frames (concat (map (case_prod encode) ps)) = (map (case_prod encode) ps, [], False)"
  using assms
proof (induction ps)
  case Nil
  then show ?case by (simp add: frames_short)
next
  case (Cons p ps)
  then show ?case by (cases p) (simp add: frames_encode)
qed

section \<open>The send buffer\<close>

lemma unat_payload_size: "unat (payload_size msg) = length msg mod 65536"
  by (simp add: payload_size_def unat_of_nat)

lemma unat_total_size: "unat (total_size msg) = (4 + length msg) mod 65536"
proof -
  have "total_size msg = of_nat (4 + length msg)"
    by (simp add: total_size_def payload_size_def sizeof_header_def)
  then show ?thesis by (simp only: unat_of_nat) simp
qed

text \<open>Header and message fill the block of a packet that is small enough.\<close>

lemma MakeSendBuffer_block:
  assumes "unat (total_size msg) = 4 + k" and "k \<le> 2044"
    and "SerializeToArray msg (unat (payload_size msg)) = ys" and "length ys \<le> k"
  shows "\<exists>b. MakeSendBuffer pid msg = Some (Some b) \<and> wf_buffer b \<and>
     content b = header_bytes \<lparr>hdr_id = packet_num pid, hdr_size = total_size msg\<rparr> @
       ys @ replicate (k - length ys) 0"
proof -
  let ?h = "header_bytes \<lparr>hdr_id = packet_num pid, hdr_size = total_size msg\<rparr>"
  let ?n = "ucast (total_size msg) :: u32"
  let ?blk = "?h @ ys @ replicate (k - length ys) 0"
  let ?b = "\<lparr>buffer = ?blk, bufferSize = ?n, readPos = 0, writePos = ?n\<rparr>"
  have n: "unat ?n = 4 + k" using assms(1) by simp
  have first: "overwrite (replicate (unat ?n) 0) 0 ?h = ?h @ replicate k 0"
    using assms(1) by (simp add: overwrite_def)
  have second: "overwrite (?h @ replicate k 0) 4 ys = ?blk"
    using assms(4) by (simp add: overwrite_def)
  have small: "\<not> MAX_PACKET_SIZE < ?n"
    using n assms(2) by (simp add: MAX_PACKET_SIZE_def word_less_nat_alt)
  have "MakeSendBuffer pid msg = Some (Some ?b)"
    using small n first second assms(3)
    by (simp add: MakeSendBuffer_def Let_def BaseBuffer_def GetWritePtr_def sizeof_header_def
        MoveWritePos_def)
  moreover have "wf_buffer ?b" using n assms(4) by (simp add: wf_buffer_def)
  moreover have "content ?b = ?blk"
    using n assms(4) by (simp add: send_GetWSABUF_def GetDataSize_def GetReadPtr_def)
  ultimately show ?thesis by blast
qed

lemma MakeSendBuffer_ok:
  assumes "length msg \<le> 2044"
  shows "\<exists>b. MakeSendBuffer pid msg = Some (Some b) \<and> wf_buffer b \<and> content b = encode pid msg"
proof -
  have "total_size msg = of_nat (4 + length msg)"
    by (simp add: total_size_def payload_size_def sizeof_header_def)
  moreover have "unat (total_size msg) = 4 + length msg"
    using assms by (simp add: unat_total_size)
  ultimately show ?thesis
    using assms MakeSendBuffer_block [of msg "length msg" msg pid]
    by (simp add: SerializeToArray_def unat_payload_size encode_def sizeof_header_def)
qed

lemma MakeSendBuffer_dropped:
  assumes "2048 < (4 + length msg) mod 65536"
  shows "MakeSendBuffer pid msg = Some None"
  using assms
  by (simp add: MakeSendBuffer_def Let_def MAX_PACKET_SIZE_def word_less_nat_alt unat_total_size)

lemma MakeSendBuffer_truncated:
  assumes "65536 \<le> length msg" and "length msg mod 65536 = k" and "k \<le> 2044"
  shows "\<exists>b. MakeSendBuffer pid msg = Some (Some b) \<and> wf_buffer b \<and>
     content b = header_bytes \<lparr>hdr_id = packet_num pid, hdr_size = of_nat (4 + k)\<rparr> @ replicate k 0"
proof -
  have "(4 + length msg) mod 65536 = (4 + k) mod 65536"
    using mod_add_right_eq [of 4 "length msg" 65536] assms(2) by simp
  then have t: "unat (total_size msg) = 4 + k" using assms(3) by (simp add: unat_total_size)
  have h: "total_size msg = of_nat (4 + k)"
    using arg_cong [OF t, of "of_nat :: nat \<Rightarrow> u16"] by simp
  have "SerializeToArray msg (unat (payload_size msg)) = []"
    using assms by (simp add: SerializeToArray_def unat_payload_size)
  with MakeSendBuffer_block [OF t assms(3), of "[]" pid] h show ?thesis by simp
qed

lemma MakeSendBuffer_overrun:
  assumes "65532 \<le> length msg mod 65536"
  shows "MakeSendBuffer pid msg = None"
proof -
  have "length msg mod 65536 < 65536" by simp
  with assms obtain j where j: "length msg mod 65536 = 65532 + j" "j < 4"
    by (metis add_less_cancel_left le_add_diff_inverse numeral_plus_numeral semiring_norm(2,6,8))
  have "(4 + length msg) mod 65536 = (4 + (65532 + j)) mod 65536"
    using mod_add_right_eq [of 4 "length msg" 65536] j(1) by simp
  with j(2) have "unat (total_size msg) < 4" by (simp add: unat_total_size)
  then show ?thesis
    by (simp add: MakeSendBuffer_def Let_def BaseBuffer_def GetWritePtr_def sizeof_header_def
        MAX_PACKET_SIZE_def word_less_nat_alt)
qed

end
