(* ===== verification/Session_Core.thy ===== *)
theory Session_Core
  imports Packet_Format "HOL-Library.Signed_Division"
begin

text \<open>
  ServerCore/Network/Session.cpp: the state of one client connection and every operation on it.
  The calls a session makes to its service (CoreService.h) are the record core_service, whose
  functions act on the session and on the service's own state 'w. The calls it makes to Windows
  are the record os_calls: whether each call is accepted, as a function of the session, which
  carries the list io of the calls made so far. None is a crash of the process.
\<close>

section \<open>State\<close>

definition INVALID_SOCKET :: u64 where
  "INVALID_SOCKET = - 1"

definition MAX_SEND_BUFFER_COUNT :: nat where
  "MAX_SEND_BUFFER_COUNT = 10"

definition AVG_RTT_COUNT :: nat where
  "AVG_RTT_COUNT = 10"

text \<open>Time points count nanoseconds; the session times out after 300 seconds.\<close>

definition TIMEOUT_SECONDS :: int where
  "TIMEOUT_SECONDS = 300 * 10 ^ 9"

text \<open>
  What a session has done, in order. The calls to Windows: registering its socket, posting a
  receive of so many bytes, posting a send of these buffers, closing a socket. And what crosses
  its interface: a buffer that Send accepted into the queue, a packet handed to the service. The
  list only grows and no operation reads it, except that os_calls may depend on it.
\<close>

datatype io_event =
    IoRegister u64
  | IoRecv u32
  | IoSend "u8 list list"
  | IoClose u64
  | IoSubmit "u8 list"
  | IoPacket "u8 list"

text \<open>
  A buffer reference in the send queue can be null, so the queue holds options. The player
  pointer is the id of the player's object; the service pointer is only tested for null.
\<close>

record session =
  sessionID :: u64
  sock :: u64
  lastRecvTime :: int
  lastSendTime :: int
  connectedTime :: int
  isClosed :: bool
  sendContext :: "base_buffer option list"
  sendDeque :: "base_buffer option list"
  sending :: bool
  avgRoundTripTime :: u32
  rttDeque :: "u32 list"
  pingCount :: u64
  pongCount :: u64
  hasService :: bool
  playerClass :: "u64 option"
  io :: "io_event list"

text \<open>A connection: the session, its receive buffer (_recvContext) and the service's state.\<close>

record 'w conn =
  sess :: session
  recvBuffer :: base_buffer
  app :: 'w

record 'w core_service =
  OnConnected :: "session \<Rightarrow> 'w \<Rightarrow> (session \<times> 'w) option"
  OnDisconnected :: "session \<Rightarrow> 'w \<Rightarrow> (session \<times> 'w) option"
  OnRecv :: "u8 list \<Rightarrow> session \<Rightarrow> 'w \<Rightarrow> (session \<times> 'w) option"
  OnSend :: "int \<Rightarrow> session \<Rightarrow> 'w \<Rightarrow> (session \<times> 'w) option"
  OnHeartbeat :: "session \<Rightarrow> 'w \<Rightarrow> (session \<times> 'w) option"

record os_calls =
  os_WSARecv :: "session \<Rightarrow> u32 \<Rightarrow> bool"
  os_WSASend :: "session \<Rightarrow> u8 list list \<Rightarrow> bool"
  os_getpeername :: "session \<Rightarrow> bool"

section \<open>Creation and closing\<close>

definition Session :: "u64 \<Rightarrow> int \<Rightarrow> session" where
  "Session sid now = \<lparr>sessionID = sid, sock = INVALID_SOCKET, lastRecvTime = now,
     lastSendTime = now, connectedTime = now, isClosed = False, sendContext = [], sendDeque = [],
     sending = False, avgRoundTripTime = 0, rttDeque = [], pingCount = 0, pongCount = 0,
     hasService = False, playerClass = None, io = []\<rparr>"

definition PreInit :: "u64 \<Rightarrow> int \<Rightarrow> session \<Rightarrow> session" where
  "PreInit skt now s = s\<lparr>sock := skt, hasService := True, lastRecvTime := now,
     lastSendTime := now, connectedTime := now\<rparr>"

definition CloseResource :: "session \<Rightarrow> session" where
  "CloseResource s =
     (let s1 = (if sock s \<noteq> INVALID_SOCKET
                then s\<lparr>io := io s @ [IoClose (sock s)], sock := INVALID_SOCKET\<rparr> else s)
      in s1\<lparr>sendContext := [], sendDeque := []\<rparr>)"

text \<open>The destructor of a session that was never closed.\<close>

definition destroy_Session :: "session \<Rightarrow> session" where
  "destroy_Session s = (if isClosed s then s else CloseResource s)"

text \<open>disc is the service's OnDisconnected.\<close>

definition Close ::
  "(session \<Rightarrow> 'w \<Rightarrow> (session \<times> 'w) option) \<Rightarrow> session \<Rightarrow> 'w \<Rightarrow> (session \<times> 'w) option" where
  "Close disc s w =
     (if isClosed s then Some (s, w)
      else do {
        let s1 = s\<lparr>isClosed := True, sending := False\<rparr>;
        (s2, w2) \<leftarrow> (if hasService s1 then disc s1 w else Some (s1, w));
        Some (CloseResource s2, w2) })"

section \<open>Sending\<close>

text \<open>
  The loop of ProcessSend under the lock: at most n buffers, null and completed ones skipped.
\<close>

fun drain_deque :: "nat \<Rightarrow> base_buffer option list \<Rightarrow> base_buffer list \<times> base_buffer option list" where
  "drain_deque n [] = ([], [])"
| "drain_deque 0 ds = ([], ds)"
| "drain_deque n (None # ds) = drain_deque n ds"
| "drain_deque (Suc n) (Some b # ds) =
     (if IsCompleted b then drain_deque (Suc n) ds
      else (case drain_deque n ds of (bs, rest) \<Rightarrow> (b # bs, rest)))"

definition ProcessSend ::
  "os_calls \<Rightarrow> (session \<Rightarrow> 'w \<Rightarrow> (session \<times> 'w) option) \<Rightarrow> session \<Rightarrow> 'w \<Rightarrow>
     (session \<times> 'w) option" where
  "ProcessSend os disc s w =
     (case drain_deque MAX_SEND_BUFFER_COUNT (sendDeque s) of (sendBuffers, rest) \<Rightarrow>
        let s1 = s\<lparr>sendDeque := rest\<rparr>; wsabufs = map send_GetWSABUF sendBuffers in
        if sendBuffers = [] then Some (s1\<lparr>sending := False\<rparr>, w)
        else if \<not> os_WSASend os s1 wsabufs then Close disc s1 w
        else Some (s1\<lparr>io := io s1 @ [IoSend wsabufs], sendContext := map Some sendBuffers\<rparr>, w))"

definition entry_bytes :: "base_buffer option \<Rightarrow> u8 list" where
  "entry_bytes x = (case x of None \<Rightarrow> [] | Some b \<Rightarrow> send_GetWSABUF b)"

definition Send ::
  "os_calls \<Rightarrow> (session \<Rightarrow> 'w \<Rightarrow> (session \<times> 'w) option) \<Rightarrow> base_buffer option \<Rightarrow>
     session \<Rightarrow> 'w \<Rightarrow> (session \<times> 'w) option" where
  "Send os disc sendBuffer s w =
     (if isClosed s then Some (s, w)
      else (let s1 = s\<lparr>sendDeque := sendDeque s @ [sendBuffer],
                       io := io s @ [IoSubmit (entry_bytes sendBuffer)]\<rparr> in
        if sending s1 then Some (s1, w)
        else ProcessSend os disc (s1\<lparr>sending := True\<rparr>) w))"

text \<open>
  The loop of OnSendCompleted over the buffers of the finished WSASend: the buffers that have to
  be sent again. The byte counts are int32 in the code; the sizes are those of packets.
\<close>

fun send_completed_loop :: "int \<Rightarrow> base_buffer option list \<Rightarrow> base_buffer option list option" where
  "send_completed_loop remainBytes [] = Some []"
| "send_completed_loop remainBytes (x # xs) =
     (if remainBytes \<le> 0 then Some []
      else (case x of
          None \<Rightarrow> send_completed_loop remainBytes xs
        | Some b \<Rightarrow>
            (let useSize = sint (GetDataSize b) in
             if useSize \<le> remainBytes
             then do {
               _ \<leftarrow> send_OnSendCompleted (of_int useSize) b;
               send_completed_loop (remainBytes - useSize) xs }
             else Some [Some b])))"

definition OnSendCompleted ::
  "os_calls \<Rightarrow> 'w core_service \<Rightarrow> int \<Rightarrow> int \<Rightarrow> session \<Rightarrow> 'w \<Rightarrow> (session \<times> 'w) option" where
  "OnSendCompleted os svc now bytesTransferred s w =
     (let s0 = s\<lparr>lastSendTime := now\<rparr> in
      if bytesTransferred = 0 then Close (OnDisconnected svc) s0 w
      else do {
        remain \<leftarrow> send_completed_loop bytesTransferred (sendContext s0);
        let s1 = s0\<lparr>sendContext := [], sendDeque := remain @ sendDeque s0\<rparr>;
        (s2, w2) \<leftarrow> (if sendDeque s1 \<noteq> [] then ProcessSend os (OnDisconnected svc) s1 w
                     else Some (s1\<lparr>sending := False\<rparr>, w));
        OnSend svc bytesTransferred s2 w2 })"

section \<open>Receiving\<close>

text \<open>
  ProcessRecv posts the next receive: it compacts a full buffer once, closes the session when
  that frees nothing or when WSARecv is refused.
\<close>

definition conn_close :: "'w core_service \<Rightarrow> 'w conn \<Rightarrow> 'w conn option" where
  "conn_close svc c = do {
     (s, w) \<leftarrow> Close (OnDisconnected svc) (sess c) (app c);
     Some (c\<lparr>sess := s, app := w\<rparr>) }"

definition ProcessRecv :: "os_calls \<Rightarrow> 'w core_service \<Rightarrow> 'w conn \<Rightarrow> 'w conn option" where
  "ProcessRecv os svc c =
     (let rb = (if snd (recv_GetWSABUF (recvBuffer c)) = 0 then Compact (recvBuffer c)
                else recvBuffer c);
          len = snd (recv_GetWSABUF rb); c1 = c\<lparr>recvBuffer := rb\<rparr> in
      if len = 0 then conn_close svc c1
      else if \<not> os_WSARecv os (sess c1) len then conn_close svc c1
      else Some (c1\<lparr>sess := (sess c1)\<lparr>io := io (sess c1) @ [IoRecv len]\<rparr>\<rparr>))"

text \<open>
  The packet loop of OnRecvCompleted. The flag is False when a bad header made it close the
  session and return; the measure is the number of unread bytes.
\<close>

lemma recv_loop_decreases:
  assumes "\<not> GetDataSize rb < 4" and "\<not> bad_size n" and "\<not> GetDataSize rb < ucast n"
  shows "unat (GetDataSize (rb\<lparr>readPos := readPos rb + ucast n\<rparr>)) < unat (GetDataSize rb)"
proof -
  have "GetDataSize (rb\<lparr>readPos := readPos rb + ucast n\<rparr>) = GetDataSize rb - ucast n"
    by (simp add: GetDataSize_def algebra_simps)
  then show ?thesis
    using assms by (simp add: not_less unat_sub_le bad_size_iff word_le_nat_alt)
qed

function recv_loop :: "'w core_service \<Rightarrow> 'w conn \<Rightarrow> (bool \<times> 'w conn) option" where
  "recv_loop svc c =
     (let rb = recvBuffer c in
      if GetDataSize rb < 4 then Some (True, c)
      else (case read_header (drop (GetReadPtr rb) (buffer rb)) of
          None \<Rightarrow> None
        | Some header \<Rightarrow>
            let dataSize = hdr_size header in
            if bad_size dataSize then do { c' \<leftarrow> conn_close svc c; Some (False, c') }
            else if GetDataSize rb < ucast dataSize then Some (True, c)
            else do {
              let packet = take (unat dataSize) (drop (GetReadPtr rb) (buffer rb));
              (s, w) \<leftarrow> OnRecv svc packet ((sess c)\<lparr>io := io (sess c) @ [IoPacket packet]\<rparr>) (app c);
              rb' \<leftarrow> MoveReadPos (ucast dataSize) rb;
              recv_loop svc (c\<lparr>sess := s, app := w, recvBuffer := rb'\<rparr>) }))"
  by pat_completeness auto
termination
  by (relation "measure (\<lambda>(svc, c). unat (GetDataSize (recvBuffer c)))")
     (auto simp: MoveReadPos_def recv_loop_decreases split: if_splits)

declare recv_loop.simps [simp del]

text \<open>
  The completion of a receive of n bytes; the bytes themselves are in the buffer already
  (wsa_fill). The count is an int32 in the code and a DWORD of Windows.
\<close>

definition OnRecvCompleted ::
  "os_calls \<Rightarrow> 'w core_service \<Rightarrow> int \<Rightarrow> u32 \<Rightarrow> 'w conn \<Rightarrow> 'w conn option" where
  "OnRecvCompleted os svc now bytesTransferred c =
     (if bytesTransferred = 0 then conn_close svc c
      else do {
        let c1 = c\<lparr>sess := (sess c)\<lparr>lastRecvTime := now\<rparr>\<rparr>;
        rb \<leftarrow> MoveWritePos bytesTransferred (recvBuffer c1);
        (ok, c2) \<leftarrow> recv_loop svc (c1\<lparr>recvBuffer := rb\<rparr>);
        (if ok then ProcessRecv os svc (c2\<lparr>recvBuffer := Compact (recvBuffer c2)\<rparr>)
         else Some c2) })"

text \<open>Init: register the socket, note the peer, post the first receive, tell the service.\<close>

definition Init ::
  "os_calls \<Rightarrow> 'w core_service \<Rightarrow> int \<Rightarrow> u64 \<Rightarrow> bool \<Rightarrow> 'w conn \<Rightarrow> (bool \<times> 'w conn) option" where
  "Init os svc now skt createIOCP c =
     (let s = (sess c)\<lparr>sock := skt, lastRecvTime := now, lastSendTime := now,
                        connectedTime := now\<rparr>;
          s1 = (if createIOCP then s\<lparr>io := io s @ [IoRegister skt]\<rparr> else s);
          c1 = c\<lparr>sess := s1\<rparr> in
      if \<not> os_getpeername os s1 then Some (False, c1)
      else do {
        c2 \<leftarrow> ProcessRecv os svc c1;
        (s3, w3) \<leftarrow> OnConnected svc (sess c2) (app c2);
        Some (True, c2\<lparr>sess := s3, app := w3\<rparr>) })"

section \<open>Round-trip times, heartbeat counters, accessors\<close>

text \<open>std::accumulate adds in 32 bits; the quotient truncates.\<close>

definition updateRoundTripTime :: "u32 \<Rightarrow> session \<Rightarrow> session" where
  "updateRoundTripTime roundTripTime s =
     (let d = (if AVG_RTT_COUNT \<le> length (rttDeque s) then tl (rttDeque s) else rttDeque s)
              @ [roundTripTime];
          s1 = s\<lparr>rttDeque := d\<rparr> in
      if d = [] then s1
      else s1\<lparr>avgRoundTripTime := of_int (sint (sum_list d) sdiv int (length d))\<rparr>)"

definition IncreasePingCount :: "session \<Rightarrow> session" where
  "IncreasePingCount s = s\<lparr>pingCount := pingCount s + 1\<rparr>"

definition IncreasePongCount :: "session \<Rightarrow> session" where
  "IncreasePongCount s = s\<lparr>pongCount := pongCount s + 1\<rparr>"

definition IsTimeout :: "int \<Rightarrow> session \<Rightarrow> bool" where
  "IsTimeout now s \<longleftrightarrow> TIMEOUT_SECONDS < now - lastSendTime s"

definition GetRttAvg :: "session \<Rightarrow> int" where
  "GetRttAvg s = (if sint (avgRoundTripTime s) \<le> 0 then 1 else sint (avgRoundTripTime s))"

definition SetPlayer :: "u64 \<Rightarrow> session \<Rightarrow> session" where
  "SetPlayer player s = s\<lparr>playerClass := Some player\<rparr>"

definition DetachPlayer :: "session \<Rightarrow> session" where
  "DetachPlayer s = s\<lparr>playerClass := None\<rparr>"

text \<open>SendPacket: build the buffer, drop it when it is too large, otherwise queue it.\<close>

definition SendPacket ::
  "os_calls \<Rightarrow> (session \<Rightarrow> 'w \<Rightarrow> (session \<times> 'w) option) \<Rightarrow> packet_id \<Rightarrow> u8 list \<Rightarrow>
     session \<Rightarrow> 'w \<Rightarrow> (session \<times> 'w) option" where
  "SendPacket os disc pid msg s w = do {
     sendBuffer \<leftarrow> MakeSendBuffer pid msg;
     (case sendBuffer of
        None \<Rightarrow> Some (s, w)
      | Some b \<Rightarrow> Send os disc (Some b) s w) }"

section \<open>The receive loop parses the stream\<close>

text \<open>Handing a list of packets to the service, in order.\<close>

primrec deliver ::
  "'w core_service \<Rightarrow> u8 list list \<Rightarrow> session \<Rightarrow> 'w \<Rightarrow> (session \<times> 'w) option" where
  "deliver svc [] s w = Some (s, w)"
| "deliver svc (p # ps) s w = do {
     (s1, w1) \<leftarrow> OnRecv svc p (s\<lparr>io := io s @ [IoPacket p]\<rparr>) w;
     deliver svc ps s1 w1 }"

lemma read_header_take [simp]: "4 \<le> n \<Longrightarrow> read_header (take n bs) = read_header bs"
  by (cases bs rule: read_header.cases) (auto simp: take_Cons' numeral_eq_Suc)

lemma read_header_content:
  "wf_buffer rb \<Longrightarrow> 4 \<le> length (content rb) \<Longrightarrow>
     read_header (drop (GetReadPtr rb) (buffer rb)) = read_header (content rb)"
  by (simp add: length_content) (simp add: send_GetWSABUF_def)

lemma take_content:
  "wf_buffer rb \<Longrightarrow> n \<le> length (content rb) \<Longrightarrow>
     take n (drop (GetReadPtr rb) (buffer rb)) = take n (content rb)"
  by (simp add: length_content) (simp add: send_GetWSABUF_def min_def)

lemma GetDataSize_less:
  "wf_buffer rb \<Longrightarrow> GetDataSize rb < n \<longleftrightarrow> length (content rb) < unat n"
  by (simp add: length_content word_less_nat_alt)

lemma recv_loop_stop:
  assumes "wf_buffer (recvBuffer c)" and "packets_of (content (recvBuffer c)) = []"
    and "\<not> bad_stream (content (recvBuffer c))"
  shows "recv_loop svc c = Some (True, c)"
  using assms
  by (cases "content (recvBuffer c)" rule: stream_cases; subst recv_loop.simps)
     (auto simp: Let_def GetDataSize_less read_header_content frames_eqs)

lemma recv_loop_bad:
  assumes "wf_buffer (recvBuffer c)" and "read_header (content (recvBuffer c)) = Some h"
    and "bad_size (hdr_size h)"
  shows "recv_loop svc c = do { c' \<leftarrow> conn_close svc c; Some (False, c') }"
  using assms read_header_length [OF assms(2)]
  by (subst recv_loop.simps) (auto simp: Let_def GetDataSize_less read_header_content)

lemma recv_loop_packet:
  assumes wf: "wf_buffer (recvBuffer c)" and h: "read_header (content (recvBuffer c)) = Some h"
    and good: "\<not> bad_size (hdr_size h)" and le: "unat (hdr_size h) \<le> length (content (recvBuffer c))"
  shows "recv_loop svc c = do {
     (s, w) \<leftarrow> deliver svc [take (unat (hdr_size h)) (content (recvBuffer c))] (sess c) (app c);
     rb \<leftarrow> consume (unat (hdr_size h)) (recvBuffer c);
     recv_loop svc (c\<lparr>sess := s, app := w, recvBuffer := rb\<rparr>) }"
  using assms read_header_length [OF h]
  by (subst recv_loop.simps)
     (simp add: Let_def GetDataSize_less read_header_content take_content consume_def split_beta)

text \<open>
  The loop, whatever the service does: it delivers the packets the content starts with and keeps
  the rest; a bad header closes the session.
\<close>

definition after_loop :: "'w core_service \<Rightarrow> bool \<Rightarrow> 'w conn \<Rightarrow> (bool \<times> 'w conn) option" where
  "after_loop svc bad c =
     (if bad then do { c' \<leftarrow> conn_close svc c; Some (False, c') } else Some (True, c))"

lemma recv_loop_spec:
  assumes "wf_buffer rb"
  shows "\<exists>rb'. wf_buffer rb' \<and> content rb' = rest_of (content rb) \<and> bufferSize rb' = bufferSize rb \<and>
    (\<forall>s w. recv_loop svc \<lparr>sess = s, recvBuffer = rb, app = w\<rparr> = do {
       (s1, w1) \<leftarrow> deliver svc (packets_of (content rb)) s w;
       after_loop svc (bad_stream (content rb)) \<lparr>sess = s1, recvBuffer = rb', app = w1\<rparr> })"
  using assms
proof (induction "length (content rb)" arbitrary: rb rule: less_induct)
  case less
  note wf = less.prems
  have stop: ?case if "packets_of (content rb) = []" "\<not> bad_stream (content rb)"
      "rest_of (content rb) = content rb"
    using that wf by (auto simp: recv_loop_stop after_loop_def intro!: exI [of _ rb])
  show ?case
  proof (cases "content rb" rule: stream_cases)
    case (bad h)
    with wf show ?thesis
      by (auto simp: recv_loop_bad frames_bad after_loop_def intro!: exI [of _ rb])
  next
    case (packet h)
    let ?n = "unat (hdr_size h)" and ?ct = "content rb"
    from consume_ok [OF wf packet(3)] obtain rb1
      where rb1: "consume ?n rb = Some rb1" "wf_buffer rb1" "content rb1 = drop ?n ?ct" by auto
    have "0 < ?n" using packet(2) by (simp add: bad_size_iff)
    then have "length (content rb1) < length ?ct"
      using packet(3) by (simp add: rb1(3))
    from less.hyps [OF this rb1(2)] obtain rb' where rb':
      "wf_buffer rb'" "content rb' = rest_of (drop ?n ?ct)" "bufferSize rb' = bufferSize rb"
      and eq: "\<And>s w. recv_loop svc \<lparr>sess = s, recvBuffer = rb1, app = w\<rparr> = do {
        (s1, w1) \<leftarrow> deliver svc (packets_of (drop ?n ?ct)) s w;
        after_loop svc (bad_stream (drop ?n ?ct)) \<lparr>sess = s1, recvBuffer = rb', app = w1\<rparr> }"
      by (auto simp: rb1(3) consume_bufferSize [OF rb1(1)])
    have "recv_loop svc \<lparr>sess = s, recvBuffer = rb, app = w\<rparr> = do {
        (s1, w1) \<leftarrow> deliver svc (take ?n ?ct # packets_of (drop ?n ?ct)) s w;
        after_loop svc (bad_stream (drop ?n ?ct)) \<lparr>sess = s1, recvBuffer = rb', app = w1\<rparr> }" for s w
      using packet wf
      by (subst recv_loop_packet) (auto simp: rb1(1) eq split_beta intro!: Option.bind_cong [OF refl])
    with rb' packet show ?thesis
      by (auto simp: frames_step intro!: exI [of _ rb'])
  qed (use stop in \<open>simp_all add: frames_short frames_incomplete\<close>)
qed

section \<open>A completed receive\<close>

text \<open>The completion of a receive of the bytes bs.\<close>

definition receive ::
  "os_calls \<Rightarrow> 'w core_service \<Rightarrow> int \<Rightarrow> u8 list \<Rightarrow> 'w conn \<Rightarrow> 'w conn option" where
  "receive os svc now bs c =
     OnRecvCompleted os svc now (of_nat (length bs)) (c\<lparr>recvBuffer := wsa_fill bs (recvBuffer c)\<rparr>)"

lemma of_nat_length_neq_0:
  "0 < n \<Longrightarrow> n < 4294967296 \<Longrightarrow> (of_nat n :: u32) \<noteq> 0"
  using unat_of_nat_u32 [of n] by auto

lemma receive_spec:
  assumes wf: "wf_buffer (recvBuffer c)" and fits: "length bs \<le> room (recvBuffer c)"
    and ne: "bs \<noteq> []" and ct: "content (recvBuffer c) @ bs = ct"
  shows "\<exists>rb'. wf_buffer rb' \<and> content rb' = rest_of ct \<and>
    bufferSize rb' = bufferSize (recvBuffer c) \<and>
    receive os svc now bs c = do {
      (s1, w1) \<leftarrow> deliver svc (packets_of ct) ((sess c)\<lparr>lastRecvTime := now\<rparr>) (app c);
      let c1 = c\<lparr>sess := s1, app := w1, recvBuffer := rb'\<rparr>;
      (if bad_stream ct then conn_close svc c1
       else ProcessRecv os svc (c1\<lparr>recvBuffer := Compact rb'\<rparr>)) }"
proof -
  from recv_fill_ok [OF wf fits] ct obtain rb where rb:
    "recv_fill bs (recvBuffer c) = Some rb" "wf_buffer rb" "content rb = ct" by auto
  from recv_loop_spec [OF rb(2), of svc] obtain rb' where rb':
    "wf_buffer rb'" "content rb' = rest_of ct" "bufferSize rb' = bufferSize (recvBuffer c)"
    and loop: "\<And>s w. recv_loop svc \<lparr>sess = s, recvBuffer = rb, app = w\<rparr> = do {
       (s1, w1) \<leftarrow> deliver svc (packets_of ct) s w;
       after_loop svc (bad_stream ct) \<lparr>sess = s1, recvBuffer = rb', app = w1\<rparr> }"
    by (auto simp: rb(3) recv_fill_bufferSize [OF rb(1)])
  have "(of_nat (length bs) :: u32) \<noteq> 0"
    using ne fits unat_u32_less [of "GetFreeSize (recvBuffer c)"]
    by (intro of_nat_length_neq_0) auto
  then have "receive os svc now bs c = do {
      (s1, w1) \<leftarrow> deliver svc (packets_of ct) ((sess c)\<lparr>lastRecvTime := now\<rparr>) (app c);
      let c1 = c\<lparr>sess := s1, app := w1, recvBuffer := rb'\<rparr>;
      (if bad_stream ct then conn_close svc c1
       else ProcessRecv os svc (c1\<lparr>recvBuffer := Compact rb'\<rparr>)) }"
    using rb(1) loop
    by (cases c)
       (auto simp: receive_def OnRecvCompleted_def recv_fill_def recv_OnRecvCompleted_def
         after_loop_def Let_def split_beta Option.bind_assoc intro!: Option.bind_cong [OF refl])
  with rb' show ?thesis by blast
qed

end
