(* ===== verification/Session_Laws.thy ===== *)
theory Session_Laws
  imports Session_Core "HOL-Library.Sublist"
begin

text \<open>
  What a session guarantees. The invariant session_inv accounts for every byte on the send path:
  while the session is open, the bytes given to WSASend followed by the queued bytes are exactly
  the bytes accepted by Send. The locale service_contract is the interface between a session and
  its service (CoreService): a callback may send, close and touch the session as it likes, as long
  as it keeps the invariant, does not reopen it and takes no packet out of the stream. The
  relation conn_reach is the life of a connection; its invariant is proved inside the locale.
\<close>

section \<open>Bytes on the way out, packets on the way in\<close>

fun wire_event :: "io_event \<Rightarrow> u8 list" where
  "wire_event (IoSend bss) = concat bss"
| "wire_event _ = []"

fun submit_event :: "io_event \<Rightarrow> u8 list" where
  "submit_event (IoSubmit bs) = bs"
| "submit_event _ = []"

fun packet_event :: "io_event \<Rightarrow> u8 list list" where
  "packet_event (IoPacket p) = [p]"
| "packet_event _ = []"

definition wire_of :: "io_event list \<Rightarrow> u8 list" where
  "wire_of es = concat (map wire_event es)"

definition submitted_of :: "io_event list \<Rightarrow> u8 list" where
  "submitted_of es = concat (map submit_event es)"

definition packets_in :: "io_event list \<Rightarrow> u8 list list" where
  "packets_in es = concat (map packet_event es)"

lemma wire_of_simps [simp]:
  "wire_of [] = []" "wire_of (e # es) = wire_event e @ wire_of es"
  "wire_of (es @ es') = wire_of es @ wire_of es'"
  by (simp_all add: wire_of_def)

lemma submitted_of_simps [simp]:
  "submitted_of [] = []" "submitted_of (e # es) = submit_event e @ submitted_of es"
  "submitted_of (es @ es') = submitted_of es @ submitted_of es'"
  by (simp_all add: submitted_of_def)

lemma packets_in_simps [simp]:
  "packets_in [] = []" "packets_in (e # es) = packet_event e @ packets_in es"
  "packets_in (es @ es') = packets_in es @ packets_in es'"
  by (simp_all add: packets_in_def)

definition pending :: "base_buffer option list \<Rightarrow> u8 list" where
  "pending ds = concat (map entry_bytes ds)"

lemma pending_simps [simp]:
  "pending [] = []" "pending (x # ds) = entry_bytes x @ pending ds"
  "pending (ds @ ds') = pending ds @ pending ds'"
  by (simp_all add: pending_def)

lemma entry_bytes_simps [simp]: "entry_bytes None = []" "entry_bytes (Some b) = content b"
  by (simp_all add: entry_bytes_def)

section \<open>The invariant of a session\<close>

text \<open>Queued buffers hold at most a packet; those in flight also hold at least a byte.\<close>

definition packet_buffer :: "base_buffer \<Rightarrow> bool" where
  "packet_buffer b \<longleftrightarrow> wf_buffer b \<and> length (content b) \<le> 2048"

definition queue_ok :: "base_buffer option list \<Rightarrow> bool" where
  "queue_ok ds \<longleftrightarrow> (\<forall>b. Some b \<in> set ds \<longrightarrow> packet_buffer b)"

definition flight_ok :: "base_buffer option list \<Rightarrow> bool" where
  "flight_ok ds \<longleftrightarrow> length ds \<le> MAX_SEND_BUFFER_COUNT \<and>
     (\<forall>x \<in> set ds. \<exists>b. x = Some b \<and> packet_buffer b \<and> content b \<noteq> [])"

definition session_inv :: "session \<Rightarrow> bool" where
  "session_inv s \<longleftrightarrow> queue_ok (sendDeque s) \<and> flight_ok (sendContext s) \<and>
     (if isClosed s then prefix (wire_of (io s)) (submitted_of (io s))
      else (sending s \<longleftrightarrow> sendContext s \<noteq> []) \<and> (\<not> sending s \<longrightarrow> sendDeque s = []) \<and>
        wire_of (io s) @ pending (sendDeque s) = submitted_of (io s))"

text \<open>The state in which ProcessSend runs: the flag is up and nothing is in flight.\<close>

definition send_ready :: "session \<Rightarrow> bool" where
  "send_ready s \<longleftrightarrow> queue_ok (sendDeque s) \<and> sendContext s = [] \<and> sending s \<and> \<not> isClosed s \<and>
     wire_of (io s) @ pending (sendDeque s) = submitted_of (io s)"

text \<open>What a callback may do to a session.\<close>

definition session_step :: "session \<Rightarrow> session \<Rightarrow> bool" where
  "session_step s s' \<longleftrightarrow> (session_inv s \<longrightarrow> session_inv s') \<and> (isClosed s \<longrightarrow> isClosed s') \<and>
     packets_in (io s') = packets_in (io s)"

lemma session_step_refl [simp]: "session_step s s"
  by (simp add: session_step_def)

lemma session_step_trans: "session_step s s' \<Longrightarrow> session_step s' s'' \<Longrightarrow> session_step s s''"
  by (simp add: session_step_def)

lemma queue_ok_simps [simp]:
  "queue_ok []" "queue_ok (None # ds) = queue_ok ds"
  "queue_ok (Some b # ds) \<longleftrightarrow> packet_buffer b \<and> queue_ok ds"
  "queue_ok (ds @ ds') \<longleftrightarrow> queue_ok ds \<and> queue_ok ds'"
  by (auto simp: queue_ok_def)

lemma flight_ok_Nil [simp]: "flight_ok []"
  by (simp add: flight_ok_def)

section \<open>Closing\<close>

lemma CloseResource_fields [simp]:
  "isClosed (CloseResource s) = isClosed s" "sendDeque (CloseResource s) = []"
  "sendContext (CloseResource s) = []" "sock (CloseResource s) = INVALID_SOCKET"
  "sending (CloseResource s) = sending s"
  by (simp_all add: CloseResource_def Let_def)

lemma CloseResource_io [simp]:
  "wire_of (io (CloseResource s)) = wire_of (io s)" "submitted_of (io (CloseResource s)) = submitted_of (io s)"
  "packets_in (io (CloseResource s)) = packets_in (io s)"
  by (simp_all add: CloseResource_def Let_def)

lemma CloseResource_closed_inv: "session_inv s \<Longrightarrow> isClosed s \<Longrightarrow> session_inv (CloseResource s)"
  by (simp add: session_inv_def)

lemma closing_inv:
  assumes "session_inv s \<or> send_ready s"
  shows "session_inv (s\<lparr>isClosed := True, sending := False\<rparr>)"
proof -
  have "prefix (wire_of (io s)) (submitted_of (io s))" if "\<not> isClosed s"
    using assms that unfolding session_inv_def send_ready_def prefix_def by metis
  with assms show ?thesis by (auto simp: session_inv_def send_ready_def split: if_splits)
qed

section \<open>The loop of ProcessSend\<close>

lemma IsCompleted_content: "packet_buffer b \<Longrightarrow> IsCompleted b \<longleftrightarrow> content b = []"
  using length_content [of b] by (auto simp: packet_buffer_def IsCompleted_def unat_eq_0)

lemma packet_buffer_size: "packet_buffer b \<Longrightarrow> sint (GetDataSize b) = int (length (content b))"
  using length_content [of b] sint_u32_small [of "GetDataSize b"] by (auto simp: packet_buffer_def)

lemma drain_deque_ok:
  assumes "drain_deque n ds = (bs, rest)" and "queue_ok ds"
  shows "concat (map content bs) @ pending rest = pending ds" and "queue_ok rest"
    and "length bs \<le> n" and "\<forall>b \<in> set bs. packet_buffer b \<and> content b \<noteq> []"
    and "bs = [] \<Longrightarrow> 0 < n \<Longrightarrow> rest = []"
proof -
  have "concat (map content bs) @ pending rest = pending ds \<and> queue_ok rest \<and> length bs \<le> n \<and>
      (\<forall>b \<in> set bs. packet_buffer b \<and> content b \<noteq> []) \<and> (bs = [] \<longrightarrow> 0 < n \<longrightarrow> rest = [])"
    using assms
  proof (induction n ds arbitrary: bs rest rule: drain_deque.induct)
    case (4 n b ds)
    show ?case
    proof (cases "IsCompleted b")
      case True
      with 4(1) [of bs rest] 4(3,4) IsCompleted_content [of b] show ?thesis by simp
    next
      case False
      obtain bs' rest' where d: "drain_deque n ds = (bs', rest')" by fastforce
      with False 4(3) have "bs = b # bs'" "rest = rest'" by auto
      with 4(2) [OF False d] 4(4) False IsCompleted_content [of b] show ?thesis by simp
    qed
  qed auto
  then show "concat (map content bs) @ pending rest = pending ds" and "queue_ok rest"
    and "length bs \<le> n" and "\<forall>b \<in> set bs. packet_buffer b \<and> content b \<noteq> []"
    and "bs = [] \<Longrightarrow> 0 < n \<Longrightarrow> rest = []" by simp_all
qed

section \<open>Contracts of the service\<close>

text \<open>What Close and the send path need: the callback OnDisconnected.\<close>

locale disconnect_contract =
  fixes disc :: "session \<Rightarrow> 'w \<Rightarrow> (session \<times> 'w) option"
  assumes disc_step: "disc s w = Some (s', w') \<Longrightarrow> session_step s s'"
begin

lemma Close_cases:
  assumes "Close disc s w = Some (s', w')"
  obtains "isClosed s" "s' = s" "w' = w"
  | s2 where "\<not> isClosed s" "session_step (s\<lparr>isClosed := True, sending := False\<rparr>) s2"
      "s' = CloseResource s2"
proof (cases "isClosed s")
  case True
  with assms have "s' = s" "w' = w" by (simp_all add: Close_def)
  with True show ?thesis by (rule that(1))
next
  case False
  let ?s1 = "s\<lparr>isClosed := True, sending := False\<rparr>"
  from False assms have "Option.bind (if hasService s then disc ?s1 w else Some (?s1, w))
      (\<lambda>(s2, w2). Some (CloseResource s2, w2)) = Some (s', w')"
    by (simp add: Close_def Let_def)
  then obtain s2 w2
    where "(if hasService s then disc ?s1 w else Some (?s1, w)) = Some (s2, w2)"
      and "s' = CloseResource s2"
    unfolding bind_eq_Some_conv by auto
  moreover from this have "session_step ?s1 s2"
    by (cases "hasService s") (simp_all add: disc_step)
  ultimately show ?thesis using False that(2) by blast
qed

lemma Close_closed: "Close disc s w = Some (s', w') \<Longrightarrow> isClosed s'"
  by (erule Close_cases) (auto simp: session_step_def)

lemma Close_packets: "Close disc s w = Some (s', w') \<Longrightarrow> packets_in (io s') = packets_in (io s)"
  by (erule Close_cases) (auto simp: session_step_def)

lemma Close_inv:
  assumes "Close disc s w = Some (s', w')" and "session_inv s \<or> send_ready s"
  shows "session_inv s'"
  using assms(1)
proof (cases rule: Close_cases)
  case 1
  with assms(2) show ?thesis by (auto simp: send_ready_def)
next
  case (2 s2)
  with closing_inv [OF assms(2)] show ?thesis
    by (auto simp: session_step_def intro: CloseResource_closed_inv)
qed

text \<open>A session that Close has closed has released its socket and its buffers.\<close>

lemma Close_releases:
  assumes "Close disc s w = Some (s', w')" and "\<not> isClosed s"
  shows "sock s' = INVALID_SOCKET" and "sendDeque s' = []" and "sendContext s' = []"
  using assms by (auto elim: Close_cases)

lemma Close_step: "Close disc s w = Some (s', w') \<Longrightarrow> session_step s s'"
  using Close_closed Close_packets Close_inv by (auto simp: session_step_def)

lemma Close_closes: "Close disc s w = Some (s', w') \<Longrightarrow> session_step s s' \<and> isClosed s'"
  using Close_step Close_closed by blast

lemma ProcessSend_mono:
  assumes "ProcessSend os disc s w = Some (s', w')"
  shows "isClosed s \<longrightarrow> isClosed s'" and "packets_in (io s') = packets_in (io s)"
  using assms Close_closed Close_packets
  by (fastforce simp: ProcessSend_def Let_def split: if_splits prod.splits)+

lemma ProcessSend_inv:
  assumes ready: "send_ready s" and run: "ProcessSend os disc s w = Some (s', w')"
  shows "session_inv s'"
proof -
  obtain bs rest where d: "drain_deque MAX_SEND_BUFFER_COUNT (sendDeque s) = (bs, rest)"
    by fastforce
  have q: "queue_ok (sendDeque s)" using ready by (simp add: send_ready_def)
  note dd = drain_deque_ok [OF d q]
  let ?s1 = "s\<lparr>sendDeque := rest\<rparr>" and ?bufs = "map content bs"
  consider (none) "bs = []" | (refused) "bs \<noteq> []" "\<not> os_WSASend os ?s1 ?bufs"
    | (sent) "bs \<noteq> []" "os_WSASend os ?s1 ?bufs" by blast
  then show ?thesis
  proof cases
    case none
    with run d have "s' = ?s1\<lparr>sending := False\<rparr>" by (simp add: ProcessSend_def)
    with none ready dd show ?thesis
      by (auto simp: session_inv_def send_ready_def MAX_SEND_BUFFER_COUNT_def)
  next
    case refused
    with run d have c: "Close disc ?s1 w = Some (s', w')" by (simp add: ProcessSend_def)
    have "prefix (wire_of (io s)) (submitted_of (io s))"
      using ready by (metis prefixI send_ready_def)
    with c ready dd(2) show ?thesis
      by (cases rule: Close_cases)
         (auto simp: send_ready_def session_inv_def session_step_def)
  next
    case sent
    with run d have "s' = ?s1\<lparr>io := io ?s1 @ [IoSend ?bufs], sendContext := map Some bs\<rparr>"
      by (simp add: ProcessSend_def)
    with sent ready dd show ?thesis
      by (auto simp: session_inv_def send_ready_def flight_ok_def)
  qed
qed

lemma Send_step:
  assumes ok: "queue_ok [x]" and run: "Send os disc x s w = Some (s', w')"
  shows "session_step s s'"
proof (cases "isClosed s")
  case True
  with run show ?thesis by (simp add: Send_def)
next
  case False
  let ?s1 = "s\<lparr>sendDeque := sendDeque s @ [x], io := io s @ [IoSubmit (entry_bytes x)]\<rparr>"
  show ?thesis
  proof (cases "sending s")
    case True
    with False run have "s' = ?s1" by (simp add: Send_def Let_def)
    with True False ok show ?thesis
      by (auto simp: session_step_def session_inv_def simp flip: append_assoc)
  next
    case idle: False
    with False run have p: "ProcessSend os disc (?s1\<lparr>sending := True\<rparr>) w = Some (s', w')"
      by (simp add: Send_def Let_def)
    have "session_inv s \<Longrightarrow> send_ready (?s1\<lparr>sending := True\<rparr>)"
      using idle False ok by (auto simp: session_inv_def send_ready_def)
    with ProcessSend_inv [OF _ p] ProcessSend_mono [OF p] False show ?thesis
      by (auto simp: session_step_def)
  qed
qed

end

section \<open>Buffers built by SendPacket\<close>

lemma MakeSendBuffer_packet:
  assumes "MakeSendBuffer pid msg = Some (Some b)"
  shows "packet_buffer b"
proof -
  let ?t = "unat (total_size msg)" and ?p = "length msg mod 65536"
  have le: "?t \<le> 2048"
    using assms by (auto simp: MakeSendBuffer_def Let_def MAX_PACKET_SIZE_def word_less_nat_alt
        not_less split: if_splits)
  have ge: "4 \<le> ?t"
  proof (rule ccontr)
    assume "\<not> 4 \<le> ?t"
    then have "MakeSendBuffer pid msg = None"
      by (simp add: MakeSendBuffer_def Let_def BaseBuffer_def GetWritePtr_def sizeof_header_def
          MAX_PACKET_SIZE_def word_less_nat_alt)
    with assms show False by simp
  qed
  define k where "k = ?t - 4"
  have t: "?t = 4 + k" "k \<le> 2044" using le ge by (simp_all add: k_def)
  have "?t = (4 + ?p) mod 65536" by (simp add: unat_total_size mod_add_right_eq)
  with ge t(1) add_4_mod_65536 [of ?p] have "?p = k" by simp
  then have "length (SerializeToArray msg (unat (payload_size msg))) \<le> k"
    by (simp add: SerializeToArray_def unat_payload_size)
  from MakeSendBuffer_block [OF t refl this, of pid] assms t this show ?thesis
    by (auto simp: packet_buffer_def)
qed

section \<open>A completed send\<close>

lemma send_completed_loop_full:
  assumes "\<forall>x \<in> set ds. \<exists>b. x = Some b \<and> packet_buffer b \<and> content b \<noteq> []"
    and "n = length (pending ds)"
  shows "send_completed_loop (int n) ds = Some []"
  using assms
proof (induction ds arbitrary: n)
  case Nil
  then show ?case by simp
next
  case (Cons x ds)
  from Cons.prems(1) obtain b where b: "x = Some b" "packet_buffer b" "content b \<noteq> []" by auto
  let ?k = "length (content b)"
  have size: "sint (GetDataSize b) = int ?k" by (rule packet_buffer_size [OF b(2)])
  have "wf_buffer b" using b(2) by (simp add: packet_buffer_def)
  from consume_ok [OF this, of ?k] obtain b'
    where "send_OnSendCompleted (of_int (int ?k)) b = Some b'"
    by (auto simp: consume_def send_OnSendCompleted_def)
  moreover have "send_completed_loop (int (length (pending ds))) ds = Some []"
    using Cons by simp
  ultimately show ?case using Cons.prems(2) b size by simp
qed

text \<open>The number of bytes in flight.\<close>

definition in_flight :: "session \<Rightarrow> nat" where
  "in_flight s = length (pending (sendContext s))"

lemma in_flight_pos: "flight_ok (sendContext s) \<Longrightarrow> sendContext s \<noteq> [] \<Longrightarrow> 0 < in_flight s"
  by (cases "sendContext s") (auto simp: flight_ok_def in_flight_def)

lemma flight_completes:
  "flight_ok (sendContext s) \<Longrightarrow> send_completed_loop (int (in_flight s)) (sendContext s) = Some []"
  by (rule send_completed_loop_full) (auto simp: flight_ok_def in_flight_def)

context disconnect_contract
begin

lemma SendPacket_step: "SendPacket os disc pid msg s w = Some (s', w') \<Longrightarrow> session_step s s'"
  by (cases "MakeSendBuffer pid msg")
     (auto simp: SendPacket_def split: option.splits dest!: MakeSendBuffer_packet
       intro: Send_step [rotated])

end

text \<open>The whole service.\<close>

locale service_contract = disconnect_contract "OnDisconnected svc"
  for svc :: "'w core_service" +
  assumes connected_step: "OnConnected svc s w = Some (s', w') \<Longrightarrow> session_step s s'"
    and recv_step: "OnRecv svc p s w = Some (s', w') \<Longrightarrow> session_step s s'"
    and send_step: "OnSend svc n s w = Some (s', w') \<Longrightarrow> session_step s s'"
    and heartbeat_step: "OnHeartbeat svc s w = Some (s', w') \<Longrightarrow> session_step s s'"
begin

text \<open>A completion that reports every byte in flight loses and repeats nothing.\<close>

lemma OnSendCompleted_inv:
  assumes inv: "session_inv s" and "\<not> isClosed s" and "sending s"
    and run: "OnSendCompleted os svc now (int (in_flight s)) s w = Some (s', w')"
  shows "session_inv s'" and "packets_in (io s') = packets_in (io s)"
proof -
  let ?s0 = "s\<lparr>lastSendTime := now\<rparr>"
  let ?s1 = "?s0\<lparr>sendContext := [], sendDeque := [] @ sendDeque ?s0\<rparr>"
  have ctx: "flight_ok (sendContext s)" "sendContext s \<noteq> []"
    using assms by (auto simp: session_inv_def)
  note in_flight_pos [OF ctx] flight_completes [OF ctx(1)]
  then obtain s2 w2
    where s2: "(if sendDeque s \<noteq> [] then ProcessSend os (OnDisconnected svc) ?s1 w
                else Some (?s1\<lparr>sending := False\<rparr>, w)) = Some (s2, w2)"
      and cb: "OnSend svc (int (in_flight s)) s2 w2 = Some (s', w')"
    using run by (auto simp: OnSendCompleted_def Let_def bind_eq_Some_conv simp del: if_split)
  have "session_inv s2 \<and> packets_in (io s2) = packets_in (io s)"
  proof (cases "sendDeque s = []")
    case True
    with s2 assms show ?thesis by (auto simp: session_inv_def)
  next
    case False
    have "send_ready ?s1" using assms by (auto simp: session_inv_def send_ready_def)
    with False s2 show ?thesis
      using ProcessSend_inv [of ?s1 os w s2 w2] ProcessSend_mono [of os ?s1 w s2 w2] by simp
  qed
  with send_step [OF cb] show "session_inv s'" and "packets_in (io s') = packets_in (io s)"
    by (auto simp: session_step_def)
qed

end

end
