(* ===== verification/Connection.thy ===== *)
theory Connection
  imports Session_Laws
begin

text \<open>
  The life of one connection, from Session::Init on: packets are queued, sends and receives
  complete, heartbeats come, the session is closed. conn_reach relates the bytes received so far
  to the state of the connection; conn_inv is its invariant, proved under the service's contract.
\<close>

section \<open>Reachable connections\<close>

definition new_conn :: "u64 \<Rightarrow> u64 \<Rightarrow> int \<Rightarrow> 'w \<Rightarrow> 'w conn" where
  "new_conn sid skt now w =
     \<lparr>sess = PreInit skt now (Session sid now), recvBuffer = BaseBuffer BUFFER_SIZE, app = w\<rparr>"

text \<open>
  Completions are those of a stream socket: a send completes with all the bytes it was given, a
  receive with some bytes, at most as many as were asked for; it may arrive after the session was
  closed. Rule other is the rest of the server changing the service's state.
\<close>

inductive conn_reach :: "os_calls \<Rightarrow> 'w core_service \<Rightarrow> u8 list \<Rightarrow> 'w conn \<Rightarrow> bool"
  for os svc where
  opened: "Init os svc now skt reg (new_conn sid skt now0 w) = Some (ok, c) \<Longrightarrow>
     conn_reach os svc [] c"
| queued: "conn_reach os svc rx c \<Longrightarrow>
     SendPacket os (OnDisconnected svc) pid msg (sess c) (app c) = Some (s, w) \<Longrightarrow>
     conn_reach os svc rx (c\<lparr>sess := s, app := w\<rparr>)"
| sent: "conn_reach os svc rx c \<Longrightarrow> \<not> isClosed (sess c) \<Longrightarrow> sending (sess c) \<Longrightarrow>
     OnSendCompleted os svc now (int (in_flight (sess c))) (sess c) (app c) = Some (s, w) \<Longrightarrow>
     conn_reach os svc rx (c\<lparr>sess := s, app := w\<rparr>)"
| received: "conn_reach os svc rx c \<Longrightarrow> bs \<noteq> [] \<Longrightarrow>
     length bs \<le> room (recvBuffer c) \<Longrightarrow> receive os svc now bs c = Some c' \<Longrightarrow>
     conn_reach os svc (rx @ bs) c'"
| heartbeat: "conn_reach os svc rx c \<Longrightarrow> OnHeartbeat svc (sess c) (app c) = Some (s, w) \<Longrightarrow>
     conn_reach os svc rx (c\<lparr>sess := s, app := w\<rparr>)"
| closed: "conn_reach os svc rx c \<Longrightarrow> conn_close svc c = Some c' \<Longrightarrow> conn_reach os svc rx c'"
| other: "conn_reach os svc rx c \<Longrightarrow> conn_reach os svc rx (c\<lparr>app := w\<rparr>)"

definition conn_inv :: "u8 list \<Rightarrow> 'w conn \<Rightarrow> bool" where
  "conn_inv rx c \<longleftrightarrow> session_inv (sess c) \<and> wf_buffer (recvBuffer c) \<and>
     bufferSize (recvBuffer c) = BUFFER_SIZE \<and> content (recvBuffer c) = rest_of rx \<and>
     packets_in (io (sess c)) = packets_of rx \<and> (bad_stream rx \<longrightarrow> isClosed (sess c)) \<and>
     (\<not> bad_stream rx \<longrightarrow> 2048 \<le> room (recvBuffer c))"

lemma conn_inv_session_step:
  "conn_inv rx c \<Longrightarrow> session_step (sess c) s \<Longrightarrow> conn_inv rx (c\<lparr>sess := s, app := w\<rparr>)"
  by (auto simp: conn_inv_def session_step_def)

lemma conn_inv_new [simp]: "conn_inv [] (new_conn sid skt now w)"
  by (simp add: conn_inv_def new_conn_def PreInit_def Session_def session_inv_def frames_short
      BUFFER_SIZE_def)

text \<open>With room in the buffer, ProcessRecv posts a receive for it or closes the session.\<close>

lemma ProcessRecv_room:
  "0 < room (recvBuffer c) \<Longrightarrow> ProcessRecv os svc c =
     (let len = GetFreeSize (recvBuffer c) in
      if os_WSARecv os (sess c) len
      then Some (c\<lparr>sess := (sess c)\<lparr>io := io (sess c) @ [IoRecv len]\<rparr>\<rparr>)
      else conn_close svc c)"
  by (auto simp: ProcessRecv_def Let_def recv_GetWSABUF_def unat_gt_0)

lemma session_step_io [simp]:
  "wire_event e = [] \<Longrightarrow> submit_event e = [] \<Longrightarrow> packet_event e = [] \<Longrightarrow>
     session_step s (s\<lparr>io := io s @ [e]\<rparr>)"
  by (simp add: session_step_def session_inv_def)

context service_contract
begin

lemma conn_close_inv:
  assumes "conn_close svc c = Some c'"
  shows "\<exists>s w. c' = c\<lparr>sess := s, app := w\<rparr> \<and> session_step (sess c) s \<and> isClosed s"
  using assms Close_step Close_closed
  by (fastforce simp: conn_close_def bind_eq_Some_conv)

lemma ProcessRecv_step:
  assumes "ProcessRecv os svc c = Some c'" and "0 < room (recvBuffer c)"
  shows "\<exists>s w. c' = c\<lparr>sess := s, app := w\<rparr> \<and> session_step (sess c) s"
proof (cases "os_WSARecv os (sess c) (GetFreeSize (recvBuffer c))")
  case True
  with assms have "c' = c\<lparr>sess := (sess c)\<lparr>io := io (sess c) @ [IoRecv (GetFreeSize (recvBuffer c))]\<rparr>\<rparr>"
    by (simp add: ProcessRecv_room Let_def)
  then show ?thesis
    by (intro exI [of _ "sess c'"] exI [of _ "app c"]) simp
next
  case False
  with assms have "conn_close svc c = Some c'" by (simp add: ProcessRecv_room Let_def)
  from conn_close_inv [OF this] show ?thesis by blast
qed

lemma deliver_inv:
  assumes "deliver svc ps s w = Some (s', w')"
  shows "session_inv s \<longrightarrow> session_inv s'" and "isClosed s \<longrightarrow> isClosed s'"
    and "packets_in (io s') = packets_in (io s) @ ps"
proof -
  have "(session_inv s \<longrightarrow> session_inv s') \<and> (isClosed s \<longrightarrow> isClosed s') \<and>
      packets_in (io s') = packets_in (io s) @ ps"
    using assms
  proof (induction ps arbitrary: s w)
    case Nil
    then show ?case by simp
  next
    case (Cons p ps)
    let ?s = "s\<lparr>io := io s @ [IoPacket p]\<rparr>"
    from Cons.prems obtain s1 w1
      where 1: "OnRecv svc p ?s w = Some (s1, w1)" "deliver svc ps s1 w1 = Some (s', w')"
      by (auto simp: bind_eq_Some_conv)
    have "session_inv s \<longrightarrow> session_inv ?s" by (simp add: session_inv_def)
    with recv_step [OF 1(1)] Cons.IH [OF 1(2)] show ?case by (auto simp: session_step_def)
  qed
  then show "session_inv s \<longrightarrow> session_inv s'" and "isClosed s \<longrightarrow> isClosed s'"
    and "packets_in (io s') = packets_in (io s) @ ps" by simp_all
qed

lemma receive_inv:
  assumes inv: "conn_inv rx c" and ne: "bs \<noteq> []"
    and fits: "length bs \<le> room (recvBuffer c)" and run: "receive os svc now bs c = Some c'"
  shows "conn_inv (rx @ bs) c'"
proof -
  let ?ct = "rest_of rx @ bs"
  have wf: "wf_buffer (recvBuffer c)" and ct: "content (recvBuffer c) @ bs = ?ct"
    using inv by (auto simp: conn_inv_def)
  from receive_spec [OF wf fits ne ct, of os svc now] obtain rb' where rb':
    "wf_buffer rb'" "content rb' = rest_of ?ct" "bufferSize rb' = bufferSize (recvBuffer c)"
    and eq: "receive os svc now bs c = do {
      (s1, w1) \<leftarrow> deliver svc (packets_of ?ct) ((sess c)\<lparr>lastRecvTime := now\<rparr>) (app c);
      let c1 = c\<lparr>sess := s1, app := w1, recvBuffer := rb'\<rparr>;
      (if bad_stream ?ct then conn_close svc c1
       else ProcessRecv os svc (c1\<lparr>recvBuffer := Compact rb'\<rparr>)) }"
    by auto
  with run obtain s1 w1 where d: "deliver svc (packets_of ?ct)
      ((sess c)\<lparr>lastRecvTime := now\<rparr>) (app c) = Some (s1, w1)"
    and rest: "(let c1 = c\<lparr>sess := s1, app := w1, recvBuffer := rb'\<rparr> in
      (if bad_stream ?ct then conn_close svc c1
       else ProcessRecv os svc (c1\<lparr>recvBuffer := Compact rb'\<rparr>))) = Some c'"
    by (auto simp: bind_eq_Some_conv)
  have fr: "frames (rx @ bs) = (packets_of rx @ packets_of ?ct, rest_of ?ct, bad_stream ?ct)"
    by (rule frames_resume)
  have "session_inv ((sess c)\<lparr>lastRecvTime := now\<rparr>)"
    using inv by (simp add: conn_inv_def session_inv_def)
  with deliver_inv [OF d] inv
  have s1: "session_inv s1" "packets_in (io s1) = packets_of rx @ packets_of ?ct"
    by (auto simp: conn_inv_def)
  have size: "bufferSize rb' = BUFFER_SIZE" using inv rb'(3) by (simp add: conn_inv_def)
  show ?thesis
  proof (cases "bad_stream ?ct")
    case True
    let ?c1 = "c\<lparr>sess := s1, app := w1, recvBuffer := rb'\<rparr>"
    from True rest have "conn_close svc ?c1 = Some c'" by simp
    from conn_close_inv [OF this] obtain s w
      where "c' = ?c1\<lparr>sess := s, app := w\<rparr>" "session_step s1 s" "isClosed s" by auto
    with s1 rb' size fr True show ?thesis by (auto simp: conn_inv_def session_step_def)
  next
    case False
    let ?c1 = "c\<lparr>sess := s1, app := w1, recvBuffer := Compact rb'\<rparr>"
    have "length (content rb') < 2048" using rest_of_short [OF False] rb'(2) by simp
    then have "length (content rb') + 2048 \<le> unat (bufferSize rb')"
      by (simp add: size BUFFER_SIZE_def)
    from Compact_room [OF rb'(1) this] have room: "2048 \<le> room (Compact rb')" .
    from False rest have "ProcessRecv os svc ?c1 = Some c'" by simp
    from ProcessRecv_step [OF this] room obtain s w
      where "c' = ?c1\<lparr>sess := s, app := w\<rparr>" "session_step s1 s" by auto
    with s1 rb' size fr False room show ?thesis
      by (auto simp: conn_inv_def session_step_def Compact_wf Compact_content)
  qed
qed

lemma Init_opens:
  assumes "Init os svc now skt reg c = Some (ok, c')" and "conn_inv [] c"
  shows "conn_inv [] c'"
proof -
  let ?s = "(sess c)\<lparr>sock := skt, lastRecvTime := now, lastSendTime := now, connectedTime := now\<rparr>"
  let ?s1 = "if reg then ?s\<lparr>io := io ?s @ [IoRegister skt]\<rparr> else ?s"
  let ?c1 = "c\<lparr>sess := ?s1\<rparr>"
  have "session_step (sess c) ?s1" by (auto simp: session_step_def session_inv_def)
  from conn_inv_session_step [OF assms(2) this, of "app c"] have i1: "conn_inv [] ?c1" by simp
  show ?thesis
  proof (cases "os_getpeername os ?s1")
    case False
    with assms i1 show ?thesis by (simp add: Init_def Let_def)
  next
    case True
    with assms obtain c2 s w' where c2: "ProcessRecv os svc ?c1 = Some c2"
      and cb: "OnConnected svc (sess c2) (app c2) = Some (s, w')"
      and c: "c' = c2\<lparr>sess := s, app := w'\<rparr>"
      by (auto simp: Init_def Let_def bind_eq_Some_conv split: if_splits)
    have "0 < room (recvBuffer ?c1)" using i1 by (simp add: conn_inv_def frames_short)
    from ProcessRecv_step [OF c2 this] obtain s2 w2
      where c2': "c2 = ?c1\<lparr>sess := s2, app := w2\<rparr>" and step: "session_step (sess ?c1) s2" by blast
    have i2: "conn_inv [] c2" unfolding c2' by (rule conn_inv_session_step [OF i1 step])
    show ?thesis unfolding c by (rule conn_inv_session_step [OF i2 connected_step [OF cb]])
  qed
qed

lemma opened_inv: "Init os svc now skt reg (new_conn sid skt now0 w) = Some (ok, c) \<Longrightarrow> conn_inv [] c"
  by (rule Init_opens [OF _ conn_inv_new])

theorem conn_reach_inv: "conn_reach os svc rx c \<Longrightarrow> conn_inv rx c"
proof (induction rule: conn_reach.induct)
  case (opened now skt reg sid now0 w ok c)
  then show ?case by (rule opened_inv)
next
  case (queued rx c pid msg s w)
  then show ?case by (blast intro: conn_inv_session_step SendPacket_step)
next
  case (sent rx c now s w)
  then have "session_inv (sess c)" by (simp add: conn_inv_def)
  with sent OnSendCompleted_inv have "session_inv s" "packets_in (io s) = packets_in (io (sess c))"
    by blast+
  with sent show ?case by (auto simp: conn_inv_def)
next
  case (received rx c bs now c')
  then show ?case by (blast intro: receive_inv)
next
  case (heartbeat rx c s w)
  then show ?case by (blast intro: conn_inv_session_step heartbeat_step)
next
  case (closed rx c c')
  then show ?case using conn_close_inv by (blast intro: conn_inv_session_step)
next
  case (other rx c w)
  then show ?case by (simp add: conn_inv_def)
qed

end

end
