(* ===== verification/Session_Progress.thy ===== *)
theory Session_Progress
  imports Session_Laws
begin

text \<open>
  That a session gets somewhere: no operation of the send path crashes when OnDisconnected does
  not, and a session whose sends are accepted and completed drains its queue. The locale
  quiet_service is what both services of the repository promise beyond service_contract: OnSend
  does nothing.
\<close>

section \<open>Operations that do not crash\<close>

text \<open>A send buffer that is built or dropped: every length outside 65532..65535 modulo 65536.\<close>

lemma MakeSendBuffer_total:
  assumes "length msg mod 65536 < 65532"
  shows "MakeSendBuffer pid msg \<noteq> None"
proof (cases "length msg mod 65536 \<le> 2044")
  case True
  show ?thesis
  proof (cases "length msg < 65536")
    case False
    then show ?thesis using MakeSendBuffer_truncated [OF _ refl True, of pid] by auto
  qed (use True MakeSendBuffer_ok [of msg pid] in auto)
next
  case False
  have "(4 + length msg) mod 65536 = (4 + length msg mod 65536) mod 65536"
    by (simp add: mod_add_right_eq)
  also have "\<dots> = 4 + length msg mod 65536" using assms by simp
  finally show ?thesis using False by (simp add: MakeSendBuffer_dropped)
qed

locale total_disconnect = disconnect_contract disc
  for disc :: "session \<Rightarrow> 'w \<Rightarrow> (session \<times> 'w) option" +
  assumes disc_total: "\<exists>r. disc s w = Some r"
begin

lemma Close_total: "\<exists>r. Close disc s w = Some r"
  using disc_total [of "s\<lparr>isClosed := True, sending := False\<rparr>" w]
  by (auto simp: Close_def Let_def)

lemma ProcessSend_total: "\<exists>r. ProcessSend os disc s w = Some r"
  using Close_total by (auto simp: ProcessSend_def Let_def split: prod.split)

lemma Send_total: "\<exists>r. Send os disc x s w = Some r"
  using ProcessSend_total by (auto simp: Send_def Let_def)

lemma SendPacket_total: "MakeSendBuffer pid msg \<noteq> None \<Longrightarrow> \<exists>r. SendPacket os disc pid msg s w = Some r"
  using Send_total by (auto simp: SendPacket_def split: option.split)

lemma SendPacket_small: "length msg mod 65536 < 65532 \<Longrightarrow> \<exists>r. SendPacket os disc pid msg s w = Some r"
  by (rule SendPacket_total [OF MakeSendBuffer_total])

end

section \<open>Sending a packet on an open session\<close>

text \<open>
  An idle session puts the packet on the wire at once, a busy one queues it. Neither touches the
  service.
\<close>

lemma Send_busy:
  "\<not> isClosed s \<Longrightarrow> sending s \<Longrightarrow> Send os disc (Some b) s w =
     Some (s\<lparr>sendDeque := sendDeque s @ [Some b], io := io s @ [IoSubmit (content b)]\<rparr>, w)"
  by (simp add: Send_def Let_def)

lemma Send_idle:
  assumes "\<not> isClosed s" and "\<not> sending s" and "sendDeque s = []" and "\<not> IsCompleted b"
    and "\<And>s bufs. os_WSASend os s bufs"
  shows "Send os disc (Some b) s w =
     Some (s\<lparr>sending := True, sendContext := [Some b],
             io := io s @ [IoSubmit (content b), IoSend [content b]]\<rparr>, w)"
  using assms by (simp add: Send_def ProcessSend_def Let_def MAX_SEND_BUFFER_COUNT_def eval_nat_numeral)

lemma SendPacket_accepted:
  assumes inv: "session_inv s" and open_: "\<not> isClosed s" and small: "length msg \<le> 2044"
    and accept: "\<And>s bufs. os_WSASend os s bufs"
  shows "\<exists>s'. SendPacket os disc pid msg s w = Some (s', w) \<and> sending s' \<and> \<not> isClosed s' \<and>
     submitted_of (io s') = submitted_of (io s) @ encode pid msg \<and>
     wire_of (io s') = wire_of (io s) @ (if sending s then [] else encode pid msg)"
proof -
  from MakeSendBuffer_ok [OF small, of pid] obtain b where b: "MakeSendBuffer pid msg = Some (Some b)"
    "wf_buffer b" "content b = encode pid msg" by blast
  then have "packet_buffer b" using small by (simp add: packet_buffer_def)
  with b(3) have "\<not> IsCompleted b" by (simp add: IsCompleted_content encode_def header_bytes_def u16_bytes_def)
  moreover have "\<not> sending s \<Longrightarrow> sendDeque s = []" using inv open_ by (simp add: session_inv_def)
  ultimately show ?thesis
    using b open_ accept by (cases "sending s") (simp_all add: SendPacket_def Send_busy Send_idle)
qed

section \<open>Draining the queue\<close>

text \<open>Up to n times: the send in flight completes with all its bytes.\<close>

fun complete_sends ::
  "os_calls \<Rightarrow> 'w core_service \<Rightarrow> int \<Rightarrow> nat \<Rightarrow> session \<Rightarrow> 'w \<Rightarrow> (session \<times> 'w) option" where
  "complete_sends os svc now 0 s w = Some (s, w)"
| "complete_sends os svc now (Suc n) s w =
     (if sending s then do {
        (s1, w1) \<leftarrow> OnSendCompleted os svc now (int (in_flight s)) s w;
        complete_sends os svc now n s1 w1 }
      else Some (s, w))"

lemma complete_sends_idle: "\<not> sending s \<Longrightarrow> complete_sends os svc now n s w = Some (s, w)"
  by (cases n) simp_all

text \<open>A pass of ProcessSend shortens a queue that is not empty.\<close>

lemma drain_deque_length:
  "drain_deque n ds = (bs, rest) \<Longrightarrow> length rest \<le> length ds"
  by (induction n ds arbitrary: bs rest rule: drain_deque.induct)
     (auto split: if_splits prod.splits intro: le_SucI)

lemma drain_deque_shorter:
  "drain_deque n ds = (bs, rest) \<Longrightarrow> bs \<noteq> [] \<Longrightarrow> length rest < length ds"
proof (induction n ds arbitrary: bs rest rule: drain_deque.induct)
  case (4 n b ds)
  then show ?case
    by (auto split: if_splits prod.splits dest: drain_deque_length intro: less_SucI le_imp_less_Suc)
qed (auto intro: less_SucI)

locale quiet_service = service_contract svc for svc :: "'w core_service" +
  assumes OnSend_quiet: "OnSend svc n s w = Some (s, w)"
begin

text \<open>
  One completion: the queue gets shorter or the session idle, nothing is submitted, and the
  service's state is untouched.
\<close>

lemma OnSendCompleted_accepted:
  assumes inv: "session_inv s" and open_: "\<not> isClosed s" and busy: "sending s"
    and accept: "\<And>s bufs. os_WSASend os s bufs"
  shows "\<exists>s'. OnSendCompleted os svc now (int (in_flight s)) s w = Some (s', w) \<and>
    \<not> isClosed s' \<and> submitted_of (io s') = submitted_of (io s) \<and>
    (sending s' \<longrightarrow> length (sendDeque s') < length (sendDeque s))"
proof -
  let ?s1 = "s\<lparr>lastSendTime := now, sendContext := []\<rparr>"
  have ctx: "flight_ok (sendContext s)" "sendContext s \<noteq> []"
    using assms by (auto simp: session_inv_def)
  note ne = in_flight_pos [OF ctx] and loop = flight_completes [OF ctx(1)]
  obtain bs rest where d: "drain_deque MAX_SEND_BUFFER_COUNT (sendDeque s) = (bs, rest)"
    by fastforce
  show ?thesis
  proof (cases "sendDeque s = [] \<or> bs = []")
    case True
    then have "OnSendCompleted os svc now (int (in_flight s)) s w =
        Some (?s1\<lparr>sendDeque := (if sendDeque s = [] then [] else rest), sending := False\<rparr>, w)"
      using ne loop d by (auto simp: OnSendCompleted_def Let_def ProcessSend_def OnSend_quiet)
    with open_ show ?thesis by simp
  next
    case False
    let ?bufs = "map send_GetWSABUF bs"
    have "OnSendCompleted os svc now (int (in_flight s)) s w =
        Some (?s1\<lparr>sendDeque := rest, io := io s @ [IoSend ?bufs], sendContext := map Some bs\<rparr>, w)"
      using False ne loop d accept
      by (auto simp: OnSendCompleted_def Let_def ProcessSend_def OnSend_quiet)
    with open_ drain_deque_shorter [OF d] False show ?thesis by simp
  qed
qed

lemma complete_sends_drain:
  assumes "session_inv s" and "\<not> isClosed s" and "length (sendDeque s) < n"
    and accept: "\<And>s bufs. os_WSASend os s bufs"
  shows "\<exists>s'. complete_sends os svc now n s w = Some (s', w) \<and> \<not> isClosed s' \<and> \<not> sending s' \<and>
    session_inv s' \<and> submitted_of (io s') = submitted_of (io s)"
  using assms(1-3)
proof (induction n arbitrary: s)
  case (Suc n)
  show ?case
  proof (cases "sending s")
    case True
    from OnSendCompleted_accepted [OF Suc.prems(1,2) True accept] obtain s1 where
      s1: "OnSendCompleted os svc now (int (in_flight s)) s w = Some (s1, w)" "\<not> isClosed s1"
        "submitted_of (io s1) = submitted_of (io s)"
        "sending s1 \<longrightarrow> length (sendDeque s1) < length (sendDeque s)" by blast
    have inv: "session_inv s1" by (rule OnSendCompleted_inv(1) [OF Suc.prems(1,2) True s1(1)])
    show ?thesis
    proof (cases "sending s1")
      case True
      with s1 Suc.prems have "length (sendDeque s1) < n" by simp
      with Suc.IH [OF inv s1(2)] s1 \<open>sending s\<close> show ?thesis by simp
    qed (use s1 inv \<open>sending s\<close> in \<open>simp add: complete_sends_idle\<close>)
  qed (use Suc.prems in simp)
qed simp

end

end
