(* ===== verification/Game_Client.thy ===== *)
theory Game_Client
  imports Connection Session_Progress
begin

text \<open>
  The packet table of PacketHandler.cpp and the template of PacketHandler.h (the same code in
  DummyClient/Packet and GameServer/Packet), and the service of the dummy client:
  DummyClient/GameClient.cpp with its packet handlers. The client's service meets the contract of
  Session_Laws.
\<close>

section \<open>The packet table\<close>

text \<open>
  A handler gets the packet, its length as uint16, the session and the service's state. The table
  is an array of UINT16_MAX functions, empty ones at first; calling an empty one throws, and
  nothing catches the exception.
\<close>

type_synonym 'w handler = "u8 list \<Rightarrow> u16 \<Rightarrow> session \<Rightarrow> 'w \<Rightarrow> (session \<times> 'w) option"
type_synonym 'w handlers = "u16 \<Rightarrow> 'w handler option"

definition no_handlers :: "'w handlers" where
  "no_handlers = (\<lambda>_. None)"

definition UINT16_MAX :: nat where
  "UINT16_MAX = 65535"

definition HandlePacket :: "'w handlers \<Rightarrow> 'w handler" where
  "HandlePacket tbl buf len s w =
     (case read_header buf of
        None \<Rightarrow> None
      | Some header \<Rightarrow>
          if UINT16_MAX \<le> unat (hdr_id header) then None
          else (case tbl (hdr_id header) of None \<Rightarrow> None | Some f \<Rightarrow> f buf len s w))"

text \<open>
  The template: parse the payload (protobuf's ParseFromArray is a parameter: whether it succeeds,
  and the message it leaves behind in either case), log a failure, run the function anyway.
\<close>

definition HandlePacketAs ::
  "(u8 list \<Rightarrow> bool \<times> 'm) \<Rightarrow> (u16 \<Rightarrow> 'w \<Rightarrow> 'w) \<Rightarrow> (session \<Rightarrow> 'm \<Rightarrow> 'w \<Rightarrow> (session \<times> 'w) option) \<Rightarrow>
     'w handler" where
  "HandlePacketAs parse logError func buf len s w =
     (let payloadSize = len - of_nat sizeof_header;
          (ok, packet) = parse (take (unat payloadSize) (drop sizeof_header buf));
          w1 = (if \<not> ok then logError len w else w) in
      func s packet w1)"

definition RegisterPacket ::
  "(u8 list \<Rightarrow> bool \<times> 'm) \<Rightarrow> (u16 \<Rightarrow> 'w \<Rightarrow> 'w) \<Rightarrow> packet_id \<Rightarrow>
     (session \<Rightarrow> 'm \<Rightarrow> 'w \<Rightarrow> (session \<times> 'w) option) \<Rightarrow> 'w handlers \<Rightarrow> 'w handlers" where
  "RegisterPacket parse logError packetId handle tbl =
     tbl(packet_num packetId \<mapsto> HandlePacketAs parse logError handle)"

text \<open>The ids HandlePacket has a function for.\<close>

definition registered :: "'w handlers \<Rightarrow> u16 \<Rightarrow> bool" where
  "registered tbl pid \<longleftrightarrow> unat pid < UINT16_MAX \<and> tbl pid \<noteq> None"

lemma HandlePacket_unregistered:
  "read_header buf = Some h \<Longrightarrow> \<not> registered tbl (hdr_id h) \<Longrightarrow> HandlePacket tbl buf len s w = None"
  by (auto simp: HandlePacket_def registered_def)

lemma HandlePacket_registered:
  "read_header buf = Some h \<Longrightarrow> unat (hdr_id h) < UINT16_MAX \<Longrightarrow> tbl (hdr_id h) = Some f \<Longrightarrow>
     HandlePacket tbl buf len s w = f buf len s w"
  by (simp add: HandlePacket_def)

text \<open>Dispatch keeps whatever every function of the table keeps.\<close>

lemma HandlePacket_cases:
  assumes "HandlePacket tbl buf len s w = Some r"
  obtains pid f where "tbl pid = Some f" "f buf len s w = Some r"
  using assms by (auto simp: HandlePacket_def split: option.splits if_splits)

section \<open>The dummy client\<close>

text \<open>
  The messages the client sends and reads are protobuf's: their bytes are parameters. pos and name
  stand for the position and the player name of the packet that starts a dummy.
\<close>

record ('p, 'n) client_messages =
  ser_enter_game :: "u8 list"
  ser_pong :: "int \<Rightarrow> u8 list"
  parse_ok :: "packet_id \<Rightarrow> u8 list \<Rightarrow> bool"
  parse_enter_game :: "u8 list \<Rightarrow> 'p \<times> 'n"

datatype client_log = ServerConnect u64 | ClientDisconnected u64 | ParseFailed u16

text \<open>Started dummies: the session, where to start and the name to chat under.\<close>

record ('p, 'n) client_state =
  clock_ms :: int
  client_logs :: "client_log list"
  dummies :: "(u64 \<times> 'p \<times> 'n) list"

type_synonym ('p, 'n) client_call =
  "session \<Rightarrow> ('p, 'n) client_state \<Rightarrow> (session \<times> ('p, 'n) client_state) option"

definition client_log :: "client_log \<Rightarrow> ('p, 'n) client_state \<Rightarrow> ('p, 'n) client_state" where
  "client_log e w = w\<lparr>client_logs := client_logs w @ [e]\<rparr>"

definition client_OnDisconnected :: "('p, 'n) client_call" where
  "client_OnDisconnected s w = Some (s, client_log (ClientDisconnected (sessionID s)) w)"

definition client_OnConnected ::
  "os_calls \<Rightarrow> ('p, 'n) client_messages \<Rightarrow> ('p, 'n) client_call" where
  "client_OnConnected os m s w =
     SendPacket os client_OnDisconnected CS_PLAYER_ENTER_GAME (ser_enter_game m) s
       (client_log (ServerConnect (sessionID s)) w)"

definition Handle_SC_SYSTEM_PING ::
  "os_calls \<Rightarrow> ('p, 'n) client_messages \<Rightarrow> session \<Rightarrow> unit \<Rightarrow> ('p, 'n) client_state \<Rightarrow>
     (session \<times> ('p, 'n) client_state) option" where
  "Handle_SC_SYSTEM_PING os m s packet w =
     SendPacket os client_OnDisconnected CS_SYSTEM_PONG (ser_pong m (clock_ms w)) s w"

definition Handle_SC_PLAYER_ENTER_GAME ::
  "session \<Rightarrow> 'p \<times> 'n \<Rightarrow> ('p, 'n) client_state \<Rightarrow> (session \<times> ('p, 'n) client_state) option" where
  "Handle_SC_PLAYER_ENTER_GAME s packet w =
     Some (s, w\<lparr>dummies := dummies w @ [(sessionID s, packet)]\<rparr>)"

text \<open>The handlers of SC_PLAYER_MOVE, SC_OBJECT_SPAWN, SC_OBJECT_DESPAWN and SC_CHAT_MSG.\<close>

definition Handle_nothing ::
  "session \<Rightarrow> unit \<Rightarrow> ('p, 'n) client_state \<Rightarrow> (session \<times> ('p, 'n) client_state) option" where
  "Handle_nothing s packet w = Some (s, w)"

definition client_handlers ::
  "os_calls \<Rightarrow> ('p, 'n) client_messages \<Rightarrow> ('p, 'n) client_state handlers" where
  "client_handlers os m =
     (let logError = \<lambda>len. client_log (ParseFailed len);
          parse = \<lambda>pid bs. (parse_ok m pid bs, ());
          parseEnter = \<lambda>bs. (parse_ok m SC_PLAYER_ENTER_GAME bs, parse_enter_game m bs);
          t1 = RegisterPacket (parse SC_SYSTEM_PING) logError SC_SYSTEM_PING
                 (Handle_SC_SYSTEM_PING os m) no_handlers;
          t2 = RegisterPacket parseEnter logError SC_PLAYER_ENTER_GAME Handle_SC_PLAYER_ENTER_GAME t1;
          t3 = RegisterPacket (parse SC_PLAYER_MOVE) logError SC_PLAYER_MOVE Handle_nothing t2;
          t4 = RegisterPacket (parse SC_OBJECT_SPAWN) logError SC_OBJECT_SPAWN Handle_nothing t3;
          t5 = RegisterPacket (parse SC_OBJECT_DESPAWN) logError SC_OBJECT_DESPAWN Handle_nothing t4
      in RegisterPacket (parse SC_CHAT_MSG) logError SC_CHAT_MSG Handle_nothing t5)"

definition client_OnRecv ::
  "os_calls \<Rightarrow> ('p, 'n) client_messages \<Rightarrow> u8 list \<Rightarrow> ('p, 'n) client_call" where
  "client_OnRecv os m buf s w = HandlePacket (client_handlers os m) buf (of_nat (length buf)) s w"

definition client_OnSend :: "int \<Rightarrow> ('p, 'n) client_call" where
  "client_OnSend len s w = Some (s, w)"

definition client_OnHeartbeat :: "('p, 'n) client_call" where
  "client_OnHeartbeat s w = Some (s, w)"

definition client_service ::
  "os_calls \<Rightarrow> ('p, 'n) client_messages \<Rightarrow> ('p, 'n) client_state core_service" where
  "client_service os m = \<lparr>OnConnected = client_OnConnected os m,
     OnDisconnected = client_OnDisconnected, OnRecv = client_OnRecv os m,
     OnSend = client_OnSend, OnHeartbeat = client_OnHeartbeat\<rparr>"

section \<open>The client's service meets the contract\<close>

interpretation gc_disc: total_disconnect client_OnDisconnected
  by unfold_locales (simp_all add: client_OnDisconnected_def)

lemmas client_defs = client_OnConnected_def client_OnSend_def client_OnHeartbeat_def
  Handle_SC_SYSTEM_PING_def Handle_SC_PLAYER_ENTER_GAME_def Handle_nothing_def

text \<open>Any function registered in the client's table keeps the contract.\<close>

lemma client_handlers_step:
  assumes "client_handlers os m pid = Some f" and "f buf len s w = Some (s', w')"
  shows "session_step s s'"
  using assms
  by (auto simp: client_handlers_def RegisterPacket_def HandlePacketAs_def no_handlers_def Let_def
      client_defs split: if_splits intro: gc_disc.SendPacket_step)

interpretation gc: quiet_service "client_service os m"
proof unfold_locales
  fix s w s' w' p n
  show "OnDisconnected (client_service os m) s w = Some (s', w') \<Longrightarrow> session_step s s'"
    by (simp add: client_service_def gc_disc.disc_step)
  show "OnConnected (client_service os m) s w = Some (s', w') \<Longrightarrow> session_step s s'"
    by (auto simp: client_service_def client_defs intro: gc_disc.SendPacket_step)
  show "OnRecv (client_service os m) p s w = Some (s', w') \<Longrightarrow> session_step s s'"
    by (auto simp: client_service_def client_OnRecv_def elim!: HandlePacket_cases
        intro: client_handlers_step)
  show "OnSend (client_service os m) n s w = Some (s', w') \<Longrightarrow> session_step s s'"
    by (simp add: client_service_def client_defs)
  show "OnHeartbeat (client_service os m) s w = Some (s', w') \<Longrightarrow> session_step s s'"
    by (simp add: client_service_def client_defs)
  show "OnSend (client_service os m) n s w = Some (s, w)"
    by (simp add: client_service_def client_defs)
qed

section \<open>When the client crashes\<close>

lemma client_handlers_dom: "client_handlers os m pid \<noteq> None \<longleftrightarrow> unat pid \<le> 5"
proof -
  have "unat pid \<le> 5 \<longleftrightarrow> pid \<in> {0, 1, 2, 3, 4, 5}"
    by (auto simp: word_unat_eq_iff)
  then show ?thesis
    by (auto simp: client_handlers_def RegisterPacket_def no_handlers_def Let_def)
qed

lemma client_registered: "registered (client_handlers os m) pid \<longleftrightarrow> unat pid \<le> 5"
  using client_handlers_dom [of os m pid] by (auto simp: registered_def UINT16_MAX_def)

lemma client_handlers_total:
  assumes "client_handlers os m pid = Some f" and "\<forall>t. length (ser_pong m t) mod 65536 < 65532"
  shows "\<exists>r. f buf len s w = Some r"
  using assms
  by (auto simp: client_handlers_def RegisterPacket_def HandlePacketAs_def no_handlers_def Let_def
      client_defs simp del: split_paired_Ex split: if_splits
      intro!: gc_disc.SendPacket_small)

text \<open>A packet the client has a handler for.\<close>

definition client_knows :: "u8 list \<Rightarrow> bool" where
  "client_knows p \<longleftrightarrow> (case read_header p of None \<Rightarrow> False | Some h \<Rightarrow> unat (hdr_id h) \<le> 5)"

lemma client_OnRecv_None:
  assumes "\<forall>t. length (ser_pong m t) mod 65536 < 65532"
  shows "client_OnRecv os m p s w = None \<longleftrightarrow> \<not> client_knows p"
proof (cases "read_header p")
  case (Some h)
  show ?thesis
  proof (cases "unat (hdr_id h) \<le> 5")
    case True
    then obtain f where f: "client_handlers os m (hdr_id h) = Some f"
      using client_handlers_dom by blast
    with True Some client_handlers_total [OF f assms] show ?thesis
      by (auto simp: client_OnRecv_def client_knows_def HandlePacket_def UINT16_MAX_def)
  next
    case False
    with Some client_registered [of os m "hdr_id h"] show ?thesis
      by (auto simp: client_OnRecv_def client_knows_def HandlePacket_unregistered)
  qed
qed (simp add: client_OnRecv_def client_knows_def HandlePacket_def del: read_header_None)

end
