(* ===== verification/Session_Properties.thy ===== *)
theory Session_Properties
  imports Game_Client
begin

text \<open>
  The properties of the network layer: framing, the send path, closing, dispatch. They are stated
  for any service that keeps service_contract, for the dummy client, or for a session alone; the
  witnesses run the client's service.
\<close>

section \<open>A connection of the client, for the witnesses\<close>

definition demo_os :: os_calls where
  "demo_os = \<lparr>os_WSARecv = \<lambda>_ _. True, os_WSASend = \<lambda>_ _. True, os_getpeername = \<lambda>_. True\<rparr>"

definition demo_messages :: "(unit, unit) client_messages" where
  "demo_messages = \<lparr>ser_enter_game = [1], ser_pong = \<lambda>t. [2], parse_ok = \<lambda>_ _. True,
     parse_enter_game = \<lambda>_. ((), ())\<rparr>"

definition demo_client :: "(unit, unit) client_state core_service" where
  "demo_client = client_service demo_os demo_messages"

definition demo_state :: "(unit, unit) client_state" where
  "demo_state = \<lparr>clock_ms = 0, client_logs = [], dummies = []\<rparr>"

lemma demo_contract: "service_contract demo_client"
  unfolding demo_client_def by (rule gc.service_contract_axioms)

lemma demo_accepts [simp]: "os_WSARecv demo_os s n" "os_WSASend demo_os s bufs" "os_getpeername demo_os s"
  by (simp_all add: demo_os_def)

lemma demo_opened:
  "\<exists>c. Init demo_os demo_client 0 5 True (new_conn 1 5 0 demo_state) = Some (True, c) \<and>
     \<not> isClosed (sess c) \<and> sending (sess c) \<and>
     submitted_of (io (sess c)) = encode CS_PLAYER_ENTER_GAME [1]"
proof -
  let ?c = "new_conn 1 5 0 demo_state"
  let ?s = "(sess ?c)\<lparr>sock := 5, lastRecvTime := 0, lastSendTime := 0, connectedTime := 0,
    io := io (sess ?c) @ [IoRegister 5]\<rparr>"
  have inv: "conn_inv [] ?c" by simp
  then have "0 < room (recvBuffer ?c)" by (simp add: conn_inv_def frames_short)
  then have 1: "ProcessRecv demo_os demo_client (?c\<lparr>sess := ?s\<rparr>) =
      Some (?c\<lparr>sess := ?s\<lparr>io := io ?s @ [IoRecv (GetFreeSize (recvBuffer ?c))]\<rparr>\<rparr>)"
    (is "_ = Some ?c2") by (simp add: ProcessRecv_room Let_def)
  have "session_inv (sess ?c2)" and "\<not> isClosed (sess ?c2)" and "submitted_of (io (sess ?c2)) = []"
    by (simp_all add: session_inv_def new_conn_def PreInit_def Session_def)
  from SendPacket_accepted [OF this(1,2), of "[1]" demo_os client_OnDisconnected
      CS_PLAYER_ENTER_GAME "client_log (ServerConnect (sessionID (sess ?c2))) (app ?c2)"] this(3)
  obtain s w where 2: "OnConnected demo_client (sess ?c2) (app ?c2) = Some (s, w)"
    and "sending s" "\<not> isClosed s" "submitted_of (io s) = encode CS_PLAYER_ENTER_GAME [1]"
    by (auto simp: demo_client_def client_service_def client_OnConnected_def demo_messages_def)
  with 1 show ?thesis by (simp add: Init_def Let_def)
qed

section \<open>Lemmas\<close>

text \<open>Every packet that is cut off has a header, which gives its length.\<close>

lemma packets_of_header:
  "p \<in> set (packets_of bs) \<Longrightarrow>
     \<exists>h. read_header p = Some h \<and> unat (hdr_size h) = length p \<and> \<not> bad_size (hdr_size h)"
proof (induction bs rule: frames.induct)
  case (1 bs)
  show ?case
  proof (cases bs rule: stream_cases)
    case (packet h)
    with 1 show ?thesis by (auto simp: frames_step bad_size_iff min_def)
  qed (use 1 in \<open>simp_all add: frames_eqs\<close>)
qed

lemma packets_of_prefix: "prefix xs ys \<Longrightarrow> prefix (packets_of xs) (packets_of ys)"
  by (auto simp: prefix_def frames_append)

lemma bad_stream_prefix: "prefix xs ys \<Longrightarrow> bad_stream xs \<Longrightarrow> bad_stream ys"
  by (auto simp: prefix_def frames_append)

text \<open>A completed receive of good bytes while Windows accepts the next receive.\<close>

lemma receive_good:
  assumes "wf_buffer (recvBuffer c)" and "bs \<noteq> []" and "length bs \<le> room (recvBuffer c)"
    and "bufferSize (recvBuffer c) = BUFFER_SIZE" and "content (recvBuffer c) @ bs = ct"
    and good: "\<not> bad_stream ct" and accept: "\<And>s n. os_WSARecv os s n"
    and run: "deliver svc (packets_of ct) ((sess c)\<lparr>lastRecvTime := now\<rparr>) (app c) = Some (s1, w1)"
  shows "\<exists>c' n. receive os svc now bs c = Some c' \<and> sess c' = s1\<lparr>io := io s1 @ [IoRecv n]\<rparr> \<and>
     app c' = w1 \<and> content (recvBuffer c') = rest_of ct"
proof -
  from receive_spec [OF assms(1,3,2,5), of os svc now] obtain rb' where rb': "wf_buffer rb'"
    "content rb' = rest_of ct" "bufferSize rb' = BUFFER_SIZE" and eq: "receive os svc now bs c =
      ProcessRecv os svc (c\<lparr>sess := s1, app := w1, recvBuffer := Compact rb'\<rparr>)"
    using assms(4) good run by auto
  have "length (content rb') + 2048 \<le> unat (bufferSize rb')"
    using rest_of_short [OF good] rb' by (simp add: BUFFER_SIZE_def)
  from Compact_room [OF rb'(1) this] have "0 < room (Compact rb')" by simp
  with eq accept rb'(1,2) show ?thesis
    by (auto simp: ProcessRecv_room Let_def Compact_content)
qed

lemma deliver_None:
  assumes "\<And>p s w. OnRecv svc p s w = None \<longleftrightarrow> bad p"
  shows "deliver svc ps s w = None \<longleftrightarrow> (\<exists>p \<in> set ps. bad p)"
proof (induction ps arbitrary: s w)
  case (Cons p ps)
  show ?case
  proof (cases "OnRecv svc p (s\<lparr>io := io s @ [IoPacket p]\<rparr>) w")
    case None
    then have "bad p" using assms by blast
    with None show ?thesis by simp
  next
    case (Some r)
    then have "\<not> bad p" by (metis assms option.simps(3))
    with Some Cons show ?thesis by (cases r) simp
  qed
qed simp

text \<open>What the client does with a ping: a pong with its clock, and a log line if it cannot parse.\<close>

lemma client_ping:
  assumes "length msg \<le> 2044"
  shows "client_OnRecv os m (encode SC_SYSTEM_PING msg) s w =
    Handle_SC_SYSTEM_PING os m s ()
      (if parse_ok m SC_SYSTEM_PING msg then w
       else client_log (ParseFailed (of_nat (4 + length msg))) w)"
proof -
  have len: "(word_of_nat (length msg) :: u16) = of_nat (4 + length msg) - 4" by simp
  have n: "unat (word_of_nat (length msg) :: u16) = length msg"
    using assms by (simp add: unat_of_nat_u16)
  have "drop 4 (encode SC_SYSTEM_PING msg) = msg" by (simp add: encode_def)
  moreover have "read_header (encode SC_SYSTEM_PING msg) =
      Some \<lparr>hdr_id = 0, hdr_size = of_nat (4 + length msg)\<rparr>"
    using encode_header(1) [OF assms, of SC_SYSTEM_PING "[]"] by simp
  ultimately show ?thesis
    using n by (simp add: client_OnRecv_def HandlePacket_def UINT16_MAX_def client_handlers_def
        RegisterPacket_def HandlePacketAs_def Let_def sizeof_header_def)
qed

lemma client_pong:
  assumes "session_inv s" and "\<not> isClosed s" and "length msg \<le> 2044"
    and "\<forall>t. length (ser_pong m t) \<le> 2044" and "\<And>s bufs. os_WSASend os s bufs"
  shows "\<exists>s' w'. OnRecv (client_service os m) (encode SC_SYSTEM_PING msg) s w = Some (s', w') \<and>
    sending s' \<and> \<not> isClosed s' \<and>
    submitted_of (io s') = submitted_of (io s) @ encode CS_SYSTEM_PONG (ser_pong m (clock_ms w))"
proof -
  let ?w = "if parse_ok m SC_SYSTEM_PING msg then w
       else client_log (ParseFailed (of_nat (4 + length msg))) w"
  have t: "clock_ms ?w = clock_ms w" by (simp add: client_log_def)
  from SendPacket_accepted [OF assms(1,2) assms(4) [rule_format] assms(5), of client_OnDisconnected
      CS_SYSTEM_PONG "clock_ms w" ?w]
  show ?thesis
    by (auto simp: client_service_def client_ping [OF assms(3)] Handle_SC_SYSTEM_PING_def t)
qed

lemma demo_received:
  "\<exists>c. conn_reach demo_os demo_client (encode SC_SYSTEM_PING [7] @ [5, 0, 9]) c \<and>
     \<not> isClosed (sess c) \<and> sending (sess c) \<and>
     submitted_of (io (sess c)) = encode CS_PLAYER_ENTER_GAME [1] @ encode CS_SYSTEM_PONG [2]"
proof -
  let ?rx = "encode SC_SYSTEM_PING [7] @ [5, 0, 9]"
  from demo_opened obtain c where c: "Init demo_os demo_client 0 5 True (new_conn 1 5 0 demo_state) = Some (True, c)"
    and o: "\<not> isClosed (sess c)" and sub: "submitted_of (io (sess c)) = encode CS_PLAYER_ENTER_GAME [1]"
    by blast
  then have r: "conn_reach demo_os demo_client [] c" by (blast intro: conn_reach.opened)
  from service_contract.conn_reach_inv [OF demo_contract r]
  have inv: "conn_inv [] c" .
  have fr: "frames ?rx = ([encode SC_SYSTEM_PING [7]], [5, 0, 9], False)"
    by (simp add: frames_encode frames_short)
  let ?s = "(sess c)\<lparr>lastRecvTime := 1, io := io (sess c) @ [IoPacket (encode SC_SYSTEM_PING [7])]\<rparr>"
  have "session_inv ?s" using inv by (simp add: conn_inv_def session_inv_def)
  from client_pong [OF this, of "[7]" demo_messages demo_os "app c"] o sub
  obtain s w where "OnRecv demo_client (encode SC_SYSTEM_PING [7]) ?s (app c) = Some (s, w)"
    and s: "sending s" "\<not> isClosed s"
      "submitted_of (io s) = encode CS_PLAYER_ENTER_GAME [1] @ encode CS_SYSTEM_PONG [2]"
    by (auto simp: demo_client_def demo_messages_def)
  with receive_good [of c ?rx ?rx demo_os demo_client 1] fr inv
  obtain c' n where c': "receive demo_os demo_client 1 ?rx c = Some c'"
    "sess c' = s\<lparr>io := io s @ [IoRecv n]\<rparr>"
    by (auto simp: conn_inv_def frames_short)
  have "length ?rx \<le> room (recvBuffer c)" using inv by (simp add: conn_inv_def frames_short)
  from conn_reach.received [OF r _ this c'(1)] s c'(2) show ?thesis by auto
qed

section \<open>Framing\<close>

text \<open>C1: Whatever the pieces in which the bytes of a connection arrive, and whatever its service
  does within the contract, the packets handed to OnRecv are exactly the packets of the whole byte
  stream, in order. The bytes of an incomplete packet stay in the receive buffer, an open
  connection has room for a whole packet, and one whose stream has a bad header is closed.\<close>

theorem stream_reassembly:
  assumes "service_contract svc" and "conn_reach os svc rx c"
  shows "packets_in (io (sess c)) = packets_of rx \<and> content (recvBuffer c) = rest_of rx \<and>
    (bad_stream rx \<longrightarrow> isClosed (sess c)) \<and> (\<not> isClosed (sess c) \<longrightarrow> 2048 \<le> room (recvBuffer c))"
  using service_contract.conn_reach_inv [OF assms] by (auto simp: conn_inv_def)

theorem stream_reassembly_witness:
  "\<exists>c. packets_in (io (sess c)) = [encode SC_SYSTEM_PING [7]] \<and>
     content (recvBuffer (c :: (unit, unit) client_state conn)) = [5, 0, 9] \<and>
     2048 \<le> room (recvBuffer c)"
proof -
  have "frames (encode SC_SYSTEM_PING [7] @ [5, 0, 9]) = ([encode SC_SYSTEM_PING [7]], [5, 0, 9], False)"
    by (simp add: frames_encode frames_short)
  with demo_received stream_reassembly [OF demo_contract] show ?thesis by fastforce
qed

section \<open>The send path\<close>

text \<open>C3: On every connection the bytes given to WSASend are, in order, a prefix of the bytes of
  the buffers accepted by Send; while the connection is open the rest is exactly what is queued,
  at most ten buffers are in flight, and a session that is not sending has sent everything.\<close>

theorem wire_accounting:
  assumes "service_contract svc" and "conn_reach os svc rx c"
  shows "prefix (wire_of (io (sess c))) (submitted_of (io (sess c))) \<and>
    length (sendContext (sess c)) \<le> 10 \<and>
    (\<not> isClosed (sess c) \<longrightarrow>
       wire_of (io (sess c)) @ pending (sendDeque (sess c)) = submitted_of (io (sess c)) \<and>
       (sending (sess c) \<longleftrightarrow> sendContext (sess c) \<noteq> []) \<and>
       (\<not> sending (sess c) \<longrightarrow> wire_of (io (sess c)) = submitted_of (io (sess c))))"
proof -
  have "session_inv (sess c)"
    using service_contract.conn_reach_inv [OF assms] by (simp add: conn_inv_def)
  then show ?thesis
    by (auto simp: session_inv_def flight_ok_def MAX_SEND_BUFFER_COUNT_def prefix_def
        split: if_splits dest: sym)
qed

theorem wire_accounting_witness:
  "\<exists>c :: (unit, unit) client_state conn. sending (sess c) \<and> sendContext (sess c) \<noteq> [] \<and>
     wire_of (io (sess c)) @ pending (sendDeque (sess c)) =
       encode CS_PLAYER_ENTER_GAME [1] @ encode CS_SYSTEM_PONG [2]"
  using demo_received wire_accounting [OF demo_contract] by metis

text \<open>C31: A packet sent on an open session is accepted in full: its header and its message are
  appended to the submitted bytes; they go to WSASend at once when the session is idle and wait in
  the queue when it is sending. The service is not called.\<close>

theorem SendPacket_open:
  assumes "session_inv s" and "\<not> isClosed s" and "length msg \<le> 2044"
    and "\<And>s bufs. os_WSASend os s bufs"
  shows "\<exists>s'. SendPacket os disc pid msg s w = Some (s', w) \<and> sending s' \<and> \<not> isClosed s' \<and>
    submitted_of (io s') = submitted_of (io s) @ encode pid msg \<and>
    wire_of (io s') = wire_of (io s) @ (if sending s then [] else encode pid msg)"
  by (rule SendPacket_accepted [OF assms])

theorem SendPacket_open_witness:
  "\<exists>s'. SendPacket demo_os client_OnDisconnected SC_CHAT_MSG [1, 2] (Session 3 0) demo_state =
     Some (s', demo_state) \<and> wire_of (io s') = [5, 0, 6, 0, 1, 2]"
proof -
  have "session_inv (Session 3 0)" "\<not> isClosed (Session 3 0)"
    by (simp_all add: Session_def session_inv_def)
  from SendPacket_open [OF this, of "[1, 2]" demo_os client_OnDisconnected SC_CHAT_MSG demo_state]
  show ?thesis
    by (auto simp: Session_def encode_def header_bytes_def u16_bytes_def sizeof_header_def)
qed

text \<open>C35: A message of 2045 to 65531 bytes (modulo 65536) is dropped without a trace on the
  session; one of at least 65536 bytes whose length modulo 65536 is at most 2044 is sent as that
  many zero bytes, because its size is computed in 16 bits; and one whose length is 65532 to 65535
  modulo 65536 makes SendPacket write its header past the end of the buffer.\<close>

theorem SendPacket_oversized:
  "(2048 < (4 + length msg) mod 65536 \<longrightarrow> SendPacket os disc pid msg s w = Some (s, w)) \<and>
   (65536 \<le> length msg \<and> length msg mod 65536 \<le> 2044 \<longrightarrow>
      (\<exists>b. SendPacket os disc pid msg s w = Send os disc (Some b) s w \<and>
        content b = encode pid (replicate (length msg mod 65536) 0))) \<and>
   (65532 \<le> length msg mod 65536 \<longrightarrow> SendPacket os disc pid msg s w = None)"
proof (intro conjI impI)
  assume "2048 < (4 + length msg) mod 65536"
  then show "SendPacket os disc pid msg s w = Some (s, w)"
    by (simp add: SendPacket_def MakeSendBuffer_dropped)
next
  assume "65536 \<le> length msg \<and> length msg mod 65536 \<le> 2044"
  then obtain b where "MakeSendBuffer pid msg = Some (Some b)"
    "content b = encode pid (replicate (length msg mod 65536) 0)"
    using MakeSendBuffer_truncated [of msg, OF _ refl, of pid]
    by (auto simp: encode_def sizeof_header_def)
  then show "\<exists>b. SendPacket os disc pid msg s w = Send os disc (Some b) s w \<and>
        content b = encode pid (replicate (length msg mod 65536) 0)"
    by (auto simp: SendPacket_def)
next
  assume "65532 \<le> length msg mod 65536"
  then show "SendPacket os disc pid msg s w = None"
    by (simp add: SendPacket_def MakeSendBuffer_overrun)
qed

theorem SendPacket_oversized_witness:
  "SendPacket demo_os client_OnDisconnected SC_CHAT_MSG (replicate 3000 1) (Session 3 0) demo_state =
     Some (Session 3 0, demo_state) \<and>
   SendPacket demo_os client_OnDisconnected SC_CHAT_MSG (replicate 65533 1) (Session 3 0) demo_state =
     None \<and>
   (\<exists>b. SendPacket demo_os client_OnDisconnected SC_CHAT_MSG (replicate 65538 1) (Session 3 0) demo_state =
        Send demo_os client_OnDisconnected (Some b) (Session 3 0) demo_state \<and>
        content b = encode SC_CHAT_MSG [0, 0])"
proof (intro conjI)
  note ov = SendPacket_oversized [where os = demo_os and disc = client_OnDisconnected and
      pid = SC_CHAT_MSG and s = "Session 3 0" and w = demo_state]
  show "SendPacket demo_os client_OnDisconnected SC_CHAT_MSG (replicate 3000 1) (Session 3 0) demo_state =
     Some (Session 3 0, demo_state)"
    by (rule ov [THEN conjunct1, rule_format]) (simp only: length_replicate, simp)
  show "SendPacket demo_os client_OnDisconnected SC_CHAT_MSG (replicate 65533 1) (Session 3 0) demo_state =
     None"
    by (rule ov [THEN conjunct2, THEN conjunct2, rule_format]) (simp only: length_replicate, simp)
  have len: "length (replicate 65538 1 :: u8 list) = 65538" by (rule length_replicate)
  have two: "replicate 2 0 = [0, 0 :: u8]" by (simp add: numeral_2_eq_2)
  show "\<exists>b. SendPacket demo_os client_OnDisconnected SC_CHAT_MSG (replicate 65538 1) (Session 3 0) demo_state =
        Send demo_os client_OnDisconnected (Some b) (Session 3 0) demo_state \<and>
        content b = encode SC_CHAT_MSG [0, 0]"
    using ov [THEN conjunct2, THEN conjunct1, of "replicate 65538 1", unfolded len]
    unfolding two [symmetric] by force
qed

text \<open>C22: On an open session of the client whose sends Windows accepts and completes, as many
  completions as there are queued buffers, and one, put every accepted byte on the wire and leave
  the session idle.\<close>

theorem client_queue_drains:
  assumes "session_inv s" and "\<not> isClosed s" and "\<And>s bufs. os_WSASend os s bufs"
  shows "\<exists>s'. complete_sends os (client_service os m) now (Suc (length (sendDeque s))) s w = Some (s', w) \<and>
    \<not> isClosed s' \<and> \<not> sending s' \<and> wire_of (io s') = submitted_of (io s)"
proof -
  from gc.complete_sends_drain [OF assms(1,2) lessI assms(3)] show ?thesis
    by (fastforce simp: session_inv_def)
qed

theorem client_queue_drains_witness:
  "\<exists>s s'. sending s \<and>
     complete_sends demo_os demo_client 0 (Suc (length (sendDeque s))) s demo_state = Some (s', demo_state) \<and>
     wire_of (io s') = encode CS_PLAYER_ENTER_GAME [1] @ encode CS_SYSTEM_PONG [2]"
proof -
  from demo_received obtain c where r: "conn_reach demo_os demo_client (encode SC_SYSTEM_PING [7] @ [5, 0, 9]) c"
    and c: "\<not> isClosed (sess c)" "sending (sess c)"
    "submitted_of (io (sess c)) = encode CS_PLAYER_ENTER_GAME [1] @ encode CS_SYSTEM_PONG [2]" by blast
  have "session_inv (sess c)"
    using service_contract.conn_reach_inv [OF demo_contract r] by (simp add: conn_inv_def)
  from client_queue_drains [OF this c(1), of demo_os demo_messages 0 demo_state] c(2,3)
  show ?thesis by (fastforce simp: demo_client_def)
qed

text \<open>C36: When Windows completes a send with fewer bytes than its first buffer holds, the whole
  buffer is sent again, although its first bytes are on the wire already, and every other buffer
  of that send is lost: it is neither queued nor ever sent.\<close>

theorem partial_send_repeats:
  assumes "session_inv s" and "\<not> isClosed s" and "sendContext s = Some b # bs"
    and "sendDeque s = []" and "0 < n" and "n < length (content b)" and "\<And>s bufs. os_WSASend os s bufs"
  shows "\<exists>s'. OnSendCompleted os (client_service os m) now (int n) s w = Some (s', w) \<and>
    wire_of (io s') = wire_of (io s) @ content b \<and> sendDeque s' = [] \<and> sendContext s' = [Some b] \<and>
    submitted_of (io s') = wire_of (io s)"
proof -
  have b: "packet_buffer b" "wire_of (io s) = submitted_of (io s)"
    using assms(1-4) by (auto simp: session_inv_def flight_ok_def)
  have loop: "send_completed_loop (int n) (sendContext s) = Some [Some b]"
    using assms b(1) by (simp add: packet_buffer_size)
  have "\<not> IsCompleted b" using b(1) assms(6) by (auto simp: IsCompleted_content)
  then show ?thesis
    using loop assms b(2)
    by (simp add: OnSendCompleted_def Let_def ProcessSend_def MAX_SEND_BUFFER_COUNT_def
        client_service_def client_OnSend_def eval_nat_numeral)
qed

theorem partial_send_repeats_witness:
  "\<exists>b b2 s s'. sendContext s = [Some b, Some b2] \<and> content b = [1, 2, 3] \<and> content b2 = [4] \<and>
     wire_of (io s) = [1, 2, 3, 4] \<and>
     OnSendCompleted demo_os demo_client 0 2 s demo_state = Some (s', demo_state) \<and>
     wire_of (io s') = [1, 2, 3, 4, 1, 2, 3] \<and> sendDeque s' = []"
proof -
  let ?b = "\<lparr>buffer = [1, 2, 3 :: u8], bufferSize = 3, readPos = 0, writePos = 3\<rparr>"
  let ?b2 = "\<lparr>buffer = [4 :: u8], bufferSize = 1, readPos = 0, writePos = 1\<rparr>"
  let ?s = "(Session 3 0)\<lparr>sending := True, sendContext := [Some ?b, Some ?b2],
    io := [IoSubmit [1, 2, 3], IoSubmit [4], IoSend [[1, 2, 3], [4]]]\<rparr>"
  have c: "content ?b = [1, 2, 3]" "content ?b2 = [4]"
    by (simp_all add: send_GetWSABUF_def GetReadPtr_def GetDataSize_def)
  have "packet_buffer ?b" "packet_buffer ?b2"
    unfolding packet_buffer_def c by (simp_all add: wf_buffer_def)
  then have "session_inv ?s"
    using c by (auto simp: session_inv_def Session_def flight_ok_def MAX_SEND_BUFFER_COUNT_def)
  from partial_send_repeats [OF this, of ?b "[Some ?b2]" 2 demo_os demo_messages 0 demo_state] c
  obtain s' where "OnSendCompleted demo_os demo_client 0 2 ?s demo_state = Some (s', demo_state)"
    "wire_of (io s') = [1, 2, 3, 4, 1, 2, 3]" "sendDeque s' = []"
    by (auto simp: Session_def demo_client_def)
  with c show ?thesis
    by (intro exI [of _ ?b] exI [of _ ?b2] exI [of _ ?s] exI [of _ s']) simp
qed

section \<open>Closing\<close>



section \<open>Both ends\<close>

text \<open>C2: From one end to the other: if one side has accepted the packets ps and the other side
  has received a prefix of the bytes given to WSASend, its service has been handed a prefix of ps,
  each packet whole and unchanged, and no header looked bad to it. When everything arrived and
  the sender is idle it has been handed all of ps.\<close>

theorem end_to_end:
  assumes "service_contract svc" and "conn_reach os svc rx c"
    and "service_contract svc'" and "conn_reach os' svc' rx' c'"
    and "prefix rx' (wire_of (io (sess c)))"
    and "submitted_of (io (sess c)) = concat (map (case_prod encode) ps)"
    and "\<forall>(pid, msg) \<in> set ps. length msg \<le> 2044"
  shows "prefix (packets_in (io (sess c'))) (map (case_prod encode) ps) \<and> \<not> bad_stream rx' \<and>
    (rx' = wire_of (io (sess c)) \<and> \<not> isClosed (sess c) \<and> \<not> sending (sess c) \<longrightarrow>
       packets_in (io (sess c')) = map (case_prod encode) ps)"
proof -
  let ?sub = "submitted_of (io (sess c))"
  have inv: "session_inv (sess c)"
    using service_contract.conn_reach_inv [OF assms(1,2)] by (simp add: conn_inv_def)
  then have "prefix (wire_of (io (sess c))) ?sub"
    by (auto simp: session_inv_def prefix_def split: if_splits dest: sym)
  with assms(5) have pre: "prefix rx' ?sub" by (rule prefix_order.trans)
  have fr: "frames ?sub = (map (case_prod encode) ps, [], False)"
    using assms(6,7) by (simp add: frames_encodes)
  have "packets_in (io (sess c')) = packets_of rx'"
    using service_contract.conn_reach_inv [OF assms(3,4)] by (simp add: conn_inv_def)
  moreover have "wire_of (io (sess c)) = ?sub" if "\<not> isClosed (sess c)" "\<not> sending (sess c)"
    using inv that by (auto simp: session_inv_def)
  ultimately show ?thesis
    using packets_of_prefix [OF pre] bad_stream_prefix [OF pre] fr by auto
qed

theorem end_to_end_witness:
  "\<exists>(c :: (unit, unit) client_state conn) (c' :: (unit, unit) client_state conn). submitted_of (io (sess c)) =
       concat (map (case_prod encode) [(CS_PLAYER_ENTER_GAME, [1]), (CS_SYSTEM_PONG, [2])]) \<and>
     prefix (packets_in (io (sess c'))) [encode CS_PLAYER_ENTER_GAME [1], encode CS_SYSTEM_PONG [2]]"
proof -
  let ?ps = "[(CS_PLAYER_ENTER_GAME, [1]), (CS_SYSTEM_PONG, [2])] :: (packet_id \<times> u8 list) list"
  from demo_received obtain c where c:
    "conn_reach demo_os demo_client (encode SC_SYSTEM_PING [7] @ [5, 0, 9]) c"
    "submitted_of (io (sess c)) = concat (map (case_prod encode) ?ps)" by auto
  from demo_opened obtain c' where c': "conn_reach demo_os demo_client [] c'"
    by (blast intro: conn_reach.opened)
  from end_to_end [OF demo_contract c(1) demo_contract c' _ c(2)] c(2) show ?thesis by auto
qed

section \<open>Dispatch\<close>

text \<open>C34: A client with room for the bytes handles every receive without crashing exactly when all
  packets that become complete have an id it registered (SC_SYSTEM_PING .. SC_CHAT_MSG, 0 to 5); any
  other id, which only a header can bring, ends the process through an empty std::function.\<close>

theorem client_crash_iff:
  assumes "wf_buffer (recvBuffer c)" and "bs \<noteq> []" and "length bs \<le> room (recvBuffer c)"
    and "\<forall>t. length (ser_pong m t) mod 65536 < 65532"
  shows "receive os (client_service os m) now bs c = None \<longleftrightarrow>
    (\<exists>p \<in> set (packets_of (content (recvBuffer c) @ bs)). \<not> client_knows p)"
proof -
  let ?svc = "client_service os m" and ?ct = "content (recvBuffer c) @ bs"
  have dead: "OnRecv ?svc p s w = None \<longleftrightarrow> \<not> client_knows p" for p s w
    using client_OnRecv_None [OF assms(4)] by (simp add: client_service_def)
  have close: "\<exists>c'. conn_close ?svc c = Some c'" for c
    using gc_disc.Close_total [of "sess c" "app c"]
    by (auto simp: conn_close_def client_service_def)
  then have post: "\<exists>c'. ProcessRecv os ?svc c = Some c'" for c
    by (simp add: ProcessRecv_def Let_def)
  from receive_spec [OF assms(1,3,2) refl, of os ?svc now] obtain rb' where
    "receive os ?svc now bs c = do {
      (s1, w1) \<leftarrow> deliver ?svc (packets_of ?ct) ((sess c)\<lparr>lastRecvTime := now\<rparr>) (app c);
      let c1 = c\<lparr>sess := s1, app := w1, recvBuffer := rb'\<rparr>;
      (if bad_stream ?ct then conn_close ?svc c1
       else ProcessRecv os ?svc (c1\<lparr>recvBuffer := Compact rb'\<rparr>)) }" by blast
  moreover have "(if b then conn_close ?svc c else ProcessRecv os ?svc c2) \<noteq> None" for b c c2
    using close [of c] post [of c2] by auto
  ultimately have "receive os ?svc now bs c = None \<longleftrightarrow>
      deliver ?svc (packets_of ?ct) ((sess c)\<lparr>lastRecvTime := now\<rparr>) (app c) = None"
    by (cases "deliver ?svc (packets_of ?ct) ((sess c)\<lparr>lastRecvTime := now\<rparr>) (app c)")
       (auto simp: Let_def)
  then show ?thesis by (simp add: deliver_None [OF dead])
qed

theorem client_crash_iff_witness:
  "\<exists>c. conn_reach demo_os demo_client [] c \<and>
     receive demo_os demo_client 1 (encode CS_CHAT_MSG [1]) c = None \<and>
     receive demo_os demo_client 1 (encode SC_CHAT_MSG [1]) c \<noteq> None"
proof -
  from demo_opened obtain c where r: "conn_reach demo_os demo_client [] c"
    by (blast intro: conn_reach.opened)
  then have inv: "conn_inv [] c" by (rule service_contract.conn_reach_inv [OF demo_contract])
  have n: "encode pid [1] \<noteq> []" "\<forall>t. length (ser_pong demo_messages t) mod 65536 < 65532"
    "length (encode pid [1]) \<le> room (recvBuffer c)" for pid
    using inv by (auto simp: encode_def header_bytes_def u16_bytes_def demo_messages_def conn_inv_def
        frames_short)
  have "wf_buffer (recvBuffer c)" "content (recvBuffer c) = []"
    using inv by (simp_all add: conn_inv_def frames_short)
  moreover have "packets_of (encode pid [1]) = [encode pid [1]]" for pid
    using frames_encode [of "[1]" pid "[]"] by (simp add: frames_short)
  moreover have "client_knows (encode SC_CHAT_MSG [1])" "\<not> client_knows (encode CS_CHAT_MSG [1])"
    by (simp_all add: client_knows_def encode_def sizeof_header_def)
  ultimately show ?thesis
    using r client_crash_iff [of c _ demo_messages demo_os 1, OF _ n(1) n(3) n(2)]
    by (intro exI [of _ c]) (simp add: demo_client_def del: not_None_eq)
qed

text \<open>C32: A client that receives a ping while nothing else is in its buffer stays open and submits
  exactly one packet, a pong carrying its clock, whether or not the ping can be parsed.\<close>

theorem ping_pong:
  assumes "conn_reach os (client_service os m) rx c" and "\<not> isClosed (sess c)" and "rest_of rx = []"
    and "length msg \<le> 2044" and "\<forall>t. length (ser_pong m t) \<le> 2044"
    and "\<And>s bufs. os_WSASend os s bufs" and "\<And>s n. os_WSARecv os s n"
  shows "\<exists>c'. receive os (client_service os m) now (encode SC_SYSTEM_PING msg) c = Some c' \<and>
    \<not> isClosed (sess c') \<and>
    submitted_of (io (sess c')) =
      submitted_of (io (sess c)) @ encode CS_SYSTEM_PONG (ser_pong m (clock_ms (app c)))"
proof -
  let ?p = "encode SC_SYSTEM_PING msg"
  let ?s = "(sess c)\<lparr>lastRecvTime := now, io := io (sess c) @ [IoPacket ?p]\<rparr>"
  have inv: "conn_inv rx c" by (rule gc.conn_reach_inv [OF assms(1)])
  then have "session_inv ?s" by (simp add: conn_inv_def session_inv_def)
  from client_pong [OF this _ assms(4,5,6), of "app c"] assms(2)
  obtain s w where s: "OnRecv (client_service os m) ?p ?s (app c) = Some (s, w)" "\<not> isClosed s"
    "submitted_of (io s) =
      submitted_of (io (sess c)) @ encode CS_SYSTEM_PONG (ser_pong m (clock_ms (app c)))"
    by auto
  have fr: "frames ?p = ([?p], [], False)"
    using frames_encode [OF assms(4), of SC_SYSTEM_PING "[]"] by (simp add: frames_short)
  have "?p \<noteq> []" by (simp add: encode_def header_bytes_def u16_bytes_def)
  moreover have "length ?p \<le> room (recvBuffer c)"
    using inv assms(2,4) by (auto simp: conn_inv_def)
  ultimately show ?thesis
    using receive_good [of c ?p ?p os "client_service os m" now s w] inv assms(3,7) fr s
    by (fastforce simp: conn_inv_def)
qed

theorem ping_pong_witness:
  "\<exists>c c'. receive demo_os demo_client 1 (encode SC_SYSTEM_PING [7]) c = Some c' \<and>
     \<not> isClosed (sess c') \<and>
     submitted_of (io (sess c')) = encode CS_PLAYER_ENTER_GAME [1] @ encode CS_SYSTEM_PONG [2]"
proof -
  from demo_opened obtain c where "conn_reach demo_os (client_service demo_os demo_messages) [] c"
    and c: "\<not> isClosed (sess c)" "submitted_of (io (sess c)) = encode CS_PLAYER_ENTER_GAME [1]"
    unfolding demo_client_def by (blast intro: conn_reach.opened)
  from ping_pong [OF this(1) c(1), of "[7]" 1] c(2) show ?thesis
    by (auto simp: demo_client_def demo_messages_def frames_short)
qed

end
