(* ===== verification/Session_Manager.thy ===== *)
theory Session_Manager
  imports Session_Properties
begin

text \<open>
  ServerCore/Network/SessionManager.cpp: the table of sessions and the heartbeat pass, and the
  heartbeat half of the game server (GameServer::OnHeartbeat and the handler of CS_SYSTEM_PONG).
  The table owns the session objects; a session that is erased from it is gone. A pass reads the
  clock once.
\<close>

section \<open>State\<close>

record session_obj =
  obj_sess :: session
  obj_recv :: base_buffer

datatype mgr_log = SessionTimeout u64 | NoHeartbeat u64

record 'w session_manager =
  sessions :: "(u64 \<times> session_obj) list"
  mgr_app :: 'w
  mgr_logs :: "mgr_log list"

definition PING_PONG_DIFF :: u64 where
  "PING_PONG_DIFF = 6"

definition mgr_wf :: "'w session_manager \<Rightarrow> bool" where
  "mgr_wf m \<longleftrightarrow> distinct (map fst (sessions m)) \<and>
     (\<forall>(sid, ob) \<in> set (sessions m). sessionID (obj_sess ob) = sid)"

section \<open>Operations\<close>

definition mgr_Shutdown :: "'w session_manager \<Rightarrow> 'w session_manager" where
  "mgr_Shutdown m = m\<lparr>sessions := []\<rparr>"

definition Add :: "session_obj option \<Rightarrow> 'w session_manager \<Rightarrow> 'w session_manager" where
  "Add ob m =
     (case ob of
        None \<Rightarrow> m
      | Some x \<Rightarrow> m\<lparr>sessions := hm_insert (sessionID (obj_sess x)) x (sessions m)\<rparr>)"

definition GetActiveSessions :: "int \<Rightarrow> 'w session_manager \<Rightarrow> session_obj list" where
  "GetActiveSessions now m =
     filter (\<lambda>ob. \<not> (isClosed (obj_sess ob) \<or> IsTimeout now (obj_sess ob))) (map snd (sessions m))"

definition Find_session :: "u64 \<Rightarrow> 'w session_manager \<Rightarrow> session_obj option" where
  "Find_session sid m = map_of (sessions m) sid"

text \<open>
  A loop over some of the sessions: the body changes the session, the service's state and the log.
\<close>

type_synonym 'w session_body =
  "session \<Rightarrow> 'w \<Rightarrow> mgr_log list \<Rightarrow> (session \<times> 'w \<times> mgr_log list) option"

fun for_sessions ::
  "'w session_body \<Rightarrow> u64 list \<Rightarrow> 'w session_manager \<Rightarrow> 'w session_manager option" where
  "for_sessions body [] m = Some m"
| "for_sessions body (sid # sids) m =
     (case map_of (sessions m) sid of
        None \<Rightarrow> for_sessions body sids m
      | Some ob \<Rightarrow> do {
          (s, w, l) \<leftarrow> body (obj_sess ob) (mgr_app m) (mgr_logs m);
          for_sessions body sids
            (m\<lparr>sessions := hm_assign sid (ob\<lparr>obj_sess := s\<rparr>) (sessions m), mgr_app := w,
               mgr_logs := l\<rparr>) })"

definition close_expired ::
  "(session \<Rightarrow> 'w \<Rightarrow> (session \<times> 'w) option) \<Rightarrow> int \<Rightarrow> 'w session_body" where
  "close_expired disc now s w l = do {
     let l1 = (if IsTimeout now s then l @ [SessionTimeout (sessionID s)] else l);
     (s1, w1) \<leftarrow> Close disc s w;
     Some (s1, w1, l1) }"

definition beat ::
  "(session \<Rightarrow> 'w \<Rightarrow> (session \<times> 'w) option) \<Rightarrow> 'w core_service \<Rightarrow> 'w session_body" where
  "beat disc service s w l =
     (if PING_PONG_DIFF \<le> pingCount s - pongCount s
      then do {
        (s1, w1) \<leftarrow> Close disc s w;
        Some (s1, w1, l @ [NoHeartbeat (sessionID s)]) }
      else do {
        (s1, w1) \<leftarrow> OnHeartbeat service s w;
        Some (s1, w1, l) })"

text \<open>
  disc is the callback the sessions close with, service the argument of Heartbeat, which may be a
  null pointer. Sessions that are closed or timed out are closed and erased; the others are beaten
  or closed.
\<close>

definition expired :: "int \<Rightarrow> session_obj \<Rightarrow> bool" where
  "expired now ob \<longleftrightarrow> isClosed (obj_sess ob) \<or> IsTimeout now (obj_sess ob)"

definition Heartbeat ::
  "(session \<Rightarrow> 'w \<Rightarrow> (session \<times> 'w) option) \<Rightarrow> 'w core_service option \<Rightarrow> int \<Rightarrow>
     'w session_manager \<Rightarrow> 'w session_manager option" where
  "Heartbeat disc service now m = do {
     let timeoutSessions = map fst (filter (\<lambda>(sid, ob). expired now ob) (sessions m));
     let liveSessions = map fst (filter (\<lambda>(sid, ob). \<not> expired now ob) (sessions m));
     m1 \<leftarrow> for_sessions (close_expired disc now) timeoutSessions m;
     let m2 = m1\<lparr>sessions := fold hm_erase timeoutSessions (sessions m1)\<rparr>;
     (case service of
        None \<Rightarrow> Some m2
      | Some svc \<Rightarrow> for_sessions (beat disc svc) liveSessions m2) }"

section \<open>The server's side of the heartbeat\<close>

text \<open>ping gives the bytes of the SC_SYSTEM_PING message, which holds the server's clock.\<close>

definition server_OnHeartbeat ::
  "os_calls \<Rightarrow> (session \<Rightarrow> 'w \<Rightarrow> (session \<times> 'w) option) \<Rightarrow> ('w \<Rightarrow> u8 list) \<Rightarrow> session \<Rightarrow> 'w \<Rightarrow>
     (session \<times> 'w) option" where
  "server_OnHeartbeat os disc ping s w = do {
     (s1, w1) \<leftarrow> SendPacket os disc SC_SYSTEM_PING (ping w) s w;
     Some (IncreasePingCount s1, w1) }"

text \<open>Times are int64 milliseconds; their difference is cut to int32, and std::abs stays there.\<close>

definition Handle_CS_SYSTEM_PONG :: "int \<Rightarrow> int \<Rightarrow> session \<Rightarrow> session" where
  "Handle_CS_SYSTEM_PONG serverTime clientTime s =
     (let diffTime = of_int (serverTime - clientTime) :: u32 in
      updateRoundTripTime (if sint diffTime < 0 then - diffTime else diffTime)
        (IncreasePongCount s))"

section \<open>Loops over sessions\<close>

lemma for_sessions_step:
  assumes "for_sessions body (x # sids) m = Some m'" and "map_of (sessions m) x = Some ob"
  obtains s w l where "body (obj_sess ob) (mgr_app m) (mgr_logs m) = Some (s, w, l)"
    and "for_sessions body sids (m\<lparr>sessions := hm_assign x (ob\<lparr>obj_sess := s\<rparr>) (sessions m),
          mgr_app := w, mgr_logs := l\<rparr>) = Some m'"
  using assms by (auto simp: bind_eq_Some_conv)

lemma for_sessions_dom:
  "for_sessions body sids m = Some m' \<Longrightarrow> dom (map_of (sessions m')) = dom (map_of (sessions m))"
proof (induction sids arbitrary: m)
  case (Cons x sids)
  show ?case
  proof (cases "map_of (sessions m) x")
    case (Some ob)
    from for_sessions_step [OF Cons.prems Some] obtain s w l where
      "for_sessions body sids (m\<lparr>sessions := hm_assign x (ob\<lparr>obj_sess := s\<rparr>) (sessions m),
          mgr_app := w, mgr_logs := l\<rparr>) = Some m'" by blast
    from Cons.IH [OF this] Some show ?thesis by (auto simp: hm_simps split: if_splits)
  qed (use Cons in simp)
qed simp

lemma for_sessions_distinct:
  "for_sessions body sids m = Some m' \<Longrightarrow> distinct (map fst (sessions m)) \<Longrightarrow>
     distinct (map fst (sessions m'))"
  by (induction body sids m rule: for_sessions.induct)
     (auto simp: bind_eq_Some_conv distinct_update split: option.splits)

text \<open>Each session of the loop is changed once, by the body; the others stay.\<close>

lemma for_sessions_each:
  assumes "for_sessions body sids m = Some m'" and "distinct sids"
    and R: "\<And>s w l s' w' l'. body s w l = Some (s', w', l') \<Longrightarrow> R s s'"
    and "map_of (sessions m) sid = Some ob"
  shows "\<exists>ob'. map_of (sessions m') sid = Some ob' \<and> obj_recv ob' = obj_recv ob \<and>
    (if sid \<in> set sids then R (obj_sess ob) (obj_sess ob') else ob' = ob)"
  using assms(1,2,4)
proof (induction sids arbitrary: m ob)
  case (Cons x sids)
  show ?case
  proof (cases "map_of (sessions m) x")
    case None
    with Cons.prems have "for_sessions body sids m = Some m'" "x \<noteq> sid" by auto
    with Cons show ?thesis by simp
  next
    case (Some o1)
    from for_sessions_step [OF Cons.prems(1) Some] obtain s w l where
      b: "body (obj_sess o1) (mgr_app m) (mgr_logs m) = Some (s, w, l)" and
      rest: "for_sessions body sids (m\<lparr>sessions := hm_assign x (o1\<lparr>obj_sess := s\<rparr>) (sessions m),
          mgr_app := w, mgr_logs := l\<rparr>) = Some m'" by blast
    have d: "distinct sids" using Cons.prems by simp
    show ?thesis
    proof (cases "x = sid")
      case True
      with Cons.IH [OF rest d, of "o1\<lparr>obj_sess := s\<rparr>"] Some R [OF b] Cons.prems show ?thesis
        by (auto simp: hm_simps)
    next
      case False
      with Cons.IH [OF rest d, of ob] Cons.prems show ?thesis by (auto simp: hm_simps)
    qed
  qed
qed simp

lemma map_of_fold_erase:
  "map_of (fold hm_erase ks m) k = (if k \<in> set ks then None else map_of m k)"
  by (induction ks arbitrary: m) (auto simp: hm_simps)

lemma mem_filtered_keys:
  assumes "distinct (map fst m)"
  shows "k \<in> set (map fst (filter (\<lambda>(k, v). P v) m)) \<longleftrightarrow> (\<exists>v. map_of m k = Some v \<and> P v)"
  using assms by (force dest: map_of_SomeD)

section \<open>What a pass does\<close>

lemma close_expired_closes:
  assumes "disconnect_contract disc" and "close_expired disc now s w l = Some (s', w', l')"
  shows "session_step s s' \<and> isClosed s'"
proof -
  obtain w1 where "Close disc s w = Some (s', w1)"
    using assms(2) by (auto simp: close_expired_def bind_eq_Some_conv)
  from disconnect_contract.Close_closes [OF assms(1) this] show ?thesis .
qed

lemma beat_closes:
  assumes "service_contract svc" and "beat (OnDisconnected svc) svc s w l = Some (s', w', l')"
  shows "session_step s s' \<and> (PING_PONG_DIFF \<le> pingCount s - pongCount s \<longrightarrow> isClosed s')"
proof (cases "PING_PONG_DIFF \<le> pingCount s - pongCount s")
  case True
  with assms(2) obtain w1 where "Close (OnDisconnected svc) s w = Some (s', w1)"
    by (auto simp: beat_def bind_eq_Some_conv)
  from disconnect_contract.Close_closes [OF service_contract.axioms(1) [OF assms(1)] this]
  show ?thesis by blast
next
  case False
  with assms(2) obtain w1 where "OnHeartbeat svc s w = Some (s', w1)"
    by (auto simp: beat_def bind_eq_Some_conv)
  with False service_contract.heartbeat_step [OF assms(1)] show ?thesis by blast
qed

lemma heartbeat_pass_aux:
  assumes svc: "service_contract svc" and wf: "mgr_wf m"
    and run: "Heartbeat (OnDisconnected svc) (Some svc) now m = Some m'"
  shows "(case map_of (sessions m) sid of
       None \<Rightarrow> map_of (sessions m') sid = None
     | Some ob \<Rightarrow>
         if expired now ob then map_of (sessions m') sid = None
         else \<exists>ob'. map_of (sessions m') sid = Some ob' \<and> obj_recv ob' = obj_recv ob \<and>
           session_step (obj_sess ob) (obj_sess ob') \<and>
           (6 \<le> pingCount (obj_sess ob) - pongCount (obj_sess ob) \<longrightarrow> isClosed (obj_sess ob')))"
proof -
  let ?dead = "map fst (filter (\<lambda>(sid, ob). expired now ob) (sessions m))"
  let ?live = "map fst (filter (\<lambda>(sid, ob). \<not> expired now ob) (sessions m))"
  have dist: "distinct (map fst (sessions m))" using wf by (simp add: mgr_wf_def)
  from run obtain m1 where m1: "for_sessions (close_expired (OnDisconnected svc) now) ?dead m = Some m1"
    and m2: "for_sessions (beat (OnDisconnected svc) svc) ?live
      (m1\<lparr>sessions := fold hm_erase ?dead (sessions m1)\<rparr>) = Some m'" (is "for_sessions _ _ ?m2 = _")
    by (auto simp: Heartbeat_def Let_def bind_eq_Some_conv)
  have ds: "distinct ?dead" "distinct ?live" using dist by (simp_all add: distinct_map_filter)
  note dom1 = for_sessions_dom [OF m1] and dom2 = for_sessions_dom [OF m2]
  note dead = mem_filtered_keys [OF dist, of sid "expired now"]
    and live = mem_filtered_keys [OF dist, of sid "\<lambda>ob. \<not> expired now ob"]
  show ?thesis
  proof (cases "map_of (sessions m) sid")
    case None
    with dom1 have "map_of (sessions ?m2) sid = None"
      by (auto simp: map_of_fold_erase domIff)
    with dom2 None show ?thesis by (auto simp: domIff)
  next
    case (Some ob)
    show ?thesis
    proof (cases "expired now ob")
      case True
      with dead Some have "map_of (sessions ?m2) sid = None" by (simp add: map_of_fold_erase)
      with dom2 Some True show ?thesis by (auto simp: domIff)
    next
      case False
      with dead Some have "sid \<notin> set ?dead" by simp
      with for_sessions_each [OF m1 ds(1) TrueI Some]
      have "map_of (sessions ?m2) sid = Some ob" by (simp add: map_of_fold_erase)
      from for_sessions_each [OF m2 ds(2) beat_closes [OF svc] this] live Some False
      show ?thesis by (simp add: PING_PONG_DIFF_def)
    qed
  qed
qed

section \<open>Round-trip times\<close>

lemma updateRoundTripTime_deque:
  assumes "length (rttDeque s) \<le> 10"
  shows "rttDeque (updateRoundTripTime r s) = drop (length (rttDeque s @ [r]) - 10) (rttDeque s @ [r])"
proof (cases "length (rttDeque s) = 10")
  case True
  then show ?thesis by (simp add: updateRoundTripTime_def AVG_RTT_COUNT_def Let_def drop_Suc)
next
  case False
  with assms have "Suc (length (rttDeque s)) \<le> 10" by simp
  with False show ?thesis by (simp add: updateRoundTripTime_def AVG_RTT_COUNT_def Let_def)
qed

lemma updates_deque:
  "length (rttDeque s) \<le> 10 \<Longrightarrow>
     rttDeque (fold updateRoundTripTime rs s) = drop (length (rttDeque s @ rs) - 10) (rttDeque s @ rs)"
proof (induction rs arbitrary: s)
  case (Cons r rs)
  let ?d = "rttDeque s @ [r]"
  have d: "rttDeque (updateRoundTripTime r s) = drop (length ?d - 10) ?d"
    by (rule updateRoundTripTime_deque [OF Cons.prems])
  have len: "length (rttDeque (updateRoundTripTime r s)) \<le> 10" unfolding d by simp
  show ?case unfolding fold_Cons comp_def Cons.IH [OF len]
    using Cons.prems
    by (auto simp: d drop_append intro: arg_cong [where f = "\<lambda>n. drop n (rttDeque s)"])
qed simp

text \<open>Sums of small samples do not wrap, and the quotient is that of natural numbers.\<close>

lemma unat_sum_list_small:
  assumes "\<forall>r \<in> set d. unat (r :: u32) \<le> 214748364" and "length d \<le> 10"
  shows "unat (sum_list d) = sum_list (map unat d) \<and> sum_list (map unat d) \<le> length d * 214748364"
  using assms
proof (induction d)
  case (Cons r d)
  then have IH: "unat (sum_list d) = sum_list (map unat d)"
    "sum_list (map unat d) \<le> length d * 214748364" "unat r \<le> 214748364" "length d \<le> 9" by auto
  then have "unat r + unat (sum_list d) < 2 ^ LENGTH(32)" by simp
  then have "unat (r + sum_list d) = unat r + unat (sum_list d)" by (rule unat_add_le)
  with IH show ?case by simp
qed simp

lemma sdiv_nonneg: "int a sdiv int b = int (a div b)"
  by (cases "a = 0"; cases "b = 0") (simp_all add: signed_divide_int_def zdiv_int)

lemma updateRoundTripTime_avg:
  fixes s r defines "d \<equiv> rttDeque (updateRoundTripTime r s)"
  assumes "length (rttDeque s) \<le> 10" and small: "\<forall>r \<in> set d. unat r \<le> 214748364"
  shows "unat (avgRoundTripTime (updateRoundTripTime r s)) = sum_list (map unat d) div length d"
proof -
  have d: "d = drop (length (rttDeque s @ [r]) - 10) (rttDeque s @ [r])"
    unfolding d_def by (rule updateRoundTripTime_deque [OF assms(2)])
  have len: "length d \<le> 10" "d \<noteq> []" unfolding d using assms(2) by auto
  have avg: "avgRoundTripTime (updateRoundTripTime r s) = of_int (sint (sum_list d) sdiv int (length d))"
    using len(2) by (auto simp: d_def updateRoundTripTime_def Let_def)
  from unat_sum_list_small [OF small len(1)] len(1)
  have sum: "unat (sum_list d) = sum_list (map unat d)" "sum_list (map unat d) < 2147483648" by auto
  then have "avgRoundTripTime (updateRoundTripTime r s) = of_nat (sum_list (map unat d) div length d)"
    by (simp add: avg sint_u32_small sdiv_nonneg)
  moreover have "sum_list (map unat d) div length d < 4294967296"
    using sum(2) div_le_dividend [of "sum_list (map unat d)" "length d"] by linarith
  ultimately show ?thesis by (simp add: unat_of_nat_u32)
qed

section \<open>Properties\<close>


text \<open>A table with an idle session that was sent n pings and a closed one, for the witnesses.\<close>

definition demo_manager :: "u64 \<Rightarrow> u64 \<Rightarrow> (unit, unit) client_state session_manager" where
  "demo_manager pings pongs = \<lparr>sessions =
     [(1, \<lparr>obj_sess = (Session 1 0)\<lparr>pingCount := pings, pongCount := pongs\<rparr>,
           obj_recv = BaseBuffer BUFFER_SIZE\<rparr>),
      (2, \<lparr>obj_sess = (Session 2 0)\<lparr>isClosed := True\<rparr>, obj_recv = BaseBuffer BUFFER_SIZE\<rparr>)],
     mgr_app = demo_state, mgr_logs = []\<rparr>"

lemma demo_manager_ok: "mgr_wf (demo_manager pings pongs)"
  by (simp add: mgr_wf_def demo_manager_def Session_def)

lemma demo_manager_find:
  "map_of (sessions (demo_manager pings pongs)) 1 =
     Some \<lparr>obj_sess = (Session 1 0)\<lparr>pingCount := pings, pongCount := pongs\<rparr>,
           obj_recv = BaseBuffer BUFFER_SIZE\<rparr>"
  by (simp add: demo_manager_def)

lemma demo_heartbeat:
  "\<exists>m. Heartbeat (OnDisconnected demo_client) (Some demo_client) 1 (demo_manager pings pongs) = Some m"
proof -
  let ?s = "(Session 1 0)\<lparr>pingCount := pings, pongCount := pongs\<rparr>"
  have live: "\<not> IsTimeout 1 ?s" "\<not> isClosed ?s"
    by (simp_all add: IsTimeout_def TIMEOUT_SECONDS_def Session_def)
  have hb: "OnHeartbeat demo_client s w = Some (s, w)" for s w
    by (simp add: demo_client_def client_service_def client_OnHeartbeat_def)
  have cl: "\<exists>s' w'. Close (OnDisconnected demo_client) s w = Some (s', w')" for s w
    using gc_disc.Close_total by (fastforce simp: demo_client_def client_service_def)
  have "\<exists>s' w' l'. beat (OnDisconnected demo_client) demo_client s w l = Some (s', w', l')"
    for s w l using hb [of s w] cl [of s w] by (auto simp: beat_def)
  then obtain s' w' l' where "beat (OnDisconnected demo_client) demo_client ?s demo_state [] =
      Some (s', w', l')" by blast
  with live show ?thesis
    by (simp add: Heartbeat_def demo_manager_def expired_def close_expired_def Close_def Let_def
        IsTimeout_def TIMEOUT_SECONDS_def Session_def)
qed


text \<open>C39: A client that has answered more pings than it was sent is closed by the next pass: the
  difference of the counters is unsigned and wraps around.\<close>

theorem unsolicited_pong_closes:
  assumes "service_contract svc" and "mgr_wf m"
    and "Heartbeat (OnDisconnected svc) (Some svc) now m = Some m'"
    and "map_of (sessions m) sid = Some ob" and "\<not> expired now ob"
    and "pongCount (obj_sess ob) = pingCount (obj_sess ob) + 1"
  shows "\<exists>ob'. map_of (sessions m') sid = Some ob' \<and> isClosed (obj_sess ob')"
proof -
  have "pingCount (obj_sess ob) - pongCount (obj_sess ob) = - 1" using assms(6) by simp
  then have "6 \<le> pingCount (obj_sess ob) - pongCount (obj_sess ob)"
    by (simp only: word_n1_ge)
  with heartbeat_pass_aux [OF assms(1-3), of sid] assms(4,5) show ?thesis by auto
qed
theorem unsolicited_pong_closes_witness:
  "\<exists>m ob. Heartbeat (OnDisconnected demo_client) (Some demo_client) 1 (demo_manager 3 4) = Some m \<and>
     map_of (sessions m) 1 = Some ob \<and> isClosed (obj_sess ob)"
proof -
  from demo_heartbeat obtain m where
    m: "Heartbeat (OnDisconnected demo_client) (Some demo_client) 1 (demo_manager 3 4) = Some m" by blast
  from unsolicited_pong_closes [OF demo_contract demo_manager_ok m demo_manager_find] m
  show ?thesis by (auto simp: expired_def IsTimeout_def TIMEOUT_SECONDS_def Session_def)
qed

text \<open>The session keeps the last ten round-trip times; while they are at most 214748364 ms the
  average it holds is their truncated mean, and GetRttAvg reports that mean or, when it is zero, 1.\<close>

theorem rtt_window:
  assumes "\<forall>r \<in> set rs. unat r \<le> 214748364" and "rs \<noteq> []"
  shows "let s = fold updateRoundTripTime rs (Session sid now); d = drop (length rs - 10) rs;
             mean = sum_list (map unat d) div length d in
    rttDeque s = d \<and> unat (avgRoundTripTime s) = mean \<and> GetRttAvg s = int (max 1 mean)"
proof -
  let ?new = "Session sid now"
  obtain rs' r where rs: "rs = rs' @ [r]" using assms(2) by (cases rs rule: rev_cases) auto
  let ?s' = "fold updateRoundTripTime rs' ?new" and ?d = "drop (length rs - 10) rs"
  let ?s = "updateRoundTripTime r ?s'" and ?mean = "sum_list (map unat ?d) div length ?d"
  have empty: "rttDeque ?new = []" by (simp add: Session_def)
  have d': "rttDeque ?s' = drop (length rs' - 10) rs'" using updates_deque [of ?new rs'] empty by simp
  have d: "rttDeque ?s = ?d" using updates_deque [of ?new rs, unfolded empty] by (simp add: rs)
  have small: "\<forall>r \<in> set ?d. unat r \<le> 214748364" using assms(1) by (auto dest: in_set_dropD)
  have avg: "unat (avgRoundTripTime ?s) = ?mean"
    using updateRoundTripTime_avg [of ?s' r] small d d' by simp
  have len: "length ?d \<le> 10" by simp
  have "sum_list (map unat ?d) \<le> 10 * 214748364"
    using unat_sum_list_small [OF small len] len by (simp del: length_drop)
  then have "?mean < 2147483648"
    using div_le_dividend [of "sum_list (map unat ?d)" "length ?d"] by linarith
  then have "sint (avgRoundTripTime ?s) = int ?mean"
    using avg sint_u32_small [of "avgRoundTripTime ?s"] by simp
  then have "GetRttAvg ?s = int (max 1 ?mean)" by (simp add: GetRttAvg_def max_def)
  with d avg show ?thesis by (simp add: rs Let_def)
qed

theorem rtt_window_witness:
  "let s = fold updateRoundTripTime [40, 60, 50] (Session 1 0) in
     rttDeque s = [40, 60, 50] \<and> GetRttAvg s = 50"
  using rtt_window [of "[40, 60, 50]" 1 0] by (simp add: Let_def)

end
