(* ===== verification/Cycle_Check.thy ===== *)
theory Cycle_Check
  imports Swarm_Prelude
begin

text \<open>
  DeadlockDetector::CycleCheck of ServerCore/Thread/Lock.cpp: the depth-first search for a cycle in
  the lock order graph. It terminates on every graph, and it finds exactly the cycles through the
  lock it starts at.
\<close>

section \<open>The search\<close>

text \<open>
  The graph maps a lock to the set of locks requested while it was held, here a list. CycleCheck
  returns whether it met the lock current, and the visited locks.
\<close>

type_synonym lock_graph = "(u64 \<times> u64 list) list"

function CycleCheck :: "lock_graph \<Rightarrow> u64 \<Rightarrow> u64 \<Rightarrow> u64 list \<Rightarrow> bool \<times> u64 list"
  and cycle_loop :: "lock_graph \<Rightarrow> u64 \<Rightarrow> u64 list \<Rightarrow> u64 list \<Rightarrow> bool \<times> u64 list" where
  "CycleCheck g current cycleLock visited =
     (if cycleLock \<in> set visited then (False, visited)
      else (case map_of g cycleLock of
              None \<Rightarrow> (False, visited @ [cycleLock])
            | Some locks \<Rightarrow> cycle_loop g current locks (visited @ [cycleLock])))"
| "cycle_loop g current [] visited = (False, visited)"
| "cycle_loop g current (lockAddr # locks) visited =
     (if current = lockAddr then (True, visited)
      else (case CycleCheck g current lockAddr visited of (found, visited1) \<Rightarrow>
              if found then (True, visited1) else cycle_loop g current locks visited1))"
  by pat_completeness auto

section \<open>It terminates\<close>

abbreviation unseen :: "lock_graph \<Rightarrow> u64 list \<Rightarrow> nat" where
  "unseen g visited \<equiv> card (fst ` set g - set visited)"

lemma unseen_mono: "set visited \<subseteq> set visited' \<Longrightarrow> unseen g visited' \<le> unseen g visited"
  by (rule card_mono) auto

lemma unseen_less:
  assumes "map_of g x = Some locks" and "x \<notin> set visited"
  shows "unseen g (visited @ [x]) < unseen g visited"
proof (rule psubset_card_mono)
  have "x \<in> fst ` set g" using assms(1) by (force dest: map_of_SomeD)
  with assms(2) show "fst ` set g - set (visited @ [x]) \<subset> fst ` set g - set visited" by auto
qed simp

text \<open>As far as the search is defined it only adds to the visited locks.\<close>

lemma visited_grows_partial:
  "CycleCheck_cycle_loop_dom (Inl (g, current, x, visited)) \<Longrightarrow>
     set visited \<subseteq> set (snd (CycleCheck g current x visited))"
  "CycleCheck_cycle_loop_dom (Inr (g, current, locks, visited)) \<Longrightarrow>
     set visited \<subseteq> set (snd (cycle_loop g current locks visited))"
proof (induction g current x visited and g current locks visited rule: CycleCheck_cycle_loop.pinduct)
  case (1 g current x visited)
  then show ?case by (auto simp: CycleCheck.psimps split: option.split)
next
  case (2 g current visited)
  then show ?case by (simp add: cycle_loop.psimps)
next
  case (3 g current x locks visited)
  show ?case
  proof (cases "current = x")
    case False
    obtain found v1 where v1: "CycleCheck g current x visited = (found, v1)" by fastforce
    with 3 False show ?thesis
      by (cases found) (force simp: cycle_loop.psimps)+
  qed (use 3 in \<open>simp add: cycle_loop.psimps\<close>)
qed

termination CycleCheck
proof (relation "measures [\<lambda>x. case x of Inl (g, c, l, v) \<Rightarrow> unseen g v | Inr (g, c, ls, v) \<Rightarrow> unseen g v,
    \<lambda>x. case x of Inl _ \<Rightarrow> 0 | Inr (g, c, ls, v) \<Rightarrow> length ls]", goal_cases)
  case (2 g current x visited locks)
  then show ?case using unseen_less by auto
next
  case (4 g current x locks visited found visited1)
  from 4(2) [symmetric] visited_grows_partial(1) [OF 4(4)]
  have "unseen g visited1 \<le> unseen g visited" by (intro unseen_mono) simp
  then show ?case by (auto simp: less_Suc_eq)
qed simp_all

declare CycleCheck.simps [simp del]

section \<open>It is right\<close>

text \<open>The edges of the graph.\<close>

definition succs :: "lock_graph \<Rightarrow> u64 \<Rightarrow> u64 list" where
  "succs g x = (case map_of g x of None \<Rightarrow> [] | Some locks \<Rightarrow> locks)"

definition edges :: "lock_graph \<Rightarrow> (u64 \<times> u64) set" where
  "edges g = {(x, y). y \<in> set (succs g x)}"

lemma edges_iff [simp]: "(x, y) \<in> edges g \<longleftrightarrow> y \<in> set (succs g x)"
  by (simp add: edges_def)

lemma visited_grows:
  "set visited \<subseteq> set (snd (CycleCheck g current x visited))"
  "set visited \<subseteq> set (snd (cycle_loop g current locks visited))"
proof (induction g current x visited and g current locks visited rule: CycleCheck_cycle_loop.induct)
  case (3 g current x locks visited)
  obtain found v1 where "CycleCheck g current x visited = (found, v1)" by fastforce
  with 3 show ?case by (cases "current = x"; cases found) (auto dest: subset_trans)
qed (auto simp: CycleCheck.simps split: option.split)

text \<open>An answer True comes with a path.\<close>

lemma found_path:
  "fst (CycleCheck g current x visited) \<Longrightarrow> (x, current) \<in> (edges g)\<^sup>+"
  "fst (cycle_loop g current locks visited) \<Longrightarrow> \<exists>l \<in> set locks. (l, current) \<in> (edges g)\<^sup>*"
proof (induction g current x visited and g current locks visited rule: CycleCheck_cycle_loop.induct)
  case (1 g current x visited)
  then obtain locks where locks: "map_of g x = Some locks" "x \<notin> set visited"
    "fst (cycle_loop g current locks (visited @ [x]))"
    by (auto simp: CycleCheck.simps split: if_splits option.splits)
  with 1 obtain l where "l \<in> set locks" "(l, current) \<in> (edges g)\<^sup>*" by blast
  with locks show ?case by (auto simp: succs_def intro: rtrancl_into_trancl2)
next
  case (3 g current x locks visited)
  show ?case
  proof (cases "current = x")
    case False
    obtain found v1 where v1: "CycleCheck g current x visited = (found, v1)" by fastforce
    with 3 False show ?thesis by (cases found) (auto simp: trancl_into_rtrancl)
  qed simp
qed simp

text \<open>After an answer False the newly visited locks lead only to visited locks, never to the goal.\<close>

definition explored :: "lock_graph \<Rightarrow> u64 \<Rightarrow> u64 set \<Rightarrow> u64 set \<Rightarrow> bool" where
  "explored g current X V \<longleftrightarrow> (\<forall>x \<in> X. set (succs g x) \<subseteq> V \<and> current \<notin> set (succs g x))"

lemma explored_join:
  assumes "explored g current (V1 - V) V1" and "explored g current (V2 - V1) V2" and "V1 \<subseteq> V2"
  shows "explored g current (V2 - V) V2"
  using assms unfolding explored_def by blast

lemma not_found:
  "\<not> fst (CycleCheck g current x visited) \<Longrightarrow>
     let V = set (snd (CycleCheck g current x visited)) in x \<in> V \<and> explored g current (V - set visited) V"
  "\<not> fst (cycle_loop g current locks visited) \<Longrightarrow>
     let V = set (snd (cycle_loop g current locks visited)) in
       set locks \<subseteq> V \<and> current \<notin> set locks \<and> explored g current (V - set visited) V"
proof (induction g current x visited and g current locks visited rule: CycleCheck_cycle_loop.induct)
  case (1 g current x visited)
  show ?case
  proof (cases "x \<in> set visited")
    case True
    then show ?thesis by (simp add: CycleCheck.simps explored_def Let_def)
  next
    case False
    show ?thesis
    proof (cases "map_of g x")
      case None
      then have "succs g x = []" by (simp add: succs_def)
      with None False show ?thesis by (auto simp: CycleCheck.simps explored_def Let_def)
    next
      case (Some locks)
      let ?V = "set (snd (cycle_loop g current locks (visited @ [x])))"
      have eq: "CycleCheck g current x visited = cycle_loop g current locks (visited @ [x])"
        using False Some by (simp add: CycleCheck.simps)
      with 1 False Some have V: "set locks \<subseteq> ?V" "current \<notin> set locks"
        "explored g current (?V - set (visited @ [x])) ?V" by (simp_all add: Let_def)
      have x: "x \<in> ?V" using visited_grows(2) [of "visited @ [x]" g current locks] by auto
      have "set (succs g x) = set locks" using Some by (simp add: succs_def)
      with V x show ?thesis by (auto simp: eq explored_def Let_def)
    qed
  qed
next
  case (2 g current visited)
  then show ?case by (simp add: explored_def)
next
  case (3 g current x locks visited)
  obtain found v1 where v1: "CycleCheck g current x visited = (found, v1)" by fastforce
  from 3(3) v1 have ne: "current \<noteq> x" "\<not> found" by (auto split: if_splits)
  then have eq: "cycle_loop g current (x # locks) visited = cycle_loop g current locks v1"
    using v1 by simp
  let ?V = "set (snd (cycle_loop g current locks v1))"
  have 1: "x \<in> set v1" "explored g current (set v1 - set visited) (set v1)"
    using 3(1) ne v1 by (auto simp: Let_def)
  have 2: "set locks \<subseteq> ?V" "current \<notin> set locks" "explored g current (?V - set v1) ?V"
    using 3(2) [OF ne(1) v1 [symmetric] ne(2)] 3(3) eq by (auto simp: Let_def)
  have "set v1 \<subseteq> ?V" by (rule visited_grows)
  with explored_join [OF 1(2) 2(3)] 1(1) 2(1,2) ne(1) show ?case
    unfolding eq Let_def by auto
qed

lemma CycleCheck_iff: "fst (CycleCheck g x x []) \<longleftrightarrow> (x, x) \<in> (edges g)\<^sup>+"
proof
  assume "(x, x) \<in> (edges g)\<^sup>+"
  show "fst (CycleCheck g x x [])"
  proof (rule ccontr)
    assume no: "\<not> fst (CycleCheck g x x [])"
    let ?V = "set (snd (CycleCheck g x x []))"
    have V: "x \<in> ?V" "explored g x ?V ?V" using not_found(1) [OF no] by (simp_all add: Let_def)
    have "y \<in> ?V \<and> y \<noteq> x" if "(x, y) \<in> (edges g)\<^sup>+" for y
      using that
    proof (induction rule: trancl_induct)
      case (base y)
      with V show ?case by (auto simp: explored_def)
    next
      case (step y z)
      then have "y \<in> ?V" "z \<in> set (succs g y)" by auto
      with V(2) show ?case by (auto simp: explored_def)
    qed
    with \<open>(x, x) \<in> (edges g)\<^sup>+\<close> show False by blast
  qed
qed (rule found_path(1))

text \<open>Every visited lock is the first one or has been requested while another was held.\<close>

lemma visited_reachable:
  "set (snd (CycleCheck g current x visited)) \<subseteq> set visited \<union> {x} \<union> Range (edges g)"
  "set locks \<subseteq> Range (edges g) \<Longrightarrow>
     set (snd (cycle_loop g current locks visited)) \<subseteq> set visited \<union> Range (edges g)"
proof (induction g current x visited and g current locks visited rule: CycleCheck_cycle_loop.induct)
  case (1 g current x visited)
  show ?case
  proof (cases "x \<in> set visited \<or> map_of g x = None")
    case False
    then obtain locks where locks: "map_of g x = Some locks" "x \<notin> set visited" by auto
    then have "set locks = edges g `` {x}" by (auto simp: succs_def)
    then have "set locks \<subseteq> Range (edges g)" by auto
    with 1 locks show ?thesis by (simp add: CycleCheck.simps)
  qed (auto simp: CycleCheck.simps)
next
  case (3 g current x locks visited)
  obtain found v1 where v1: "CycleCheck g current x visited = (found, v1)" by fastforce
  have locks: "x \<in> Range (edges g)" "set locks \<subseteq> Range (edges g)" using 3(3) by simp_all
  show ?case
  proof (cases "current = x")
    case False
    have 1: "set v1 \<subseteq> set visited \<union> Range (edges g)" using 3(1) [OF False] v1 locks(1) by auto
    show ?thesis
    proof (cases found)
      case False
      from 3(2) [OF \<open>current \<noteq> x\<close> v1 [symmetric] False locks(2)] 1 False v1 \<open>current \<noteq> x\<close>
      show ?thesis by auto
    qed (use 1 v1 \<open>current \<noteq> x\<close> in simp)
  qed simp
qed simp

end
