(* ===== verification/Lock_Order.thy ===== *)
theory Lock_Order
  imports Cycle_Check
begin

text \<open>
  The deadlock detector (ServerCore/Thread/Lock.cpp) and the two guards that use it (LockGuard.cpp),
  in a debug build, where the detector is switched on. A world has threads that request, take and
  release locks; the step relation interleaves them. Taking a mutex blocks while it is owned.
\<close>

section \<open>The detector\<close>

record detector =
  isCheck :: bool
  lockGraph :: lock_graph
  lockLog :: "(u64 \<times> string) list"

definition no_detector :: detector where
  "no_detector = \<lparr>isCheck = False, lockGraph = [], lockLog = []\<rparr>"

definition detector_Init :: "detector \<Rightarrow> detector" where
  "detector_Init d = d\<lparr>isCheck := True\<rparr>"

definition detector_Shutdown :: "detector \<Rightarrow> detector" where
  "detector_Shutdown d = d\<lparr>isCheck := False\<rparr>"

text \<open>
  How the process ends: with the report of the classes on the path, or while it is printed, when
  a lock of the path has no entry in the log and the end iterator is dereferenced.
\<close>

datatype lock_crash = DEADLOCK_DETECTED "string list" | BAD_LOG_ENTRY

definition CrashDeadLock :: "(u64 \<times> string) list \<Rightarrow> u64 list \<Rightarrow> lock_crash" where
  "CrashDeadLock log visited =
     (case those (map (map_of log) visited) of
        None \<Rightarrow> BAD_LOG_ENTRY
      | Some classNames \<Rightarrow> DEADLOCK_DETECTED classNames)"

definition set_insert :: "'a \<Rightarrow> 'a list \<Rightarrow> 'a list" where
  "set_insert x xs = (if x \<in> set xs then xs else xs @ [x])"

definition add_edge :: "u64 \<Rightarrow> u64 \<Rightarrow> lock_graph \<Rightarrow> lock_graph" where
  "add_edge hold req g = hm_assign hold (set_insert req (succs g hold)) g"

text \<open>hold is LHoldLock, the stack of the calling thread, with its top first.\<close>

definition LockRequest ::
  "u64 list \<Rightarrow> u64 \<Rightarrow> string \<Rightarrow> detector \<Rightarrow> lock_crash + detector" where
  "LockRequest hold lock name d =
     (if isCheck d
      then (case hold of
              [] \<Rightarrow> Inr d
            | holdLock # _ \<Rightarrow>
                let d1 = d\<lparr>lockGraph := add_edge holdLock lock (lockGraph d),
                           lockLog := hm_assign lock name (lockLog d)\<rparr>;
                    (cycle, visited) = CycleCheck (lockGraph d1) lock lock []
                in if cycle then Inl (CrashDeadLock (lockLog d1) (visited @ [lock])) else Inr d1)
      else Inr d)"

definition LockAcquired :: "detector \<Rightarrow> u64 \<Rightarrow> u64 list \<Rightarrow> u64 list" where
  "LockAcquired d lock hold = (if isCheck d then lock # hold else hold)"

definition LockRelease :: "detector \<Rightarrow> u64 list \<Rightarrow> u64 list" where
  "LockRelease d hold = (if isCheck d \<and> hold \<noteq> [] then tl hold else hold)"

section \<open>Threads\<close>

record 'tid lock_world =
  det :: detector
  held :: "'tid \<Rightarrow> u64 list"
  owner :: "u64 \<Rightarrow> 'tid option"
  waits :: "'tid \<Rightarrow> u64 option"

definition lock_init :: "'tid lock_world" where
  "lock_init = \<lparr>det = detector_Init no_detector, held = (\<lambda>_. []), owner = (\<lambda>_. None),
     waits = (\<lambda>_. None)\<rparr>"

text \<open>
  The constructor of a guard is the steps request and acquire, its destructor the step release.
  Guards that live in nested scopes release the lock taken last; nested says that all do.
\<close>

inductive lock_step :: "bool \<Rightarrow> 'tid lock_world \<Rightarrow> 'tid lock_world \<Rightarrow> bool" for nested where
  request: "waits s t = None \<Longrightarrow> LockRequest (held s t) l name (det s) = Inr d \<Longrightarrow>
     lock_step nested s (s\<lparr>det := d, waits := (waits s)(t \<mapsto> l)\<rparr>)"
| acquire: "waits s t = Some l \<Longrightarrow> owner s l = None \<Longrightarrow>
     lock_step nested s (s\<lparr>owner := (owner s)(l \<mapsto> t),
       held := (held s)(t := LockAcquired (det s) l (held s t)), waits := (waits s)(t := None)\<rparr>)"
| release: "waits s t = None \<Longrightarrow> owner s l = Some t \<Longrightarrow> (nested \<longrightarrow> hd (held s t) = l) \<Longrightarrow>
     lock_step nested s (s\<lparr>owner := (owner s)(l := None),
       held := (held s)(t := LockRelease (det s) (held s t))\<rparr>)"

inductive lock_reach :: "bool \<Rightarrow> 'tid lock_world \<Rightarrow> bool" for nested where
  start: "lock_reach nested lock_init"
| step: "lock_reach nested s \<Longrightarrow> lock_step nested s s' \<Longrightarrow> lock_reach nested s'"

definition waits_for :: "'tid lock_world \<Rightarrow> ('tid \<times> 'tid) set" where
  "waits_for s = {(t, u). \<exists>l. waits s t = Some l \<and> owner s l = Some u}"

section \<open>Requests\<close>

lemma edges_add [simp]: "edges (add_edge x y g) = insert (x, y) (edges g)"
proof -
  have "succs (add_edge x y g) z = (if z = x then set_insert y (succs g x) else succs g z)" for z
    by (simp add: succs_def add_edge_def hm_simps)
  moreover have "set (set_insert y (succs g x)) = insert y (set (succs g x))"
    by (auto simp: set_insert_def)
  ultimately show ?thesis by (auto simp: edges_def split: if_splits)
qed

lemma LockRequest_granted:
  assumes "LockRequest hold l name d = Inr d'" and "isCheck d"
  shows "hold = [] \<and> d' = d \<or> hold \<noteq> [] \<and> isCheck d' \<and>
    edges (lockGraph d') = insert (hd hold, l) (edges (lockGraph d)) \<and>
    dom (map_of (lockLog d')) = insert l (dom (map_of (lockLog d))) \<and>
    (l, l) \<notin> (edges (lockGraph d'))\<^sup>+"
proof (cases hold)
  case Nil
  with assms show ?thesis by (simp add: LockRequest_def)
next
  case (Cons h hs)
  let ?g = "add_edge h l (lockGraph d)"
  from Cons assms have "\<not> fst (CycleCheck ?g l l [])"
    and "d' = d\<lparr>lockGraph := ?g, lockLog := hm_assign l name (lockLog d)\<rparr>"
    by (simp_all add: LockRequest_def Let_def split_beta split: if_splits)
  with Cons assms(2) show ?thesis by (simp add: CycleCheck_iff hm_simps)
qed

lemma LockRequest_free [simp]: "LockRequest [] l name d = Inr d"
  by (simp add: LockRequest_def)

text \<open>A new edge that closes no cycle through its target closes no cycle.\<close>

lemma acyclic_insert_target:
  assumes "acyclic E" and "(y, y) \<notin> (insert (x, y) E)\<^sup>+"
  shows "acyclic (insert (x, y) E)"
proof -
  have "(y, x) \<notin> E\<^sup>*"
  proof
    assume "(y, x) \<in> E\<^sup>*"
    then have "(y, x) \<in> (insert (x, y) E)\<^sup>*" by (rule rtrancl_mono [THEN subsetD, rotated]) blast
    then have "(y, y) \<in> (insert (x, y) E)\<^sup>+" by (rule rtrancl_into_trancl1) simp
    with assms(2) show False ..
  qed
  with assms(1) show ?thesis by (simp add: acyclic_insert)
qed

section \<open>The invariant of nested locking\<close>

text \<open>
  Consecutive locks of a stack are joined by edges, and so are its top and the awaited lock; the
  stacks hold exactly the owned locks; the graph has no cycle and every target of an edge a name.
\<close>

definition chained :: "(u64 \<times> u64) set \<Rightarrow> u64 list \<Rightarrow> bool" where
  "chained E ls \<longleftrightarrow> (\<forall>i. Suc i < length ls \<longrightarrow> (ls ! Suc i, ls ! i) \<in> E)"

definition lock_inv :: "'tid lock_world \<Rightarrow> bool" where
  "lock_inv s \<longleftrightarrow> isCheck (det s) \<and> acyclic (edges (lockGraph (det s))) \<and>
     Range (edges (lockGraph (det s))) \<subseteq> dom (map_of (lockLog (det s))) \<and>
     (\<forall>t. chained (edges (lockGraph (det s))) (held s t)) \<and>
     (\<forall>t l. waits s t = Some l \<longrightarrow> held s t \<noteq> [] \<longrightarrow> (hd (held s t), l) \<in> edges (lockGraph (det s))) \<and>
     (\<forall>t l. l \<in> set (held s t) \<longleftrightarrow> owner s l = Some t) \<and> (\<forall>t. distinct (held s t))"

lemma chained_simps [simp]: "chained E []"
  "chained E (l # ls) \<longleftrightarrow> (ls \<noteq> [] \<longrightarrow> (hd ls, l) \<in> E) \<and> chained E ls"
  by (auto simp: chained_def nth_Cons hd_conv_nth split: nat.splits)

lemma chained_mono: "chained E ls \<Longrightarrow> E \<subseteq> E' \<Longrightarrow> chained E' ls"
  by (auto simp: chained_def)

lemma chained_tl: "chained E ls \<Longrightarrow> chained E (tl ls)"
  by (cases ls) auto

text \<open>From a lock of the stack a path of edges leads to its top.\<close>

lemma chained_path: "chained E ls \<Longrightarrow> l \<in> set ls \<Longrightarrow> (l, hd ls) \<in> E\<^sup>*"
proof (induction ls)
  case (Cons x ls)
  then show ?case by (cases ls) (auto intro: rtrancl_into_rtrancl)
qed simp

lemma lock_inv_request:
  assumes inv: "lock_inv s" and idle: "waits s t = None" and req: "LockRequest (held s t) l name (det s) = Inr d"
  shows "lock_inv (s\<lparr>det := d, waits := (waits s)(t \<mapsto> l)\<rparr>)"
proof -
  have on: "isCheck (det s)" using inv by (simp add: lock_inv_def)
  from LockRequest_granted [OF req on] consider (none) "held s t = []" "d = det s"
    | (edge) "held s t \<noteq> []" "isCheck d"
        "edges (lockGraph d) = insert (hd (held s t), l) (edges (lockGraph (det s)))"
        "dom (map_of (lockLog d)) = insert l (dom (map_of (lockLog (det s))))"
        "(l, l) \<notin> (edges (lockGraph d))\<^sup>+" by blast
  then show ?thesis
  proof cases
    case none
    with inv show ?thesis by (auto simp: lock_inv_def)
  next
    case edge
    have "acyclic (edges (lockGraph d))"
      unfolding edge(3) using inv edge(5) [unfolded edge(3)]
      by (intro acyclic_insert_target) (simp_all add: lock_inv_def)
    moreover have "chained (edges (lockGraph d)) (held s u)" for u
      using inv edge(3) by (auto simp: lock_inv_def intro: chained_mono)
    ultimately show ?thesis using inv edge by (auto simp: lock_inv_def)
  qed
qed

lemma lock_inv_release:
  assumes inv: "lock_inv s" and own: "owner s l = Some t" and idle: "waits s t = None"
    and last: "hd (held s t) = l"
  shows "lock_inv (s\<lparr>owner := (owner s)(l := None),
       held := (held s)(t := LockRelease (det s) (held s t))\<rparr>)"
proof -
  have "l \<in> set (held s t)" using inv own by (simp add: lock_inv_def)
  then obtain hs where hs: "held s t = l # hs" using last by (cases "held s t") auto
  have mem: "m \<in> set (l # hs) \<longleftrightarrow> owner s m = Some t" for m
    using inv unfolding lock_inv_def hs [symmetric] by blast
  have "distinct (l # hs)" using inv unfolding lock_inv_def hs [symmetric] by blast
  with mem have "m \<in> set hs \<longleftrightarrow> m \<noteq> l \<and> owner s m = Some t" for m by auto
  moreover have "chained (edges (lockGraph (det s))) hs"
    using inv hs chained_tl by (metis list.sel(3) lock_inv_def)
  ultimately show ?thesis
    using inv idle own hs \<open>distinct (l # hs)\<close> by (auto simp: lock_inv_def LockRelease_def)
qed

lemma lock_inv_step: "lock_step True s s' \<Longrightarrow> lock_inv s \<Longrightarrow> lock_inv s'"
proof (induction rule: lock_step.induct)
  case (request s t l name d)
  then show ?case by (simp add: lock_inv_request)
next
  case (acquire s t l)
  then have "l \<notin> set (held s u)" for u by (auto simp: lock_inv_def)
  with acquire show ?case by (auto simp: lock_inv_def LockAcquired_def)
next
  case (release s t l)
  then show ?case by (simp add: lock_inv_release)
qed

lemma lock_inv_reach: "lock_reach True s \<Longrightarrow> lock_inv s"
proof (induction rule: lock_reach.induct)
  case start
  show ?case by (simp add: lock_inv_def lock_init_def detector_Init_def no_detector_def edges_def
        succs_def acyclic_def)
next
  case (step s s')
  then show ?case by (simp add: lock_inv_step)
qed

text \<open>A chain of waiting threads is a path of edges between the locks they wait for.\<close>

lemma waiting_path:
  assumes inv: "lock_inv s" and "(t, u) \<in> (waits_for s)\<^sup>+"
    and "waits s t = Some l" and "waits s u = Some l'"
  shows "(l, l') \<in> (edges (lockGraph (det s)))\<^sup>+"
  using assms(2,4)
proof (induction arbitrary: l' rule: trancl_induct)
  have hop: "(m, m') \<in> (edges (lockGraph (det s)))\<^sup>+"
    if "waits s x = Some m" "owner s m = Some y" "waits s y = Some m'" for x y m m'
  proof -
    have m: "m \<in> set (held s y)" using inv that by (simp add: lock_inv_def)
    then have "(m, hd (held s y)) \<in> (edges (lockGraph (det s)))\<^sup>*"
      using inv by (auto simp: lock_inv_def intro: chained_path)
    moreover have "(hd (held s y), m') \<in> edges (lockGraph (det s))"
      using inv that m unfolding lock_inv_def by (metis empty_iff empty_set)
    ultimately show ?thesis by (rule rtrancl_into_trancl1)
  qed
  {
    case (base y)
    with assms(3) show ?case by (auto simp: waits_for_def intro: hop)
  next
    case (step y z)
    then obtain m where m: "waits s y = Some m" "owner s m = Some z" by (auto simp: waits_for_def)
    with step have "(l, m) \<in> (edges (lockGraph (det s)))\<^sup>+" by blast
    from this hop [OF m step(4)] show ?case by (rule trancl_trans)
  }
qed

section \<open>Guards\<close>

text \<open>
  What a guard does to its lock: Acquire is a request followed by taking the mutex, Release frees
  the mutex and pops the stack. UniqueLockGuard can hold a null pointer; it then crashes.
\<close>

datatype lock_action = Acquire u64 "string option" | Release u64

definition LockGuard_actions :: "u64 \<Rightarrow> string \<Rightarrow> lock_action list \<times> lock_action list" where
  "LockGuard_actions lock name = ([Acquire lock (Some name)], [Release lock])"

record unique_guard =
  guard_lock :: "u64 option"
  owns :: bool
  className :: "string option"

definition UniqueLockGuard_default :: unique_guard where
  "UniqueLockGuard_default = \<lparr>guard_lock = None, owns = False, className = None\<rparr>"

definition CallLock :: "unique_guard \<Rightarrow> (lock_action list \<times> unique_guard) option" where
  "CallLock g =
     (case guard_lock g of
        None \<Rightarrow> None
      | Some l \<Rightarrow> Some ([Acquire l (className g)], g\<lparr>owns := True\<rparr>))"

definition UniqueLockGuard :: "u64 \<Rightarrow> string \<Rightarrow> (lock_action list \<times> unique_guard) option" where
  "UniqueLockGuard l name = CallLock \<lparr>guard_lock = Some l, owns = False, className = Some name\<rparr>"

definition ug_lock :: "unique_guard \<Rightarrow> (lock_action list \<times> unique_guard) option" where
  "ug_lock g = do {
     assert_crash (guard_lock g \<noteq> None);
     (if \<not> owns g then CallLock g else Some ([], g)) }"

definition ug_unlock :: "unique_guard \<Rightarrow> (lock_action list \<times> unique_guard) option" where
  "ug_unlock g = do {
     assert_crash (guard_lock g \<noteq> None);
     (if owns g then Some ([Release (the (guard_lock g))], g\<lparr>owns := False\<rparr>) else Some ([], g)) }"

definition ug_destroy :: "unique_guard \<Rightarrow> (lock_action list \<times> unique_guard) option" where
  "ug_destroy g = ug_unlock g"

text \<open>The move constructor: the new guard and what is left of the old one.\<close>

definition ug_move :: "unique_guard \<Rightarrow> unique_guard \<times> unique_guard" where
  "ug_move other = (other, \<lparr>guard_lock = None, owns = False, className = None\<rparr>)"

text \<open>Move assignment of two different guards; the class name stays behind.\<close>

definition ug_move_assign ::
  "unique_guard \<Rightarrow> unique_guard \<Rightarrow> (lock_action list \<times> unique_guard \<times> unique_guard) option" where
  "ug_move_assign this other = do {
     (acts, g) \<leftarrow> ug_unlock this;
     Some (acts, g\<lparr>guard_lock := guard_lock other, owns := owns other\<rparr>,
           other\<lparr>guard_lock := None, owns := False\<rparr>) }"

text \<open>A sequence of calls on a guard, True for lock and False for unlock.\<close>

fun ug_calls :: "bool list \<Rightarrow> unique_guard \<Rightarrow> (lock_action list \<times> unique_guard) option" where
  "ug_calls [] g = Some ([], g)"
| "ug_calls (c # cs) g = do {
     (as1, g1) \<leftarrow> (if c then ug_lock g else ug_unlock g);
     (as2, g2) \<leftarrow> ug_calls cs g1;
     Some (as1 @ as2, g2) }"

text \<open>Actions on one lock that take turns, from whether it is held to whether it is.\<close>

fun turns :: "u64 \<Rightarrow> bool \<Rightarrow> lock_action list \<Rightarrow> bool \<Rightarrow> bool" where
  "turns l b [] b' \<longleftrightarrow> b = b'"
| "turns l b (Acquire m n # as) b' \<longleftrightarrow> m = l \<and> \<not> b \<and> turns l True as b'"
| "turns l b (Release m # as) b' \<longleftrightarrow> m = l \<and> b \<and> turns l False as b'"

lemma turns_append: "turns l b as1 b1 \<Longrightarrow> turns l b1 as2 b2 \<Longrightarrow> turns l b (as1 @ as2) b2"
  by (induction l b as1 b1 rule: turns.induct) auto

lemma ug_call_turns:
  assumes "guard_lock g = Some l"
  shows "\<exists>as g'. (if c then ug_lock g else ug_unlock g) = Some (as, g') \<and>
    guard_lock g' = Some l \<and> turns l (owns g) as (owns g')"
  using assms by (auto simp: ug_lock_def ug_unlock_def CallLock_def)

lemma ug_calls_turns:
  "guard_lock g = Some l \<Longrightarrow> \<exists>as g'. ug_calls cs g = Some (as, g') \<and>
     guard_lock g' = Some l \<and> turns l (owns g) as (owns g')"
proof (induction cs arbitrary: g)
  case (Cons c cs)
  from ug_call_turns [OF Cons.prems, of c] obtain as1 g1 where 1:
    "(if c then ug_lock g else ug_unlock g) = Some (as1, g1)" "guard_lock g1 = Some l"
    "turns l (owns g) as1 (owns g1)" by blast
  from Cons.IH [OF 1(2)] obtain as2 g2 where "ug_calls cs g1 = Some (as2, g2)"
    "guard_lock g2 = Some l" "turns l (owns g1) as2 (owns g2)" by blast
  with 1 show ?case by (auto intro: turns_append)
qed simp

section \<open>Running a schedule\<close>

text \<open>A schedule of steps, run from a state; None where a step is not possible.\<close>

datatype 'tid lock_cmd = Request 'tid u64 string | Take 'tid | Free 'tid u64

fun lock_exec :: "bool \<Rightarrow> 'tid lock_cmd list \<Rightarrow> 'tid lock_world \<Rightarrow> 'tid lock_world option" where
  "lock_exec nested [] s = Some s"
| "lock_exec nested (Request t l name # cs) s =
     (case LockRequest (held s t) l name (det s) of
        Inl _ \<Rightarrow> None
      | Inr d \<Rightarrow> if waits s t = None
                 then lock_exec nested cs (s\<lparr>det := d, waits := (waits s)(t \<mapsto> l)\<rparr>) else None)"
| "lock_exec nested (Take t # cs) s =
     (case waits s t of
        None \<Rightarrow> None
      | Some l \<Rightarrow> if owner s l = None
                  then lock_exec nested cs (s\<lparr>owner := (owner s)(l \<mapsto> t),
                    held := (held s)(t := LockAcquired (det s) l (held s t)),
                    waits := (waits s)(t := None)\<rparr>) else None)"
| "lock_exec nested (Free t l # cs) s =
     (if waits s t = None \<and> owner s l = Some t \<and> (nested \<longrightarrow> hd (held s t) = l)
      then lock_exec nested cs (s\<lparr>owner := (owner s)(l := None),
             held := (held s)(t := LockRelease (det s) (held s t))\<rparr>) else None)"

lemma lock_exec_reach: "lock_exec nested cs s = Some s' \<Longrightarrow> lock_reach nested s \<Longrightarrow> lock_reach nested s'"
proof (induction nested cs s rule: lock_exec.induct)
  case (2 nested t l name cs s)
  then show ?case
    by (auto split: sum.splits if_splits intro: lock_reach.step lock_step.request)
next
  case (3 nested t cs s)
  then show ?case
    by (auto split: option.splits if_splits intro: lock_reach.step lock_step.acquire)
next
  case (4 nested t l cs s)
  then show ?case
    by (auto split: if_splits intro: lock_reach.step lock_step.release)
qed simp

text \<open>Thread 1 takes locks 10 and 11, thread 2 waits for 10.\<close>

definition demo_schedule :: "nat lock_cmd list" where
  "demo_schedule = [Request 1 10 ''A'', Take 1, Request 1 11 ''B'', Take 1, Request 2 10 ''A'']"

lemmas lock_eval = lock_init_def detector_Init_def no_detector_def LockRequest_def CycleCheck.simps
  add_edge_def succs_def set_insert_def LockAcquired_def LockRelease_def Let_def

lemma demo_locks:
  "\<exists>s :: nat lock_world. lock_reach True s \<and> held s 1 = [11, 10] \<and> (2, 1) \<in> waits_for s \<and> isCheck (det s) \<and>
     edges (lockGraph (det s)) = {(10, 11)}"
proof -
  have "\<exists>s. lock_exec True demo_schedule lock_init = Some s \<and> held s 1 = [11, 10] \<and>
      waits s 2 = Some 10 \<and> owner s 10 = Some 1 \<and> isCheck (det s) \<and> lockGraph (det s) = [(10, [11])]"
    by (simp add: demo_schedule_def lock_eval)
  then obtain s where s: "lock_exec True demo_schedule lock_init = Some s" "held s 1 = [11, 10]"
    "waits s 2 = Some 10" "owner s 10 = Some 1" "isCheck (det s)" "lockGraph (det s) = [(10, [11])]"
    by blast
  have "lock_reach True s" by (rule lock_exec_reach [OF s(1) lock_reach.start])
  moreover have "edges (lockGraph (det s)) = {(10, 11)}"
    using s(6) by (auto simp: edges_def succs_def split: if_splits)
  ultimately show ?thesis using s by (auto simp: waits_for_def)
qed

section \<open>Properties\<close>

text \<open>C21: The search answers True exactly when the start lies on a cycle of the lock order
  graph.\<close>

theorem CycleCheck_correct: "fst (CycleCheck g x x []) \<longleftrightarrow> (x, x) \<in> (edges g)\<^sup>+"
  by (rule CycleCheck_iff)

text \<open>C4: When every thread releases its locks in the reverse order of taking them, no reachable
  state has a circle of threads each waiting for a lock the next one owns, not even a thread that
  waits for a lock of its own: the detector stops the process first.\<close>

theorem no_circular_wait:
  assumes "lock_reach True s"
  shows "acyclic (waits_for s)"
proof (rule acyclicI, rule allI, rule notI)
  fix t assume cyc: "(t, t) \<in> (waits_for s)\<^sup>+"
  then obtain l where l: "waits s t = Some l" by (auto simp: waits_for_def dest: tranclD)
  have inv: "lock_inv s" by (rule lock_inv_reach [OF assms])
  from waiting_path [OF inv cyc l l] inv show False by (auto simp: lock_inv_def acyclic_def)
qed

theorem no_circular_wait_witness:
  "\<exists>s :: nat lock_world. (2, 1) \<in> waits_for s \<and> acyclic (waits_for s)"
proof -
  from demo_locks obtain s :: "nat lock_world" where "lock_reach True s" "(2, 1) \<in> waits_for s" by blast
  with no_circular_wait [of s] show ?thesis by blast
qed

text \<open>A request is refused exactly when it closes a cycle with the lock the thread took last,
  and then the report names a class for every visited lock: in a reachable state of nested locking
  the crash handler never dereferences a missing log entry.\<close>

theorem deadlock_report:
  assumes "lock_reach True s"
  shows "(held s t = [] \<longrightarrow> LockRequest (held s t) l name (det s) = Inr (det s)) \<and>
    (\<forall>h hs. held s t = h # hs \<longrightarrow>
       ((l, l) \<in> (insert (h, l) (edges (lockGraph (det s))))\<^sup>+ \<longleftrightarrow>
         (\<exists>names. LockRequest (held s t) l name (det s) = Inl (DEADLOCK_DETECTED names))) \<and>
       LockRequest (held s t) l name (det s) \<noteq> Inl BAD_LOG_ENTRY)"
proof (intro conjI allI impI)
  have inv: "lock_inv s" by (rule lock_inv_reach [OF assms])
  fix h hs assume hs: "held s t = h # hs"
  let ?g = "add_edge h l (lockGraph (det s))" and ?log = "hm_assign l name (lockLog (det s))"
  obtain found v where v: "CycleCheck ?g l l [] = (found, v)" by fastforce
  have "set v \<subseteq> {l} \<union> Range (edges ?g)" using visited_reachable(1) [of ?g l l "[]"] v by simp
  also have "\<dots> \<subseteq> dom (map_of ?log)" using inv by (auto simp: lock_inv_def hm_simps)
  finally have "\<forall>x \<in> set (v @ [l]). map_of ?log x \<noteq> None" by (auto simp: hm_simps)
  then obtain names where "those (map (map_of ?log) (v @ [l])) = Some names"
    using those_map_Some by blast
  then have "LockRequest (held s t) l name (det s) =
      (if found then Inl (DEADLOCK_DETECTED names)
       else Inr ((det s)\<lparr>lockGraph := ?g, lockLog := ?log\<rparr>))"
    using inv hs v by (simp add: LockRequest_def Let_def lock_inv_def CrashDeadLock_def)
  moreover have "found \<longleftrightarrow> (l, l) \<in> (insert (h, l) (edges (lockGraph (det s))))\<^sup>+"
    using CycleCheck_iff [of ?g l] v by simp
  ultimately show "(l, l) \<in> (insert (h, l) (edges (lockGraph (det s))))\<^sup>+ \<longleftrightarrow>
      (\<exists>names. LockRequest (held s t) l name (det s) = Inl (DEADLOCK_DETECTED names))"
    and "LockRequest (held s t) l name (det s) \<noteq> Inl BAD_LOG_ENTRY" by auto
qed simp

theorem deadlock_report_witness:
  "\<exists>s :: nat lock_world. held s 1 = [11, 10] \<and>
     (\<exists>names. LockRequest (held s 1) 10 ''A'' (det s) = Inl (DEADLOCK_DETECTED names))"
proof -
  from demo_locks obtain s :: "nat lock_world" where s: "lock_reach True s" "held s 1 = [11, 10]"
    "edges (lockGraph (det s)) = {(10, 11)}" by blast
  have "(10, 10) \<in> {(11, 10), (10, 11 :: u64)}\<^sup>+"
    by (rule trancl_into_trancl [of _ 11]) auto
  with deadlock_report [OF s(1), of 1 10 "''A''"] s show ?thesis by auto
qed


text \<open>A UniqueLockGuard on a lock, however lock and unlock are called on it, takes and frees
  the lock in turns and frees it at the end if it is held; but a guard that is default-constructed
  or moved from ends the process when it is destroyed.\<close>

theorem unique_guard_balanced:
  "(\<exists>as1 g1 as2 g2 as3 g3. UniqueLockGuard l name = Some (as1, g1) \<and> ug_calls cs g1 = Some (as2, g2) \<and>
      ug_destroy g2 = Some (as3, g3) \<and> turns l False (as1 @ as2 @ as3) False) \<and>
   ug_destroy UniqueLockGuard_default = None \<and> ug_destroy (snd (ug_move g)) = None"
proof -
  let ?g = "\<lparr>guard_lock = Some l, owns = True, className = Some name\<rparr>"
  have new: "UniqueLockGuard l name = Some ([Acquire l (Some name)], ?g)"
    by (simp add: UniqueLockGuard_def CallLock_def)
  from ug_calls_turns [of ?g l cs] obtain as2 g2 where 2: "ug_calls cs ?g = Some (as2, g2)"
    "guard_lock g2 = Some l" "turns l True as2 (owns g2)" by auto
  from 2(2) obtain as3 g3 where 3: "ug_destroy g2 = Some (as3, g3)" "turns l (owns g2) as3 False"
    by (cases "owns g2") (auto simp: ug_destroy_def ug_unlock_def)
  have "turns l False ([Acquire l (Some name)] @ as2 @ as3) False"
    using turns_append [OF 2(3) 3(2)] by simp
  with new 2(1) 3(1) show ?thesis
    by (auto simp: ug_destroy_def ug_unlock_def UniqueLockGuard_default_def ug_move_def)
qed


end
