(* ===== verification/Job_Queue.thy ===== *)
theory Job_Queue
  imports Swarm_Prelude "HOL-Library.Multiset"
begin

text \<open>
  ServerCore/Job: jobs, job groups and the priority queue of each group (Job.cpp,
  JobGroupManager.cpp, JobPriorityQueue.cpp). A callback is a value of type 'c; what it does is the
  parameter run of the worker thread, which gives the new state and the jobs it submits. Time
  points count nanoseconds.
\<close>

section \<open>Jobs and their order\<close>

record 'c job =
  callback :: "'c option"
  groupId :: u16
  executeTime :: int
  orderNum :: u64

text \<open>
  JobComparator says whether a comes after b: a later execution time, then a later creation. The
  order of the keys is the one it gives.
\<close>

datatype job_key = JobKey (key_time: int) (key_order: u64)

definition JobComparator :: "job_key \<Rightarrow> job_key \<Rightarrow> bool" where
  "JobComparator a b =
     (if key_time a \<noteq> key_time b then key_time a > key_time b else key_order a > key_order b)"

instantiation job_key :: linorder
begin

definition less_eq_job_key :: "job_key \<Rightarrow> job_key \<Rightarrow> bool" where
  "less_eq_job_key a b \<longleftrightarrow> \<not> JobComparator a b"

definition less_job_key :: "job_key \<Rightarrow> job_key \<Rightarrow> bool" where
  "less_job_key a b \<longleftrightarrow> JobComparator b a"

instance
  by standard
    (auto simp: less_eq_job_key_def less_job_key_def JobComparator_def job_key.expand split: if_splits)

end

lemma job_key_le: "a \<le> b \<longleftrightarrow> key_time a < key_time b \<or> key_time a = key_time b \<and> key_order a \<le> key_order b"
  by (auto simp: less_eq_job_key_def JobComparator_def)

lemma job_key_less: "a < b \<longleftrightarrow> key_time a < key_time b \<or> key_time a = key_time b \<and> key_order a < key_order b"
  by (auto simp: less_job_key_def JobComparator_def)

definition job_key :: "'c job \<Rightarrow> job_key" where
  "job_key j = JobKey (executeTime j) (orderNum j)"

definition IsExecute :: "int \<Rightarrow> 'c job \<Rightarrow> bool" where
  "IsExecute now j \<longleftrightarrow> executeTime j \<le> now"

section \<open>Priority queues\<close>

text \<open>What the queue of a group relies on: top is an element that no other one precedes.\<close>

locale priority_queue =
  fixes elems :: "'q \<Rightarrow> 'j multiset"
    and key :: "'j \<Rightarrow> 'k::linorder"
    and push :: "'j \<Rightarrow> 'q \<Rightarrow> 'q"
    and top :: "'q \<Rightarrow> 'j option"
    and pop :: "'q \<Rightarrow> 'q"
    and wf :: "'q \<Rightarrow> bool"
  assumes push_elems: "elems (push j q) = add_mset j (elems q)"
    and push_wf: "wf q \<Longrightarrow> wf (push j q)"
    and top_None: "top q = None \<longleftrightarrow> elems q = {#}"
    and pop_wf: "wf q \<Longrightarrow> wf (pop q)"
    and top_pop: "top q = Some j \<Longrightarrow> elems q = add_mset j (elems (pop q))"
    and top_first: "wf q \<Longrightarrow> top q = Some j \<Longrightarrow> i \<in># elems q \<Longrightarrow> key j \<le> key i"
begin

text \<open>How many elements come before a key.\<close>

definition ahead :: "'k \<Rightarrow> 'q \<Rightarrow> nat" where
  "ahead k q = size (filter_mset (\<lambda>i. key i < k) (elems q))"

lemma ahead_push: "\<not> key i < k \<Longrightarrow> ahead k (push i q) = ahead k q"
  by (simp add: ahead_def push_elems)

text \<open>Taking the top brings every remaining element one step forward, or takes an equal one.\<close>

lemma ahead_pop:
  assumes "wf q" and "top q = Some i" and "j \<in># elems q" and "key i \<noteq> key j"
  shows "ahead (key j) q = Suc (ahead (key j) (pop q))"
proof -
  have "key i < key j" using top_first [OF assms(1-3)] assms(4) by simp
  with top_pop [OF assms(2)] show ?thesis by (simp add: ahead_def)
qed

lemma pop_keeps: "top q = Some i \<Longrightarrow> j \<in># elems q \<Longrightarrow> j \<noteq> i \<Longrightarrow> j \<in># elems (pop q)"
  by (drule top_pop) auto

end

text \<open>std::priority_queue with JobComparator, as a list in the order of the comparator.\<close>

type_synonym 'c pq = "'c job list"

definition pq_push :: "'c job \<Rightarrow> 'c pq \<Rightarrow> 'c pq" where
  "pq_push j q = insort_key job_key j q"

definition pq_top :: "'c pq \<Rightarrow> 'c job option" where
  "pq_top q = (case q of [] \<Rightarrow> None | j # _ \<Rightarrow> Some j)"

definition pq_pop :: "'c pq \<Rightarrow> 'c pq" where
  "pq_pop q = tl q"

definition pq_wf :: "'c pq \<Rightarrow> bool" where
  "pq_wf q \<longleftrightarrow> sorted (map job_key q)"

interpretation pq: priority_queue mset job_key pq_push pq_top pq_pop pq_wf
proof unfold_locales
  fix j i :: "'c job" and q :: "'c pq"
  show "mset (pq_push j q) = add_mset j (mset q)" by (simp add: pq_push_def)
  show "pq_wf q \<Longrightarrow> pq_wf (pq_push j q)" by (simp add: pq_wf_def pq_push_def sorted_insort_key)
  show "pq_top q = None \<longleftrightarrow> mset q = {#}" by (simp add: pq_top_def split: list.split)
  show "pq_wf q \<Longrightarrow> pq_wf (pq_pop q)" by (cases q) (simp_all add: pq_wf_def pq_pop_def)
  show "pq_top q = Some j \<Longrightarrow> mset q = add_mset j (mset (pq_pop q))"
    by (cases q) (simp_all add: pq_top_def pq_pop_def)
  show "pq_wf q \<Longrightarrow> pq_top q = Some j \<Longrightarrow> i \<in># mset q \<Longrightarrow> job_key j \<le> job_key i"
    by (cases q) (auto simp: pq_top_def pq_wf_def)
qed

section \<open>The queue of jobs\<close>

record 'c job_queue =
  groupJobs :: "(u16 \<times> 'c pq) list"
  groupRunning :: "(u16 \<times> bool) list"
  counter :: u64
  groupThreads :: "u16 list"

definition Invalid :: u16 where
  "Invalid = 65535"

definition System :: u16 where
  "System = 0"

definition queue_of :: "'c job_queue \<Rightarrow> u16 \<Rightarrow> 'c pq" where
  "queue_of q gid = (case map_of (groupJobs q) gid of None \<Rightarrow> [] | Some js \<Rightarrow> js)"

definition running :: "'c job_queue \<Rightarrow> u16 \<Rightarrow> bool" where
  "running q gid \<longleftrightarrow> map_of (groupRunning q) gid = Some True"

definition GetNextOrderNum :: "'c job_queue \<Rightarrow> u64 \<times> 'c job_queue" where
  "GetNextOrderNum q = (counter q, q\<lparr>counter := counter q + 1\<rparr>)"

definition Job :: "int \<Rightarrow> 'c option \<Rightarrow> u16 \<Rightarrow> u64 \<Rightarrow> 'c job_queue \<Rightarrow> 'c job \<times> 'c job_queue" where
  "Job now cb gid delayMs q =
     (case GetNextOrderNum q of (n, q1) \<Rightarrow>
        (\<lparr>callback = cb, groupId = gid,
          executeTime = (if 0 < delayMs then now + uint delayMs * 1000000 else now),
          orderNum = n\<rparr>, q1))"

definition Push :: "'c job \<Rightarrow> 'c job_queue \<Rightarrow> 'c job_queue" where
  "Push job q = q\<lparr>groupJobs := hm_assign (groupId job) (pq_push job (queue_of q (groupId job))) (groupJobs q)\<rparr>"

definition DoAsyncAfter :: "int \<Rightarrow> u64 \<Rightarrow> 'c option \<Rightarrow> u16 \<Rightarrow> 'c job_queue \<Rightarrow> 'c job_queue" where
  "DoAsyncAfter now delayMs cb gid q = (case Job now cb gid delayMs q of (job, q1) \<Rightarrow> Push job q1)"

definition DoAsync :: "int \<Rightarrow> 'c option \<Rightarrow> u16 \<Rightarrow> 'c job_queue \<Rightarrow> 'c job_queue" where
  "DoAsync now cb gid q = (case Job now cb gid 0 q of (job, q1) \<Rightarrow> Push job q1)"

text \<open>Looking a group up with operator[] creates its queue.\<close>

definition Pop :: "int \<Rightarrow> u16 \<Rightarrow> 'c job_queue \<Rightarrow> 'c job option \<times> 'c job_queue" where
  "Pop now gid q =
     (let js = queue_of q gid; q1 = q\<lparr>groupJobs := hm_assign gid js (groupJobs q)\<rparr> in
      case pq_top js of
        None \<Rightarrow> (None, q1)
      | Some job \<Rightarrow>
          if \<not> IsExecute now job then (None, q1)
          else (Some job, q\<lparr>groupJobs := hm_assign gid (pq_pop js) (groupJobs q)\<rparr>))"

definition queue_Shutdown :: "'c job_queue \<Rightarrow> 'c job_queue" where
  "queue_Shutdown q = q\<lparr>groupRunning := map (\<lambda>(gid, r). (gid, False)) (groupRunning q)\<rparr>"

text \<open>One thread per group; None is the crash for an invalid group or one that has a thread.\<close>

definition MakeGroupThread :: "u16 \<Rightarrow> 'c job_queue \<Rightarrow> 'c job_queue option" where
  "MakeGroupThread gid q = do {
     assert_crash (gid \<noteq> Invalid);
     (if map_of (groupRunning q) gid \<noteq> None then None
      else Some (q\<lparr>groupRunning := hm_assign gid True (groupRunning q),
                   groupThreads := groupThreads q @ [gid]\<rparr>)) }"

text \<open>Running a job: an empty callback does nothing.\<close>

type_synonym ('c, 'w) run_callback = "'c \<Rightarrow> int \<Rightarrow> 'w \<Rightarrow> 'w \<times> (u64 \<times> 'c option \<times> u16) list"

definition Execute :: "('c, 'w) run_callback \<Rightarrow> int \<Rightarrow> 'c job \<Rightarrow> 'w \<Rightarrow> 'w \<times> (u64 \<times> 'c option \<times> u16) list" where
  "Execute run now job w = (case callback job of None \<Rightarrow> (w, []) | Some c \<Rightarrow> run c now w)"

fun submit_all :: "int \<Rightarrow> (u64 \<times> 'c option \<times> u16) list \<Rightarrow> 'c job_queue \<Rightarrow> 'c job_queue" where
  "submit_all now [] q = q"
| "submit_all now ((delay, cb, gid) # rs) q = submit_all now rs (DoAsyncAfter now delay cb gid q)"

text \<open>
  One turn of the loop of WorkerThread, with the clock at its two readings; the group can be
  stopped between the pop and the execution, which is the argument stopped.
\<close>

definition worker_turn ::
  "('c, 'w) run_callback \<Rightarrow> bool \<Rightarrow> int \<Rightarrow> int \<Rightarrow> u16 \<Rightarrow> 'c job_queue \<Rightarrow> 'w \<Rightarrow> 'c job_queue \<times> 'w" where
  "worker_turn run stopped now1 now2 gid q w =
     (if \<not> running q gid then (q, w)
      else (case Pop now1 gid q of
              (None, q1) \<Rightarrow> (q1, w)
            | (Some job, q1) \<Rightarrow>
                if stopped then (q1, w)
                else (case Execute run now2 job w of (w1, rs) \<Rightarrow> (submit_all now2 rs q1, w1))))"

section \<open>Groups\<close>

record group_manager =
  nextGroupId :: u16
  groups :: "(u16 \<times> string) list"

definition RegisterGroup :: "u16 \<Rightarrow> string \<Rightarrow> group_manager \<Rightarrow> u16 \<times> group_manager" where
  "RegisterGroup gid name m =
     (if map_of (groups m) gid \<noteq> None then (Invalid, m)
      else (gid, m\<lparr>groups := hm_assign gid name (groups m)\<rparr>))"

definition group_Init :: "group_manager \<Rightarrow> group_manager" where
  "group_Init m = snd (RegisterGroup System ''System'' (m\<lparr>nextGroupId := 10\<rparr>))"

definition RegisterContentGroup :: "string \<Rightarrow> group_manager \<Rightarrow> u16 \<times> group_manager" where
  "RegisterContentGroup name m = RegisterGroup (nextGroupId m) name (m\<lparr>nextGroupId := nextGroupId m + 1\<rparr>)"

definition GetGroupName :: "u16 \<Rightarrow> group_manager \<Rightarrow> string" where
  "GetGroupName gid m = (case map_of (groups m) gid of None \<Rightarrow> ''System'' | Some n \<Rightarrow> n)"

text \<open>JOB_GROUP of JobGroup.cpp: register a group and start its thread.\<close>

definition JOB_GROUP :: "string \<Rightarrow> group_manager \<times> 'c job_queue \<Rightarrow> (u16 \<times> group_manager \<times> 'c job_queue) option" where
  "JOB_GROUP name st =
     (case st of (m, q) \<Rightarrow>
        (case RegisterContentGroup name m of (gid, m1) \<Rightarrow> do {
           q1 \<leftarrow> MakeGroupThread gid q;
           Some (gid, m1, q1) }))"

text \<open>JobPriorityQueue::Init: a thread for every registered group.\<close>

fun queue_Init :: "u16 list \<Rightarrow> 'c job_queue \<Rightarrow> 'c job_queue option" where
  "queue_Init [] q = Some q"
| "queue_Init (gid # gids) q = do { q1 \<leftarrow> MakeGroupThread gid q; queue_Init gids q1 }"

definition empty_queue :: "'c job_queue" where
  "empty_queue = \<lparr>groupJobs = [], groupRunning = [], counter = 0, groupThreads = []\<rparr>"

definition empty_groups :: group_manager where
  "empty_groups = \<lparr>nextGroupId = 0, groups = []\<rparr>"

text \<open>The start of the game server: CoreService's constructor, then JobGroup::Init.\<close>

definition start_groups :: "(u16 \<times> u16 \<times> group_manager \<times> 'c job_queue) option" where
  "start_groups = do {
     let m = group_Init empty_groups;
     q \<leftarrow> queue_Init (map fst (groups m)) empty_queue;
     (social, m1, q1) \<leftarrow> JOB_GROUP ''Social'' (m, q);
     (timer, m2, q2) \<leftarrow> JOB_GROUP ''Timer'' (m1, q1);
     Some (social, timer, m2, q2) }"

end
