(* ===== verification/Job_World.thy ===== *)
theory Job_World
  imports Job_Queue
begin

text \<open>
  The worker threads of the job queue together: every group has one, any thread submits jobs, time
  passes, the queue is shut down. Each step is what happens under one lock of a group, or the
  execution of one job. The world remembers what was submitted, executed and dropped.
\<close>

section \<open>The world\<close>

record ('c, 'w) job_world =
  jq :: "'c job_queue"
  clock :: int
  hand :: "u16 \<Rightarrow> 'c job option"
  app_state :: 'w
  submitted :: "'c job list"
  executed :: "(int \<times> 'c job) list"
  dropped :: "'c job list"

datatype job_label = Tick | Submit | PopOf u16 | ExecuteOf u16 | DropOf u16 | Stop

text \<open>
  Submitting: the job that DoAsyncAfter makes is pushed. Fewer than 2^64 jobs are ever made, so
  the counter does not come around.
\<close>

definition submit :: "u64 \<Rightarrow> 'c option \<Rightarrow> u16 \<Rightarrow> ('c, 'w) job_world \<Rightarrow> ('c, 'w) job_world" where
  "submit delay cb gid s = s\<lparr>jq := DoAsyncAfter (clock s) delay cb gid (jq s),
     submitted := submitted s @ [fst (Job (clock s) cb gid delay (jq s))]\<rparr>"

fun submits :: "(u64 \<times> 'c option \<times> u16) list \<Rightarrow> ('c, 'w) job_world \<Rightarrow> ('c, 'w) job_world" where
  "submits [] s = s"
| "submits ((delay, cb, gid) # rs) s = submits rs (submit delay cb gid s)"

inductive job_step ::
  "('c, 'w) run_callback \<Rightarrow> job_label \<Rightarrow> ('c, 'w) job_world \<Rightarrow> ('c, 'w) job_world \<Rightarrow> bool" for run where
  tick: "clock s \<le> now \<Longrightarrow> job_step run Tick s (s\<lparr>clock := now\<rparr>)"
| submit: "unat (counter (jq s)) + 1 < 2 ^ 64 \<Longrightarrow> job_step run Submit s (submit delay cb gid s)"
| pop: "running (jq s) gid \<Longrightarrow> hand s gid = None \<Longrightarrow> Pop (clock s) gid (jq s) = (job, q) \<Longrightarrow>
     job_step run (PopOf gid) s (s\<lparr>jq := q, hand := (hand s)(gid := job)\<rparr>)"
| execute: "running (jq s) gid \<Longrightarrow> hand s gid = Some job \<Longrightarrow>
     Execute run (clock s) job (app_state s) = (w, rs) \<Longrightarrow>
     unat (counter (jq s)) + length rs < 2 ^ 64 \<Longrightarrow>
     job_step run (ExecuteOf gid) s (submits rs (s\<lparr>hand := (hand s)(gid := None), app_state := w,
       executed := executed s @ [(clock s, job)]\<rparr>))"
| drop: "\<not> running (jq s) gid \<Longrightarrow> hand s gid = Some job \<Longrightarrow>
     job_step run (DropOf gid) s (s\<lparr>hand := (hand s)(gid := None), dropped := dropped s @ [job]\<rparr>)"
| stop: "job_step run Stop s (s\<lparr>jq := queue_Shutdown (jq s)\<rparr>)"

inductive job_path ::
  "('c, 'w) run_callback \<Rightarrow> job_label list \<Rightarrow> ('c, 'w) job_world \<Rightarrow> ('c, 'w) job_world \<Rightarrow> bool" for run where
  nil: "job_path run [] s s"
| cons: "job_step run l s s' \<Longrightarrow> job_path run ls s' s'' \<Longrightarrow> job_path run (l # ls) s s''"

inductive_cases job_path_Cons: "job_path run (l # ls) s s'"

definition job_start :: "'c job_queue \<Rightarrow> int \<Rightarrow> 'w \<Rightarrow> ('c, 'w) job_world" where
  "job_start q now w = \<lparr>jq = q, clock = now, hand = (\<lambda>_. None), app_state = w, submitted = [],
     executed = [], dropped = []\<rparr>"

section \<open>Queues of the groups\<close>

lemma queue_of_assign [simp]:
  "queue_of (q\<lparr>groupJobs := hm_assign gid js (groupJobs q)\<rparr>) g = (if g = gid then js else queue_of q g)"
  by (simp add: queue_of_def hm_simps)

lemma queue_of_counter [simp]: "queue_of (q\<lparr>counter := n\<rparr>) g = queue_of q g"
  by (simp add: queue_of_def)

lemma Job_fields [simp]:
  "counter (snd (Job now cb gid delay q)) = counter q + 1"
  "queue_of (snd (Job now cb gid delay q)) g = queue_of q g"
  "orderNum (fst (Job now cb gid delay q)) = counter q"
  "groupId (fst (Job now cb gid delay q)) = gid"
  "now \<le> executeTime (fst (Job now cb gid delay q))"
  by (simp_all add: Job_def GetNextOrderNum_def)

lemma queue_of_Push [simp]:
  "queue_of (Push j q) g = (if g = groupId j then pq_push j (queue_of q g) else queue_of q g)"
  by (simp add: Push_def)

lemma DoAsyncAfter_eq:
  "DoAsyncAfter now delay cb gid q = Push (fst (Job now cb gid delay q)) (snd (Job now cb gid delay q))"
  by (simp add: DoAsyncAfter_def split_beta)

lemma Push_fields [simp]:
  "counter (Push j q) = counter q" "groupRunning (Push j q) = groupRunning q"
  by (simp_all add: Push_def)

lemma Pop_cases:
  obtains (none) "fst (Pop now gid q) = None" "\<And>g. queue_of (snd (Pop now gid q)) g = queue_of q g"
  | (some) j where "fst (Pop now gid q) = Some j" "pq_top (queue_of q gid) = Some j" "executeTime j \<le> now"
      "\<And>g. queue_of (snd (Pop now gid q)) g = (if g = gid then pq_pop (queue_of q gid) else queue_of q g)"
proof (cases "pq_top (queue_of q gid)")
  case None
  then show ?thesis using that(1) by (simp add: Pop_def Let_def)
next
  case (Some j)
  then show ?thesis
    using that by (cases "executeTime j \<le> now") (simp_all add: Pop_def Let_def IsExecute_def)
qed

lemma Pop_counter [simp]: "counter (snd (Pop now gid q)) = counter q"
  by (simp add: Pop_def Let_def split: option.split)

section \<open>The invariant\<close>

text \<open>
  Of every group, the jobs that were submitted are the queued ones, the one in the worker's hand
  and those executed or dropped, each as often. Queues are in order, jobs in a hand or executed
  were due, and creation numbers are below the counter and differ.
\<close>

definition opt_mset :: "'a option \<Rightarrow> 'a multiset" where
  "opt_mset x = (case x of None \<Rightarrow> {#} | Some j \<Rightarrow> {#j#})"

lemma opt_mset_simps [simp]: "opt_mset None = {#}" "opt_mset (Some j) = {#j#}"
  by (simp_all add: opt_mset_def)

definition done_jobs :: "('c, 'w) job_world \<Rightarrow> 'c job list" where
  "done_jobs s = map snd (executed s) @ dropped s"

definition of_group :: "u16 \<Rightarrow> 'c job list \<Rightarrow> 'c job multiset" where
  "of_group gid js = mset (filter (\<lambda>j. groupId j = gid) js)"

lemma of_group_simps [simp]:
  "of_group gid [] = {#}" "of_group gid (js @ js') = of_group gid js + of_group gid js'"
  "of_group gid (j # js) = (if groupId j = gid then {#j#} else {#}) + of_group gid js"
  by (simp_all add: of_group_def)

definition conserved :: "('c, 'w) job_world \<Rightarrow> bool" where
  "conserved s \<longleftrightarrow> (\<forall>gid. of_group gid (submitted s) =
     mset (queue_of (jq s) gid) + opt_mset (hand s gid) + of_group gid (done_jobs s))"

definition job_inv :: "('c, 'w) job_world \<Rightarrow> bool" where
  "job_inv s \<longleftrightarrow> conserved s \<and> (\<forall>gid. pq_wf (queue_of (jq s) gid)) \<and>
     (\<forall>gid j. hand s gid = Some j \<longrightarrow> executeTime j \<le> clock s) \<and>
     (\<forall>(t, j) \<in> set (executed s). executeTime j \<le> t \<and> t \<le> clock s) \<and>
     (\<forall>j \<in> set (submitted s). unat (orderNum j) < unat (counter (jq s))) \<and>
     distinct (map orderNum (submitted s))"

lemma counter_next: "unat (n :: u64) + 1 < 2 ^ 64 \<Longrightarrow> unat (n + 1) = unat n + 1"
  using unat_add_le [of n 1] by simp

lemma submit_fields [simp]:
  "clock (submit d cb gid s) = clock s" "hand (submit d cb gid s) = hand s"
  "executed (submit d cb gid s) = executed s" "dropped (submit d cb gid s) = dropped s"
  "counter (jq (submit d cb gid s)) = counter (jq s) + 1"
  by (simp_all add: submit_def DoAsyncAfter_eq)

lemma submit_inv:
  assumes inv: "job_inv s" and room: "unat (counter (jq s)) + 1 < 2 ^ 64"
  shows "job_inv (submit d cb gid s)"
proof -
  let ?j = "fst (Job (clock s) cb gid d (jq s))"
  have n: "unat (counter (jq s) + 1) = unat (counter (jq s)) + 1" by (rule counter_next [OF room])
  have "distinct (map orderNum (submitted s @ [?j]))"
    using inv by (auto simp: job_inv_def)
  moreover have "conserved (submit d cb gid s)"
    using inv by (simp add: job_inv_def conserved_def submit_def DoAsyncAfter_eq pq.push_elems done_jobs_def)
  moreover have "pq_wf (queue_of (jq (submit d cb gid s)) g)" for g
    using inv by (simp add: job_inv_def submit_def DoAsyncAfter_eq pq.push_wf)
  moreover have "unat (orderNum j) < unat (counter (jq s)) + 1" if "j \<in> set (submitted s @ [?j])" for j
    using inv that by (auto simp: job_inv_def less_SucI)
  ultimately show ?thesis
    using inv n by (auto simp: job_inv_def submit_def DoAsyncAfter_eq)
qed

lemma submits_inv:
  "job_inv s \<Longrightarrow> unat (counter (jq s)) + length rs < 2 ^ 64 \<Longrightarrow> job_inv (submits rs s)"
proof (induction rs s rule: submits.induct)
  case (2 d cb gid rs s)
  have "unat (counter (jq s)) + 1 < 2 ^ 64" using 2(3) by simp
  with 2 submit_inv [OF 2(2)] show ?case by (simp add: counter_next)
qed simp

text \<open>A job found in a queue or a hand is one that was submitted, for that group.\<close>

lemma in_group:
  assumes "job_inv s" and "hand s gid = Some j \<or> j \<in> set (queue_of (jq s) gid)"
  shows "groupId j = gid \<and> j \<in> set (submitted s)"
proof -
  have "j \<in># mset (queue_of (jq s) gid) + opt_mset (hand s gid) + of_group gid (done_jobs s)"
    using assms(2) by auto
  then have "j \<in># of_group gid (submitted s)"
    using assms(1) by (simp only: job_inv_def conserved_def)
  then show ?thesis by (simp add: of_group_def)
qed

lemma executed_inv:
  assumes inv: "job_inv s" and h: "hand s gid = Some job"
  shows "job_inv (s\<lparr>hand := (hand s)(gid := None), app_state := w, executed := executed s @ [(clock s, job)]\<rparr>)"
proof -
  have "groupId job = gid" using in_group [OF inv] h by blast
  with assms have "conserved (s\<lparr>hand := (hand s)(gid := None), app_state := w,
      executed := executed s @ [(clock s, job)]\<rparr>)"
    by (auto simp: job_inv_def conserved_def done_jobs_def)
  with assms show ?thesis by (auto simp: job_inv_def)
qed

lemma job_step_inv: "job_step run l s s' \<Longrightarrow> job_inv s \<Longrightarrow> job_inv s'"
proof (induction rule: job_step.induct)
  case (tick s now)
  then show ?case by (fastforce simp: job_inv_def conserved_def done_jobs_def)
next
  case (submit s delay cb gid)
  then show ?case by (simp add: submit_inv)
next
  case (pop s gid job q)
  show ?case
  proof (cases rule: Pop_cases [of "clock s" gid "jq s"])
    case none
    have "counter q = counter (jq s)" using pop(3) Pop_counter [of "clock s" gid "jq s"] by simp
    with none pop show ?thesis by (auto simp: job_inv_def conserved_def done_jobs_def)
  next
    case (some j)
    from pop some(1,4) have q: "job = Some j"
      "\<And>g. queue_of q g = (if g = gid then pq_pop (queue_of (jq s) gid) else queue_of (jq s) g)"
      "counter q = counter (jq s)" using Pop_counter [of "clock s" gid "jq s"] by simp_all
    have "conserved (s\<lparr>jq := q, hand := (hand s)(gid := job)\<rparr>)"
      using pop(2,4) q pq.top_pop [OF some(2)] by (auto simp: job_inv_def conserved_def done_jobs_def)
    with pop(4) q some(3) show ?thesis by (auto simp: job_inv_def done_jobs_def pq.pop_wf)
  qed
next
  case (execute s gid job w rs)
  then show ?case by (intro submits_inv) (simp_all add: executed_inv)
next
  case (drop s gid job)
  have "groupId job = gid" using in_group [OF drop(3)] drop(2) by blast
  with drop show ?case by (auto simp: job_inv_def conserved_def done_jobs_def)
next
  case (stop s)
  have "queue_of (queue_Shutdown (jq s)) g = queue_of (jq s) g" for g
    by (simp add: queue_Shutdown_def queue_of_def)
  with stop show ?case by (simp add: job_inv_def conserved_def done_jobs_def queue_Shutdown_def)
qed

lemma job_path_inv: "job_path run ls s s' \<Longrightarrow> job_inv s \<Longrightarrow> job_inv s'"
  by (induction rule: job_path.induct) (auto intro: job_step_inv)

lemma job_start_inv: "\<forall>gid. queue_of q gid = [] \<Longrightarrow> job_inv (job_start q now w)"
  by (simp add: job_inv_def conserved_def job_start_def done_jobs_def pq_wf_def)

section \<open>No starvation\<close>

text \<open>
  A job that is due waits for no job submitted later: new jobs get a later time or a larger number,
  so only the jobs ahead of it in its queue are executed before it.
\<close>

lemma job_key_differs:
  assumes "job_inv s" and "i \<in> set (submitted s)" and "j \<in> set (submitted s)" and "i \<noteq> j"
  shows "job_key i \<noteq> job_key j"
  using assms by (auto simp: job_inv_def job_key_def distinct_map dest: inj_onD)

definition waiting :: "'c job \<Rightarrow> ('c, 'w) job_world \<Rightarrow> bool" where
  "waiting j s \<longleftrightarrow> job_inv s \<and> executeTime j \<le> clock s \<and> j \<in> set (queue_of (jq s) (groupId j))"

abbreviation rank :: "'c job \<Rightarrow> ('c, 'w) job_world \<Rightarrow> nat" where
  "rank j s \<equiv> pq.ahead (job_key j) (queue_of (jq s) (groupId j))"

lemma submit_waiting:
  assumes w: "waiting j s" and room: "unat (counter (jq s)) + 1 < 2 ^ 64"
  shows "waiting j (submit d cb gid s) \<and> rank j (submit d cb gid s) = rank j s"
proof -
  let ?i = "fst (Job (clock s) cb gid d (jq s))"
  have inv: "job_inv s" and mem: "j \<in> set (queue_of (jq s) (groupId j))" using w by (simp_all add: waiting_def)
  have "j \<in> set (submitted s)" using in_group [OF inv] mem by blast
  then have "orderNum j < counter (jq s)" using inv by (simp add: job_inv_def word_less_nat_alt)
  moreover have "executeTime j \<le> executeTime ?i"
    using w Job_fields(5) [of "clock s" cb gid d "jq s"] unfolding waiting_def by (blast intro: order.trans)
  ultimately have "\<not> job_key ?i < job_key j" by (auto simp: job_key_def job_key_less)
  then have "rank j (submit d cb gid s) = rank j s"
    by (simp add: submit_def DoAsyncAfter_eq pq.ahead_push)
  moreover have "j \<in> set (queue_of (jq (submit d cb gid s)) (groupId j))"
    using mem by (auto simp: submit_def DoAsyncAfter_eq pq_push_def set_insort_key)
  ultimately show ?thesis using w submit_inv [OF inv room] by (simp add: waiting_def)
qed

lemma submits_waiting:
  "waiting j s \<Longrightarrow> unat (counter (jq s)) + length rs < 2 ^ 64 \<Longrightarrow>
     waiting j (submits rs s) \<and> rank j (submits rs s) = rank j s"
proof (induction rs s rule: submits.induct)
  case (2 d cb gid rs s)
  have "unat (counter (jq s)) + 1 < 2 ^ 64" using 2(3) by simp
  with 2 submit_waiting [OF 2(2)] show ?case by (simp add: counter_next)
qed simp

text \<open>The worker of a group with a due job finds a job, the one in front.\<close>

lemma Pop_due:
  assumes wf: "pq_wf (queue_of q gid)" and mem: "j \<in> set (queue_of q gid)" and due: "executeTime j \<le> now"
  obtains i where "fst (Pop now gid q) = Some i" "pq_top (queue_of q gid) = Some i"
    "queue_of (snd (Pop now gid q)) gid = pq_pop (queue_of q gid)"
proof (cases rule: Pop_cases [of now gid q])
  case none
  obtain i where i: "pq_top (queue_of q gid) = Some i"
    using mem by (cases "queue_of q gid") (auto simp: pq_top_def)
  have "job_key i \<le> job_key j" using pq.top_first [OF wf i] mem by simp
  then have "executeTime i \<le> now" using due by (auto simp: job_key_def job_key_le)
  with i none(1) show ?thesis by (simp add: Pop_def Let_def IsExecute_def)
next
  case (some i)
  then show ?thesis using that by simp
qed

lemma pop_waiting:
  assumes w: "waiting j s" and step: "Pop (clock s) (groupId j) (jq s) = (job, q)"
    and s': "s' = s\<lparr>jq := q, hand := (hand s)(groupId j := job)\<rparr>" and inv': "job_inv s'"
  shows "(rank j s = 0 \<longrightarrow> hand s' (groupId j) = Some j) \<and>
    (0 < rank j s \<longrightarrow> waiting j s' \<and> rank j s = Suc (rank j s'))"
proof -
  let ?Q = "queue_of (jq s) (groupId j)"
  have inv: "job_inv s" and mem: "j \<in> set ?Q" and wf: "pq_wf ?Q" and due: "executeTime j \<le> clock s"
    using w by (simp_all add: waiting_def job_inv_def)
  from Pop_due [OF wf mem due] step obtain i where i: "job = Some i" "pq_top ?Q = Some i"
    "queue_of q (groupId j) = pq_pop ?Q" by (metis fst_conv snd_conv)
  have imem: "i \<in> set ?Q" using pq.top_pop [OF i(2)] by (metis set_mset_mset union_single_eq_member)
  have le: "job_key i \<le> job_key j" using pq.top_first [OF wf i(2)] mem by simp
  have same: "i = j" if "job_key i = job_key j"
    using job_key_differs [OF inv, of i j] in_group [OF inv] imem mem that by blast
  show ?thesis
  proof (cases "i = j")
    case True
    have "rank j s = 0"
      using pq.top_first [OF wf i(2)] True by (auto simp: pq.ahead_def filter_mset_eq_mempty_iff leD)
    with True i s' show ?thesis by simp
  next
    case False
    then have ne: "job_key i \<noteq> job_key j" using same by blast
    then have "rank j s = Suc (pq.ahead (job_key j) (pq_pop ?Q))"
      using pq.ahead_pop [OF wf i(2)] mem by simp
    moreover have "j \<in> set (pq_pop ?Q)" using pq.pop_keeps [OF i(2), of j] mem False by auto
    ultimately show ?thesis using i inv' due by (simp add: waiting_def s')
  qed
qed

text \<open>A step keeps a waiting job at its rank, except that the pops of its group move it forward.\<close>

lemma job_step_waiting:
  assumes "job_step run l s s'" and w: "waiting j s"
  shows "(if l = PopOf (groupId j)
          then (rank j s = 0 \<longrightarrow> hand s' (groupId j) = Some j) \<and>
               (0 < rank j s \<longrightarrow> waiting j s' \<and> rank j s = Suc (rank j s'))
          else waiting j s' \<and> rank j s' = rank j s)"
  using assms
proof (induction rule: job_step.induct)
  case (tick s now)
  then show ?case using job_step_inv [OF job_step.tick [of s now run]] by (simp add: waiting_def)
next
  case (submit s delay cb gid)
  then show ?case by (simp add: submit_waiting)
next
  case (pop s gid job q)
  note inv' = job_step_inv [OF job_step.pop [OF pop(1-3), of run]]
  show ?case
  proof (cases "gid = groupId j")
    case True
    with pop(3,4) inv' pop_waiting [of j s job q, OF _ _ refl] show ?thesis by (simp add: waiting_def)
  next
    case False
    have "queue_of q (groupId j) = queue_of (jq s) (groupId j)"
      using pop(3) False by (cases rule: Pop_cases [of "clock s" gid "jq s"]) auto
    with False pop(4) inv' show ?thesis by (simp add: waiting_def)
  qed
next
  case (execute s gid job w rs)
  let ?s = "s\<lparr>hand := (hand s)(gid := None), app_state := w, executed := executed s @ [(clock s, job)]\<rparr>"
  have "job_inv ?s" using execute(2,5) by (simp add: executed_inv waiting_def)
  then have "waiting j ?s" using execute(5) by (simp add: waiting_def)
  with submits_waiting [of j ?s rs] execute(4) show ?case by simp
next
  case (drop s gid job)
  then show ?case using job_step_inv [OF job_step.drop [of s gid job run]] by (simp add: waiting_def)
next
  case (stop s)
  have "queue_of (queue_Shutdown (jq s)) g = queue_of (jq s) g" for g
    by (simp add: queue_Shutdown_def queue_of_def)
  with stop show ?case using job_step_inv [OF job_step.stop [of run s]] by (simp add: waiting_def)
qed

text \<open>Along a path: until enough pops of its group, a due job moves forward; then it is taken.\<close>

lemma job_path_waiting:
  "job_path run ls s s' \<Longrightarrow> waiting j s \<Longrightarrow> rank j s < count_list ls (PopOf (groupId j)) \<Longrightarrow>
     \<exists>ls1 ls2 s1. ls = ls1 @ ls2 \<and> job_path run ls1 s s1 \<and> job_path run ls2 s1 s' \<and>
       hand s1 (groupId j) = Some j \<and> count_list ls1 (PopOf (groupId j)) = Suc (rank j s)"
proof (induction rule: job_path.induct)
  case (cons l s s' ls s'')
  note step = job_step_waiting [OF cons(1,4)]
  show ?case
  proof (cases "l = PopOf (groupId j) \<and> rank j s = 0")
    case True
    with step have "hand s' (groupId j) = Some j" by simp
    moreover have "job_path run [l] s s'" using cons(1) by (blast intro: job_path.intros)
    ultimately show ?thesis using cons(2) True
      by (intro exI [of _ "[l]"] exI [of _ ls] exI [of _ s']) simp
  next
    case False
    have w': "waiting j s'" and "rank j s' < count_list ls (PopOf (groupId j))"
      using step cons(5) False by (auto split: if_splits)
    from cons(3) [OF this] obtain ls1 ls2 s1 where "ls = ls1 @ ls2" "job_path run ls1 s' s1"
      "job_path run ls2 s1 s''" "hand s1 (groupId j) = Some j"
      "count_list ls1 (PopOf (groupId j)) = Suc (rank j s')" by blast
    moreover from this have "count_list (l # ls1) (PopOf (groupId j)) = Suc (rank j s)"
      using step False by (auto split: if_splits)
    ultimately show ?thesis using cons(1)
      by (intro exI [of _ "l # ls1"] exI [of _ ls2] exI [of _ s1]) (auto intro: job_path.cons)
  qed
qed simp

section \<open>The server's queue\<close>

lemmas start_eval = start_groups_def group_Init_def RegisterGroup_def empty_groups_def System_def
  empty_queue_def JOB_GROUP_def RegisterContentGroup_def MakeGroupThread_def Invalid_def
  running_def Let_def

lemma started_inv:
  assumes "start_groups = Some (social, timer, m, q)" and "job_path run ls (job_start q now w) s"
  shows "job_inv s"
proof -
  have "\<forall>gid. queue_of q gid = []" using assms(1) by (auto simp: start_eval queue_of_def)
  from job_path_inv [OF assms(2) job_start_inv [OF this]] show ?thesis .
qed

text \<open>
  A run for the witnesses: job A in 5 ms and job B at once, both for the group System; the worker
  takes B and executes it. Callbacks are names, executing one appends it to the state.
\<close>

definition demo_run :: "(string, string list) run_callback" where
  "demo_run c t w = (w @ [c], [])"

definition demo_queue :: "string job_queue" where
  "demo_queue = \<lparr>groupJobs = [], groupRunning = [(0, True), (10, True), (11, True)], counter = 0,
     groupThreads = [0, 10, 11]\<rparr>"

definition demo_two :: "(string, string list) job_world" where
  "demo_two = submits [(5, Some ''A'', 0), (0, Some ''B'', 0)] (job_start demo_queue 0 [])"

lemma demo_started: "\<exists>m. start_groups = Some (10, 11, m, demo_queue)"
  by (simp add: start_eval demo_queue_def)

lemma demo_two_path: "job_path demo_run [Submit, Submit] (job_start demo_queue 0 []) demo_two"
proof -
  let ?s = "job_start demo_queue 0 [] :: (string, string list) job_world"
  have "job_step demo_run Submit ?s (submit 5 (Some ''A'') 0 ?s)"
    by (rule job_step.submit) (simp add: job_start_def demo_queue_def)
  moreover have "job_step demo_run Submit (submit 5 (Some ''A'') 0 ?s)
      (submit 0 (Some ''B'') 0 (submit 5 (Some ''A'') 0 ?s))"
    by (rule job_step.submit) (simp add: job_start_def demo_queue_def)
  ultimately show ?thesis unfolding demo_two_def submits.simps
    by (blast intro: job_path.intros)
qed

definition job_A :: "string job" where
  "job_A = \<lparr>callback = Some ''A'', groupId = 0, executeTime = 5000000, orderNum = 0\<rparr>"

definition job_B :: "string job" where
  "job_B = \<lparr>callback = Some ''B'', groupId = 0, executeTime = 0, orderNum = 1\<rparr>"

lemma demo_two_fields:
  "queue_of (jq demo_two) 0 = [job_B, job_A]" "hand demo_two = (\<lambda>_. None)" "clock demo_two = 0"
  "running (jq demo_two) gid \<longleftrightarrow> gid \<in> {0, 10, 11}" "executed demo_two = []" "dropped demo_two = []"
  "submitted demo_two = [job_A, job_B]"
  by (auto simp: demo_two_def submit_def job_start_def demo_queue_def DoAsyncAfter_def Job_def
      GetNextOrderNum_def Push_def pq_push_def queue_of_def job_key_def job_key_le
      job_A_def job_B_def running_def)

lemma demo_pop:
  "\<exists>s. job_path demo_run [PopOf 0] demo_two s \<and> hand s 0 = Some job_B \<and>
     queue_of (jq s) 0 = [job_A] \<and> executed s = [] \<and> dropped s = [] \<and> submitted s = [job_A, job_B]"
proof -
  obtain job q where p: "Pop (clock demo_two) 0 (jq demo_two) = (job, q)" by fastforce
  then have q: "job = Some job_B" "queue_of q 0 = [job_A]"
    by (auto simp: Pop_def Let_def demo_two_fields pq_top_def pq_pop_def IsExecute_def job_B_def)
  let ?s = "demo_two\<lparr>jq := q, hand := (hand demo_two)(0 := job)\<rparr>"
  have "job_step demo_run (PopOf 0) demo_two ?s"
    by (rule job_step.pop [OF _ _ p]) (simp_all add: demo_two_fields)
  then have "job_path demo_run [PopOf 0] demo_two ?s" by (blast intro: job_path.intros)
  with q show ?thesis by (auto simp: demo_two_fields)
qed

lemma job_path_append: "job_path run ls s s' \<Longrightarrow> job_path run ls' s' s'' \<Longrightarrow> job_path run (ls @ ls') s s''"
  by (induction rule: job_path.induct) (auto intro: job_path.cons)

section \<open>Properties\<close>

text \<open>C8: However the worker threads, the submitting threads, the clock and a shutdown interleave,
  no job is lost or run twice: in every group the submitted jobs are those queued, held by the
  worker, executed or dropped at shutdown, each counted once, and no two have the same number.\<close>

theorem jobs_exactly_once:
  assumes "start_groups = Some (social, timer, m, q)" and "job_path run ls (job_start q now w) s"
  shows "of_group gid (submitted s) = mset (queue_of (jq s) gid) + opt_mset (hand s gid) +
      of_group gid (map snd (executed s) @ dropped s) \<and> distinct (map orderNum (submitted s))"
proof -
  have "job_inv s" by (rule started_inv [OF assms])
  then show ?thesis by (simp only: job_inv_def conserved_def done_jobs_def)
qed

theorem jobs_exactly_once_witness:
  "\<exists>s :: (string, string list) job_world. queue_of (jq s) 0 = [job_A] \<and> hand s 0 = Some job_B \<and>
     of_group 0 (submitted s) = {#job_A, job_B#}"
proof -
  from demo_pop obtain s where s: "job_path demo_run [PopOf 0] demo_two s" "hand s 0 = Some job_B"
    "queue_of (jq s) 0 = [job_A]" "executed s = []" "dropped s = []" by blast
  from demo_started obtain m where m: "start_groups = Some (10, 11, m, demo_queue)" by blast
  from jobs_exactly_once [OF m job_path_append [OF demo_two_path s(1)], of 0] s
  show ?thesis by (auto simp: add_mset_commute)
qed

text \<open>C9: No job runs before its time, and while a job waits in its queue no job that comes after
  it in the order of execution time and creation is taken from that queue.\<close>

theorem jobs_in_order:
  assumes "start_groups = Some (social, timer, m, q)" and "job_path run ls (job_start q now w) s"
  shows "(\<forall>(t, j) \<in> set (executed s). executeTime j \<le> t) \<and>
    (\<forall>gid i q j. Pop (clock s) gid (jq s) = (Some i, q) \<longrightarrow> j \<in> set (queue_of (jq s) gid) \<longrightarrow>
       executeTime i \<le> clock s \<and> (executeTime i < executeTime j \<or>
         executeTime i = executeTime j \<and> orderNum i \<le> orderNum j))"
proof -
  have inv: "job_inv s" by (rule started_inv [OF assms])
  have "executeTime i \<le> clock s \<and> job_key i \<le> job_key j"
    if "Pop (clock s) gid (jq s) = (Some i, q)" "j \<in> set (queue_of (jq s) gid)" for gid i q j
  proof (cases rule: Pop_cases [of "clock s" gid "jq s"])
    case (some i')
    with that inv pq.top_first [of "queue_of (jq s) gid" i' j] show ?thesis
      by (simp add: job_inv_def)
  qed (use that in simp)
  moreover have "\<forall>(t, j) \<in> set (executed s). executeTime j \<le> t" using inv by (auto simp: job_inv_def)
  ultimately show ?thesis by (auto simp: job_key_def job_key_le)
qed

theorem jobs_in_order_witness:
  "\<exists>q. Pop 0 0 (jq demo_two) = (Some job_B, q) \<and> executeTime job_B \<le> 0 \<and>
     executeTime job_B < executeTime job_A"
proof -
  from demo_started obtain m where m: "start_groups = Some (10, 11, m, demo_queue)" by blast
  obtain q where pop: "Pop (clock demo_two) 0 (jq demo_two) = (Some job_B, q)"
    by (auto simp: Pop_def Let_def demo_two_fields pq_top_def pq_pop_def IsExecute_def job_B_def)
  have A: "job_A \<in> set (queue_of (jq demo_two) 0)" by (simp add: demo_two_fields)
  have "executeTime job_B \<le> 0 \<and> (executeTime job_B < executeTime job_A \<or>
      executeTime job_B = executeTime job_A \<and> orderNum job_B \<le> orderNum job_A)"
    using conjunct2 [OF jobs_in_order [OF m demo_two_path], rule_format, OF pop A]
    by (simp add: demo_two_fields)
  with pop show ?thesis by (auto simp: demo_two_fields job_A_def job_B_def)
qed



text \<open>Starting the server creates the groups System, Social and Timer with the ids 0, 10 and 11
  and exactly one running worker thread for each; a second thread for a group, or one for the
  invalid id, ends the process.\<close>

theorem groups_started:
  "\<exists>m q. start_groups = Some (10, 11, m, q :: 'c job_queue) \<and> groupThreads q = [0, 10, 11] \<and>
     (\<forall>gid. running q gid \<longleftrightarrow> gid \<in> {0, 10, 11}) \<and>
     (\<forall>gid. MakeGroupThread gid q = None \<longleftrightarrow> gid \<in> {0, 10, 11, Invalid})"
  by (simp add: start_eval)

end
