(* ===== verification/Memory_Header.thy ===== *)
theory Memory_Header
  imports Swarm_Prelude
begin

text \<open>
  ServerCore/Memory/MemoryHeader.cpp: the header in front of every block of the memory manager and,
  in a debug build (dbg), the guard bytes around its data. Memory is a function from addresses to
  bytes. The header is eight bytes: allocSize, allocType and three bytes of padding.
\<close>

section \<open>Memory\<close>

type_synonym memory = "nat \<Rightarrow> u8"

definition write_mem :: "memory \<Rightarrow> nat \<Rightarrow> u8 list \<Rightarrow> memory" where
  "write_mem m a bs = (\<lambda>x. if a \<le> x \<and> x < a + length bs then bs ! (x - a) else m x)"

definition u32_bytes :: "u32 \<Rightarrow> u8 list" where
  "u32_bytes v = [ucast v, ucast (drop_bit 8 v), ucast (drop_bit 16 v), ucast (drop_bit 24 v)]"

definition read_u32 :: "memory \<Rightarrow> nat \<Rightarrow> u32" where
  "read_u32 m a = ucast (m a) OR push_bit 8 (ucast (m (a + 1))) OR push_bit 16 (ucast (m (a + 2))) OR
     push_bit 24 (ucast (m (a + 3)))"

lemma u32_bytes_roundtrip:
  "ucast (ucast v :: u8) OR push_bit 8 (ucast (ucast (drop_bit 8 v) :: u8)) OR
     push_bit 16 (ucast (ucast (drop_bit 16 v) :: u8)) OR
     push_bit 24 (ucast (ucast (drop_bit 24 v) :: u8)) = (v :: u32)"
proof (rule bit_word_eqI)
  fix n assume "n < LENGTH(32)"
  then consider "n < 8" | "8 \<le> n" "n < 16" | "16 \<le> n" "n < 24" | "24 \<le> n" "n < 32"
    by fastforce
  then show "bit (ucast (ucast v :: u8) OR push_bit 8 (ucast (ucast (drop_bit 8 v) :: u8)) OR
     push_bit 16 (ucast (ucast (drop_bit 16 v) :: u8)) OR
     push_bit 24 (ucast (ucast (drop_bit 24 v) :: u8)) :: u32) n = bit v n"
    by cases (auto simp: bit_simps)
qed

lemma length_u32_bytes [simp]: "length (u32_bytes v) = 4"
  by (simp add: u32_bytes_def)

lemma write_mem_other [simp]: "x < a \<or> a + length bs \<le> x \<Longrightarrow> write_mem m a bs x = m x"
  by (auto simp: write_mem_def)

lemma write_mem_at: "i < length bs \<Longrightarrow> write_mem m a bs (a + i) = bs ! i"
  by (simp add: write_mem_def)

lemma read_u32_cong:
  assumes "\<And>i. i < 4 \<Longrightarrow> m (a + i) = m' (a + i)"
  shows "read_u32 m a = read_u32 m' a"
  using assms [of 0] assms [of 1] assms [of 2] assms [of 3] by (simp add: read_u32_def)

lemma read_u32_write [simp]: "read_u32 (write_mem m a (u32_bytes v)) a = v"
  using write_mem_at [of 0 "u32_bytes v" m a] write_mem_at [of 1 "u32_bytes v" m a]
    write_mem_at [of 2 "u32_bytes v" m a] write_mem_at [of 3 "u32_bytes v" m a]
  by (simp add: read_u32_def u32_bytes_def u32_bytes_roundtrip)

section \<open>Headers\<close>

datatype alloc_type = Pool | Malloc | Virtual

fun alloc_byte :: "alloc_type \<Rightarrow> u8" where
  "alloc_byte Pool = 0"
| "alloc_byte Malloc = 1"
| "alloc_byte Virtual = 2"

definition sizeof_memory_header :: nat where
  "sizeof_memory_header = 8"

definition GUARD_SIZE :: nat where
  "GUARD_SIZE = 8"

definition GUARD_PATTERN :: u8 where
  "GUARD_PATTERN = 0xDF"

definition GetRealSize :: "bool \<Rightarrow> u32 \<Rightarrow> u32" where
  "GetRealSize dbg allocSize =
     (let realSize = of_nat sizeof_memory_header + allocSize in
      if dbg then realSize + of_nat (GUARD_SIZE * 2) else realSize)"

text \<open>The address of the data behind the header that starts at an address.\<close>

definition data_addr :: "bool \<Rightarrow> nat \<Rightarrow> nat" where
  "data_addr dbg ptr = ptr + sizeof_memory_header + (if dbg then GUARD_SIZE else 0)"

definition AttachHeader :: "bool \<Rightarrow> nat \<Rightarrow> u32 \<Rightarrow> alloc_type \<Rightarrow> memory \<Rightarrow> nat \<times> memory" where
  "AttachHeader dbg ptr blockSize type m =
     (let m1 = write_mem m ptr (u32_bytes blockSize);
          m2 = write_mem m1 (ptr + 4) [alloc_byte type];
          guard = replicate GUARD_SIZE GUARD_PATTERN;
          dataPtr = data_addr dbg ptr in
      if dbg then (dataPtr, write_mem (write_mem m2 (ptr + sizeof_memory_header) guard)
                              (dataPtr + unat blockSize) guard)
      else (dataPtr, m2))"

definition read_alloc_size :: "memory \<Rightarrow> nat \<Rightarrow> u32" where
  "read_alloc_size m header = read_u32 m header"

definition read_alloc_type :: "memory \<Rightarrow> nat \<Rightarrow> u8" where
  "read_alloc_type m header = m (header + 4)"

text \<open>DetachHeader checks the guards, byte by byte, and gives the address of the header.\<close>

definition DetachHeader :: "bool \<Rightarrow> nat \<Rightarrow> memory \<Rightarrow> nat option" where
  "DetachHeader dbg ptr m =
     (let nextHeaderPtr = (if dbg then ptr - GUARD_SIZE else ptr);
          header = nextHeaderPtr - sizeof_memory_header;
          sz = read_alloc_size m header in
      if dbg \<and> \<not> (\<forall>guard < GUARD_SIZE. m (header + sizeof_memory_header + guard) = GUARD_PATTERN \<and>
                     m (ptr + unat sz + guard) = GUARD_PATTERN)
      then None else Some header)"

section \<open>Blocks\<close>

text \<open>A block is in order when its header says so and, in a debug build, its guards are whole.\<close>

definition block_ok :: "bool \<Rightarrow> memory \<Rightarrow> nat \<Rightarrow> u32 \<Rightarrow> alloc_type \<Rightarrow> bool" where
  "block_ok dbg m ptr sz type \<longleftrightarrow> read_alloc_size m ptr = sz \<and> read_alloc_type m ptr = alloc_byte type \<and>
     (dbg \<longrightarrow> (\<forall>i < 8. m (ptr + 8 + i) = GUARD_PATTERN \<and> m (ptr + 16 + unat sz + i) = GUARD_PATTERN))"

text \<open>The addresses of a block, and those of its data.\<close>

definition block_extent :: "bool \<Rightarrow> nat \<Rightarrow> u32 \<Rightarrow> nat set" where
  "block_extent dbg ptr sz = {ptr ..< ptr + 8 + (if dbg then 16 else 0) + unat sz}"

definition data_extent :: "bool \<Rightarrow> nat \<Rightarrow> u32 \<Rightarrow> nat set" where
  "data_extent dbg ptr sz = {data_addr dbg ptr ..< data_addr dbg ptr + unat sz}"

lemma block_ok_cong:
  assumes "\<And>x. x \<in> block_extent dbg ptr sz - data_extent dbg ptr sz \<Longrightarrow> m x = m' x"
  shows "block_ok dbg m ptr sz type = block_ok dbg m' ptr sz type"
proof -
  have a: "m (ptr + i) = m' (ptr + i)" if "i < 8" for i
    using assms [of "ptr + i"] that
    by (auto simp: block_extent_def data_extent_def data_addr_def sizeof_memory_header_def)
  then have "read_u32 m ptr = read_u32 m' ptr" by (intro read_u32_cong) simp
  moreover have "m (ptr + 8 + i) = m' (ptr + 8 + i)" "m (ptr + 16 + unat sz + i) = m' (ptr + 16 + unat sz + i)"
    if "dbg" "i < 8" for i
    using assms [of "ptr + 8 + i"] assms [of "ptr + 16 + unat sz + i"] that
    by (auto simp: block_extent_def data_extent_def data_addr_def sizeof_memory_header_def GUARD_SIZE_def)
  ultimately show ?thesis
    using a [of 4] by (auto simp: block_ok_def read_alloc_size_def read_alloc_type_def)
qed

lemma AttachHeader_fst [simp]: "fst (AttachHeader dbg ptr sz type m) = data_addr dbg ptr"
  by (simp add: AttachHeader_def Let_def)

lemma AttachHeader_block:
  "block_ok dbg (snd (AttachHeader dbg ptr sz type m)) ptr sz type"
proof -
  have "read_u32 (snd (AttachHeader dbg ptr sz type m)) ptr = read_u32 (write_mem m ptr (u32_bytes sz)) ptr"
    by (rule read_u32_cong)
       (simp add: AttachHeader_def Let_def data_addr_def sizeof_memory_header_def GUARD_SIZE_def)
  then have sz: "read_alloc_size (snd (AttachHeader dbg ptr sz type m)) ptr = sz"
    by (simp add: read_alloc_size_def)
  have "read_alloc_type (snd (AttachHeader dbg ptr sz type m)) ptr = alloc_byte type"
    by (simp add: read_alloc_type_def AttachHeader_def Let_def data_addr_def sizeof_memory_header_def
        GUARD_SIZE_def write_mem_def)
  moreover have "snd (AttachHeader dbg ptr sz type m) (ptr + 8 + i) = GUARD_PATTERN"
    "snd (AttachHeader dbg ptr sz type m) (ptr + 16 + unat sz + i) = GUARD_PATTERN" if "dbg" "i < 8" for i
    using that by (simp_all add: AttachHeader_def Let_def data_addr_def sizeof_memory_header_def
        GUARD_SIZE_def write_mem_def)
  ultimately show ?thesis using sz by (simp add: block_ok_def)
qed

lemma AttachHeader_outside:
  "x \<notin> block_extent dbg ptr sz \<Longrightarrow> snd (AttachHeader dbg ptr sz type m) x = m x"
  by (auto simp: AttachHeader_def Let_def block_extent_def data_addr_def sizeof_memory_header_def
      GUARD_SIZE_def write_mem_def)

lemma DetachHeader_block:
  assumes "block_ok dbg m ptr sz type"
  shows "DetachHeader dbg (data_addr dbg ptr) m = Some ptr"
proof -
  have "data_addr dbg ptr - (if dbg then GUARD_SIZE else 0) - sizeof_memory_header = ptr"
    by (simp add: data_addr_def)
  with assms show ?thesis
    by (cases dbg) (auto simp: DetachHeader_def block_ok_def Let_def data_addr_def
        sizeof_memory_header_def GUARD_SIZE_def add.assoc)
qed

text \<open>With the sizes in the header right, only a damaged guard stops DetachHeader.\<close>

lemma DetachHeader_None:
  assumes "read_alloc_size m ptr = sz"
  shows "DetachHeader dbg (data_addr dbg ptr) m = None \<longleftrightarrow>
    dbg \<and> (\<exists>i < 8. m (ptr + 8 + i) \<noteq> GUARD_PATTERN \<or> m (ptr + 16 + unat sz + i) \<noteq> GUARD_PATTERN)"
proof (cases dbg)
  case True
  have "data_addr True ptr - GUARD_SIZE - sizeof_memory_header = ptr"
    by (simp add: data_addr_def)
  with True assms show ?thesis
    by (auto simp: DetachHeader_def Let_def data_addr_def sizeof_memory_header_def GUARD_SIZE_def
        add.assoc)
qed (simp add: DetachHeader_def Let_def)

end
