(* ===== verification/Memory_Manager.thy ===== *)
theory Memory_Manager
  imports Memory_Header
begin

text \<open>
  ServerCore/Memory/MemoryManger.cpp, MemoryPool.cpp and MemoryLockStack.h: pools of blocks carved
  out of one chunk, with malloc for an empty pool and VirtualAlloc for large sizes. The addresses
  that Windows and malloc return are arguments; they do not fail.
\<close>

section \<open>Pools\<close>

definition stack_Push :: "'a \<Rightarrow> 'a list \<Rightarrow> 'a list" where
  "stack_Push x s = x # s"

definition stack_Pop :: "'a list \<Rightarrow> 'a option \<times> 'a list" where
  "stack_Pop s = (case s of [] \<Rightarrow> (None, s) | x # xs \<Rightarrow> (Some x, xs))"

definition stack_Empty :: "'a list \<Rightarrow> bool" where
  "stack_Empty s \<longleftrightarrow> s = []"

record mem_pool =
  useCount :: u32
  remainCount :: u32
  poolList :: "nat list"

definition empty_pool :: mem_pool where
  "empty_pool = \<lparr>useCount = 0, remainCount = 0, poolList = []\<rparr>"

definition pool_Pop :: "mem_pool \<Rightarrow> nat option \<times> mem_pool" where
  "pool_Pop p =
     (if stack_Empty (poolList p) then (None, p)
      else (case stack_Pop (poolList p) of (x, rest) \<Rightarrow>
              (x, p\<lparr>useCount := useCount p + 1, remainCount := remainCount p - 1, poolList := rest\<rparr>)))"

definition pool_Push :: "nat \<Rightarrow> bool \<Rightarrow> mem_pool \<Rightarrow> mem_pool" where
  "pool_Push ptr counting p =
     (let p1 = (if counting then p\<lparr>useCount := useCount p - 1\<rparr> else p) in
      p1\<lparr>remainCount := remainCount p1 + 1, poolList := stack_Push ptr (poolList p1)\<rparr>)"

definition GetTotalCount :: "mem_pool \<Rightarrow> u32" where
  "GetTotalCount p = remainCount p + useCount p"

section \<open>The manager\<close>

definition blockArray :: "u32 list" where
  "blockArray = [32, 64, 128, 256, 512, 1024, 2048]"

definition ratioArray :: "nat list" where
  "ratioArray = [8, 10, 14, 14, 18, 12, 8]"

definition DIVIDED_NUM :: nat where
  "DIVIDED_NUM = 7"

definition CHUNK_SIZE :: nat where
  "CHUNK_SIZE = 4096 * 128"

definition MAX_BLOCK_SIZE :: u32 where
  "MAX_BLOCK_SIZE = 2048"

text \<open>os_blocks are the bases of the live VirtualAlloc regions, heap_blocks those of malloc.\<close>

record mem_mgr =
  mem :: memory
  poolTable :: "mem_pool list"
  os_blocks :: "nat list"
  heap_blocks :: "nat list"

fun size_index :: "u32 \<Rightarrow> nat \<Rightarrow> u32 list \<Rightarrow> nat option" where
  "size_index sz i [] = None"
| "size_index sz i (b # bs) = (if sz \<le> b then Some i else size_index sz (Suc i) bs)"

definition SizeToIndex :: "u32 \<Rightarrow> nat option" where
  "SizeToIndex sz = size_index sz 0 blockArray"

text \<open>VirtualFree frees a region by its base and fails silently for another address; free does not.\<close>

definition VirtualFree :: "nat \<Rightarrow> mem_mgr \<Rightarrow> mem_mgr" where
  "VirtualFree a m = m\<lparr>os_blocks := removeAll a (os_blocks m)\<rparr>"

definition heap_free :: "nat \<Rightarrow> mem_mgr \<Rightarrow> mem_mgr option" where
  "heap_free a m =
     (if a \<in> set (heap_blocks m) then Some (m\<lparr>heap_blocks := removeAll a (heap_blocks m)\<rparr>) else None)"

definition Allocate :: "bool \<Rightarrow> nat \<Rightarrow> u32 \<Rightarrow> mem_mgr \<Rightarrow> (nat \<times> mem_mgr) option" where
  "Allocate dbg fresh sz m =
     (if MAX_BLOCK_SIZE < sz
      then (case AttachHeader dbg fresh sz Virtual (mem m) of (ptr, mm) \<Rightarrow>
              Some (ptr, m\<lparr>mem := mm, os_blocks := fresh # os_blocks m\<rparr>))
      else do {
        idx \<leftarrow> SizeToIndex sz;
        (case pool_Pop (poolTable m ! idx) of
           (None, _) \<Rightarrow>
             (case AttachHeader dbg fresh sz Malloc (mem m) of (ptr, mm) \<Rightarrow>
                Some (ptr, m\<lparr>mem := mm, heap_blocks := fresh # heap_blocks m\<rparr>))
         | (Some ptr, p) \<Rightarrow> Some (ptr, m\<lparr>poolTable := (poolTable m)[idx := p]\<rparr>)) })"

definition Release :: "bool \<Rightarrow> nat \<Rightarrow> mem_mgr \<Rightarrow> mem_mgr option" where
  "Release dbg ptr m = do {
     assert_crash (ptr \<noteq> 0);
     header \<leftarrow> DetachHeader dbg ptr (mem m);
     let sz = read_alloc_size (mem m) header;
     let type = read_alloc_type (mem m) header;
     (if MAX_BLOCK_SIZE < sz then Some (VirtualFree ptr m)
      else if type = alloc_byte Pool then do {
        idx \<leftarrow> SizeToIndex sz;
        Some (m\<lparr>poolTable := (poolTable m)[idx := pool_Push ptr True (poolTable m ! idx)]\<rparr>) }
      else if type = alloc_byte Malloc then heap_free header m
      else if type = alloc_byte Virtual then Some (VirtualFree header m)
      else Some m) }"

text \<open>
  PushChunk. The share of a class in bytes is a double that is cut to an integer; its exact value
  is never within rounding of the next integer, so it is the quotient of natural numbers.
\<close>

fun push_blocks :: "bool \<Rightarrow> nat \<Rightarrow> nat \<Rightarrow> nat \<Rightarrow> mem_mgr \<Rightarrow> mem_mgr" where
  "push_blocks dbg d 0 cursor m = m"
| "push_blocks dbg d (Suc n) cursor m =
     (let blockSize = blockArray ! d in
      case AttachHeader dbg cursor blockSize Pool (mem m) of (dataPtr, mm) \<Rightarrow>
        push_blocks dbg d n (cursor + unat (GetRealSize dbg blockSize))
          (m\<lparr>mem := mm, poolTable := (poolTable m)[d := pool_Push dataPtr False (poolTable m ! d)]\<rparr>))"

definition block_count :: "bool \<Rightarrow> nat \<Rightarrow> nat" where
  "block_count dbg d =
     CHUNK_SIZE * ratioArray ! d div sum_list ratioArray div unat (GetRealSize dbg (blockArray ! d))"

fun carve :: "bool \<Rightarrow> nat list \<Rightarrow> nat \<Rightarrow> nat \<Rightarrow> mem_mgr \<Rightarrow> mem_mgr" where
  "carve dbg [] cursor chunkSize m = m"
| "carve dbg (d # ds) cursor chunkSize m =
     (let blockCount = block_count dbg d;
          realAllocBytes = blockCount * unat (GetRealSize dbg (blockArray ! d)) in
      if chunkSize < realAllocBytes then m
      else carve dbg ds (cursor + realAllocBytes) (chunkSize - realAllocBytes)
             (push_blocks dbg d blockCount cursor m))"

definition PushChunk :: "bool \<Rightarrow> nat \<Rightarrow> mem_mgr \<Rightarrow> mem_mgr" where
  "PushChunk dbg chunk m =
     carve dbg [0..<DIVIDED_NUM] chunk CHUNK_SIZE (m\<lparr>os_blocks := chunk # os_blocks m\<rparr>)"

definition mgr_Init :: "bool \<Rightarrow> nat \<Rightarrow> memory \<Rightarrow> mem_mgr" where
  "mgr_Init dbg chunk mm =
     PushChunk dbg chunk \<lparr>mem = mm, poolTable = replicate DIVIDED_NUM empty_pool, os_blocks = [],
       heap_blocks = []\<rparr>"

section \<open>Size classes\<close>

lemma SizeToIndex_spec:
  "SizeToIndex sz = (if sz \<le> 32 then Some 0 else if sz \<le> 64 then Some 1 else if sz \<le> 128 then Some 2
     else if sz \<le> 256 then Some 3 else if sz \<le> 512 then Some 4 else if sz \<le> 1024 then Some 5
     else if sz \<le> 2048 then Some 6 else None)"
  by (simp add: SizeToIndex_def blockArray_def)

lemma SizeToIndex_fits:
  assumes "SizeToIndex sz = Some i"
  shows "i < 7" and "sz \<le> blockArray ! i"
  using assms by (auto simp: SizeToIndex_spec blockArray_def split: if_splits)

lemma SizeToIndex_small: "\<not> MAX_BLOCK_SIZE < sz \<Longrightarrow> \<exists>i. SizeToIndex sz = Some i"
  by (auto simp: SizeToIndex_spec MAX_BLOCK_SIZE_def)

lemma less_7: "i < 7 \<longleftrightarrow> i \<in> {0, 1, 2, 3, 4, 5, 6 :: nat}"
  by auto

lemma SizeToIndex_class: "i < 7 \<Longrightarrow> SizeToIndex (blockArray ! i) = Some i"
  unfolding less_7 by (elim insertE emptyE) (simp_all add: SizeToIndex_spec blockArray_def)

lemma class_small: "i < 7 \<Longrightarrow> \<not> MAX_BLOCK_SIZE < blockArray ! i"
  unfolding less_7 by (elim insertE emptyE) (simp_all add: MAX_BLOCK_SIZE_def blockArray_def)

end
