(* ===== verification/Memory_World.thy ===== *)
theory Memory_World
  imports Memory_Manager
begin

text \<open>
  The memory manager in use: callers allocate, write to what they were given and release it. The
  world remembers the blocks that exist (base, capacity, type) and the live allocations (pointer,
  requested size). The invariant says that blocks never overlap and their headers stay whole.
\<close>

section \<open>The world\<close>

type_synonym block = "nat \<times> u32 \<times> alloc_type"

record mem_world =
  mgr :: mem_mgr
  blocks :: "block set"
  live :: "(nat \<times> u32) list"

definition extent :: "bool \<Rightarrow> block \<Rightarrow> nat set" where
  "extent dbg b = block_extent dbg (fst b) (fst (snd b))"

text \<open>The block an allocation attaches a header to, if it takes none from a pool.\<close>

definition new_block :: "nat \<Rightarrow> u32 \<Rightarrow> mem_mgr \<Rightarrow> block set" where
  "new_block fresh sz m =
     (if MAX_BLOCK_SIZE < sz then {(fresh, sz, Virtual)}
      else if poolList (poolTable m ! the (SizeToIndex sz)) = [] then {(fresh, sz, Malloc)} else {})"

inductive mem_step :: "bool \<Rightarrow> mem_world \<Rightarrow> mem_world \<Rightarrow> bool" for dbg where
  alloc: "unat sz < 2 ^ 31 \<Longrightarrow> (\<forall>b \<in> blocks w. extent dbg b \<inter> block_extent dbg fresh sz = {}) \<Longrightarrow>
     Allocate dbg fresh sz (mgr w) = Some (ptr, m) \<Longrightarrow>
     mem_step dbg w \<lparr>mgr = m, blocks = new_block fresh sz (mgr w) \<union> blocks w, live = (ptr, sz) # live w\<rparr>"
| release: "(ptr, req) \<in> set (live w) \<Longrightarrow> Release dbg ptr (mgr w) = Some m \<Longrightarrow>
     mem_step dbg w \<lparr>mgr = m, blocks = {b \<in> blocks w. \<not> (snd (snd b) = Malloc \<and> data_addr dbg (fst b) = ptr)},
       live = filter (\<lambda>a. fst a \<noteq> ptr) (live w)\<rparr>"
| user_write: "(ptr, req) \<in> set (live w) \<Longrightarrow> ptr \<le> x \<Longrightarrow> x < ptr + unat req \<Longrightarrow>
     mem_step dbg w (w\<lparr>mgr := (mgr w)\<lparr>mem := (mem (mgr w))(x := v)\<rparr>\<rparr>)"

text \<open>What PushChunk carves.\<close>

definition real_size :: "bool \<Rightarrow> nat \<Rightarrow> nat" where
  "real_size dbg d = unat (GetRealSize dbg (blockArray ! d))"

fun chunk_layout :: "bool \<Rightarrow> nat list \<Rightarrow> nat \<Rightarrow> nat \<Rightarrow> block set" where
  "chunk_layout dbg [] cursor chunkSize = {}"
| "chunk_layout dbg (d # ds) cursor chunkSize =
     (let bytes = block_count dbg d * real_size dbg d in
      if chunkSize < bytes then {}
      else (\<lambda>i. (cursor + i * real_size dbg d, blockArray ! d, Pool)) ` {..<block_count dbg d} \<union>
             chunk_layout dbg ds (cursor + bytes) (chunkSize - bytes))"

inductive mem_reach :: "bool \<Rightarrow> mem_world \<Rightarrow> bool" for dbg where
  start: "mem_reach dbg \<lparr>mgr = mgr_Init dbg chunk mm,
     blocks = chunk_layout dbg [0..<DIVIDED_NUM] chunk CHUNK_SIZE, live = []\<rparr>"
| step: "mem_reach dbg w \<Longrightarrow> mem_step dbg w w' \<Longrightarrow> mem_reach dbg w'"

section \<open>The invariant\<close>

definition apart :: "bool \<Rightarrow> block set \<Rightarrow> bool" where
  "apart dbg bs \<longleftrightarrow> (\<forall>b \<in> bs. \<forall>b' \<in> bs. b \<noteq> b' \<longrightarrow> extent dbg b \<inter> extent dbg b' = {})"

definition block_inv :: "bool \<Rightarrow> mem_mgr \<Rightarrow> block \<Rightarrow> bool" where
  "block_inv dbg m b \<longleftrightarrow> (case b of (p, sz, ty) \<Rightarrow>
     block_ok dbg (mem m) p sz ty \<and> (ty = Virtual \<longleftrightarrow> MAX_BLOCK_SIZE < sz) \<and>
     (ty = Malloc \<longrightarrow> p \<in> set (heap_blocks m)) \<and> (ty = Pool \<longrightarrow> (\<exists>d < 7. sz = blockArray ! d)))"

definition free_ptrs :: "mem_mgr \<Rightarrow> nat list" where
  "free_ptrs m = concat (map poolList (poolTable m))"

definition pools_inv :: "bool \<Rightarrow> mem_mgr \<Rightarrow> block set \<Rightarrow> bool" where
  "pools_inv dbg m bs \<longleftrightarrow> length (poolTable m) = 7 \<and>
     (\<forall>d < 7. \<forall>ptr \<in> set (poolList (poolTable m ! d)). \<exists>p. (p, blockArray ! d, Pool) \<in> bs \<and> ptr = data_addr dbg p)"

definition mem_inv :: "bool \<Rightarrow> mem_world \<Rightarrow> bool" where
  "mem_inv dbg w \<longleftrightarrow> apart dbg (blocks w) \<and> (\<forall>b \<in> blocks w. block_inv dbg (mgr w) b) \<and>
     pools_inv dbg (mgr w) (blocks w) \<and>
     (\<forall>(ptr, req) \<in> set (live w). \<exists>p sz ty. (p, sz, ty) \<in> blocks w \<and> ptr = data_addr dbg p \<and> req \<le> sz) \<and>
     distinct (free_ptrs (mgr w) @ map fst (live w))"

section \<open>Blocks and pointers\<close>

lemma data_addr_inj [simp]: "data_addr dbg p = data_addr dbg q \<longleftrightarrow> p = q"
  by (simp add: data_addr_def)

lemma data_addr_pos [simp]: "0 < data_addr dbg p"
  by (simp add: data_addr_def sizeof_memory_header_def)

lemma base_in_extent: "p \<in> extent dbg (p, sz, ty)"
  by (simp add: extent_def block_extent_def)

lemma apart_same_base: "apart dbg bs \<Longrightarrow> (p, sz, ty) \<in> bs \<Longrightarrow> (p, sz', ty') \<in> bs \<Longrightarrow> sz = sz' \<and> ty = ty'"
  using base_in_extent unfolding apart_def by fastforce

lemma keep_all_blocks:
  assumes "apart dbg bs" and "(p, sz, ty) \<in> bs" and "ty \<noteq> Malloc"
  shows "{b \<in> bs. \<not> (snd (snd b) = Malloc \<and> data_addr dbg (fst b) = data_addr dbg p)} = bs"
proof -
  have "ty' \<noteq> Malloc" if "(p, sz', ty') \<in> bs" for sz' ty'
    using apart_same_base [OF assms(1) assms(2) that] assms(3) by blast
  then show ?thesis by auto
qed

lemma data_in_extent: "data_extent dbg p sz \<subseteq> extent dbg (p, sz, ty)"
  by (auto simp: data_extent_def extent_def block_extent_def data_addr_def sizeof_memory_header_def
      GUARD_SIZE_def)

lemma unat_GetRealSize:
  assumes "unat sz < 2 ^ 31"
  shows "unat (GetRealSize dbg sz) = 8 + (if dbg then 16 else 0) + unat sz"
proof -
  have "unat (8 + sz) = 8 + unat sz" using assms unat_add_le [of 8 sz] by simp
  moreover from this have "unat (8 + sz + 16) = 8 + unat sz + 16"
    using assms unat_add_le [of "8 + sz" 16] by simp
  ultimately show ?thesis by (simp add: GetRealSize_def sizeof_memory_header_def GUARD_SIZE_def)
qed

text \<open>Attaching a header outside a block does not touch it.\<close>

lemma block_ok_attach:
  assumes "block_ok dbg m p sz ty" and "block_extent dbg p sz \<inter> block_extent dbg q sz' = {}"
  shows "block_ok dbg (snd (AttachHeader dbg q sz' ty' m)) p sz ty"
proof -
  have "snd (AttachHeader dbg q sz' ty' m) x = m x" if "x \<in> block_extent dbg p sz" for x
    using assms(2) that by (intro AttachHeader_outside) blast
  with block_ok_cong [of dbg p sz "snd (AttachHeader dbg q sz' ty' m)" m ty] assms(1) show ?thesis
    by auto
qed

lemma free_ptrs_split:
  assumes "d < length (poolTable m)"
  obtains xs ys where "free_ptrs m = xs @ poolList (poolTable m ! d) @ ys"
    and "\<And>p' (m' :: mem_mgr). poolTable m' = (poolTable m)[d := p'] \<Longrightarrow> free_ptrs m' = xs @ poolList p' @ ys"
proof
  let ?xs = "concat (map poolList (take d (poolTable m)))"
  let ?ys = "concat (map poolList (drop (Suc d) (poolTable m)))"
  have "poolTable m = take d (poolTable m) @ (poolTable m ! d) # drop (Suc d) (poolTable m)"
    using assms by (rule id_take_nth_drop)
  then show "free_ptrs m = ?xs @ poolList (poolTable m ! d) @ ?ys"
    unfolding free_ptrs_def by (metis concat.simps(2) concat_append list.simps(9) map_append)
  fix p' and m' :: mem_mgr assume "poolTable m' = (poolTable m)[d := p']"
  then have "poolTable m' = take d (poolTable m) @ p' # drop (Suc d) (poolTable m)"
    using assms by (simp add: upd_conv_take_nth_drop)
  then show "free_ptrs m' = ?xs @ poolList p' @ ?ys" by (simp add: free_ptrs_def)
qed

lemma pool_Pop_cases:
  obtains (empty) "poolList p = []" "pool_Pop p = (None, p)"
  | (taken) x xs where "poolList p = x # xs"
      "pool_Pop p = (Some x, p\<lparr>useCount := useCount p + 1, remainCount := remainCount p - 1, poolList := xs\<rparr>)"
  by (cases "poolList p") (auto simp: pool_Pop_def stack_Pop_def stack_Empty_def)

lemma pool_Push_list [simp]: "poolList (pool_Push ptr counting p) = ptr # poolList p"
  by (simp add: pool_Push_def stack_Push_def Let_def)

section \<open>Allocation keeps the invariant\<close>

lemma free_ptr_block:
  assumes "pools_inv dbg m bs" and "x \<in> set (free_ptrs m)"
  shows "\<exists>p sz. (p, sz, Pool) \<in> bs \<and> x = data_addr dbg p"
proof -
  from assms(2) obtain pl where pl: "pl \<in> set (poolTable m)" "x \<in> set (poolList pl)"
    by (auto simp: free_ptrs_def)
  then obtain d where "d < length (poolTable m)" "poolTable m ! d = pl" by (auto simp: in_set_conv_nth)
  with assms(1) pl(2) show ?thesis unfolding pools_inv_def by metis
qed

text \<open>A new block, attached apart from all others.\<close>

lemma attach_inv:
  assumes inv: "mem_inv dbg w" and size: "unat sz < 2 ^ 31"
    and apart: "\<forall>b \<in> blocks w. extent dbg b \<inter> block_extent dbg fresh sz = {}"
    and m: "mem m = snd (AttachHeader dbg fresh sz ty (mem (mgr w)))" "poolTable m = poolTable (mgr w)"
      "set (heap_blocks (mgr w)) \<subseteq> set (heap_blocks m)"
    and ty: "ty = Virtual \<longleftrightarrow> MAX_BLOCK_SIZE < sz" "ty = Malloc \<longrightarrow> fresh \<in> set (heap_blocks m)"
      "ty = Pool \<longrightarrow> (\<exists>d < 7. sz = blockArray ! d)"
  shows "apart dbg (insert (fresh, sz, ty) (blocks w))"
    and "\<forall>b \<in> insert (fresh, sz, ty) (blocks w). block_inv dbg m b"
    and "pools_inv dbg m (insert (fresh, sz, ty) (blocks w))"
    and "data_addr dbg fresh \<notin> set (free_ptrs (mgr w) @ map fst (live w))"
    and "\<forall>(ptr, req) \<in> set ((data_addr dbg fresh, sz) # live w). \<exists>p sz' ty'.
      (p, sz', ty') \<in> insert (fresh, sz, ty) (blocks w) \<and> ptr = data_addr dbg p \<and> req \<le> sz'"
proof -
  have "\<exists>p sz' ty'. (p, sz', ty') \<in> insert (fresh, sz, ty) (blocks w) \<and> ptr = data_addr dbg p \<and> req \<le> sz'"
    if "(ptr, req) \<in> set (live w)" for ptr req
    using inv that unfolding mem_inv_def by blast
  then show "\<forall>(ptr, req) \<in> set ((data_addr dbg fresh, sz) # live w). \<exists>p sz' ty'.
      (p, sz', ty') \<in> insert (fresh, sz, ty) (blocks w) \<and> ptr = data_addr dbg p \<and> req \<le> sz'"
    by auto
  show "apart dbg (insert (fresh, sz, ty) (blocks w))"
    using inv apart by (auto simp: mem_inv_def apart_def extent_def)
  have "block_inv dbg m b" if "b \<in> blocks w" for b
  proof -
    obtain p sz' ty' where b: "b = (p, sz', ty')" by (cases b)
    have "block_ok dbg (mem (mgr w)) p sz' ty'" using inv that b by (auto simp: mem_inv_def block_inv_def)
    then have "block_ok dbg (mem m) p sz' ty'"
      unfolding m(1) using bspec [OF apart that] b by (intro block_ok_attach) (simp_all add: extent_def)
    then show ?thesis using inv that b m(3) by (auto simp: mem_inv_def block_inv_def)
  qed
  moreover have "block_inv dbg m (fresh, sz, ty)"
    using ty AttachHeader_block m(1) by (simp add: block_inv_def)
  ultimately show "\<forall>b \<in> insert (fresh, sz, ty) (blocks w). block_inv dbg m b" by blast
  show "pools_inv dbg m (insert (fresh, sz, ty) (blocks w))"
    using inv m(2) by (force simp: mem_inv_def pools_inv_def)
  have none: "(fresh, sz', ty') \<notin> blocks w" for sz' ty'
    using apart base_in_extent [of fresh dbg sz' ty'] by (fastforce simp: extent_def block_extent_def)
  show "data_addr dbg fresh \<notin> set (free_ptrs (mgr w) @ map fst (live w))"
  proof
    assume "data_addr dbg fresh \<in> set (free_ptrs (mgr w) @ map fst (live w))"
    then have "\<exists>sz' ty'. (fresh, sz', ty') \<in> blocks w"
      using free_ptr_block [of dbg "mgr w" "blocks w" "data_addr dbg fresh"] inv
      by (fastforce simp: mem_inv_def)
    with none show False by blast
  qed
qed

lemma alloc_inv:
  assumes inv: "mem_inv dbg w" and size: "unat sz < 2 ^ 31"
    and apart: "\<forall>b \<in> blocks w. extent dbg b \<inter> block_extent dbg fresh sz = {}"
    and run: "Allocate dbg fresh sz (mgr w) = Some (ptr, m)"
  shows "mem_inv dbg \<lparr>mgr = m, blocks = new_block fresh sz (mgr w) \<union> blocks w, live = (ptr, sz) # live w\<rparr>"
proof (cases "MAX_BLOCK_SIZE < sz")
  case True
  then have m: "ptr = data_addr dbg fresh" "m = (mgr w)\<lparr>mem := snd (AttachHeader dbg fresh sz Virtual (mem (mgr w))),
      os_blocks := fresh # os_blocks (mgr w)\<rparr>"
    using run by (auto simp: Allocate_def split_beta)
  note att = attach_inv [OF inv size apart, of m Virtual]
  have "free_ptrs m = free_ptrs (mgr w)" using m(2) by (simp add: free_ptrs_def)
  then have "distinct (free_ptrs m @ map fst ((ptr, sz) # live w))"
    using att(4) True m inv by (simp add: mem_inv_def)
  with att True m show ?thesis by (simp add: mem_inv_def new_block_def)
next
  case False
  then obtain idx where idx: "SizeToIndex sz = Some idx" using SizeToIndex_small by blast
  note fits = SizeToIndex_fits [OF idx]
  let ?p = "poolTable (mgr w) ! idx"
  show ?thesis
  proof (cases rule: pool_Pop_cases [of ?p])
    case empty
    then have m: "ptr = data_addr dbg fresh" "m = (mgr w)\<lparr>mem := snd (AttachHeader dbg fresh sz Malloc (mem (mgr w))),
        heap_blocks := fresh # heap_blocks (mgr w)\<rparr>"
      using run False idx by (auto simp: Allocate_def split_beta)
    note att = attach_inv [OF inv size apart, of m Malloc]
    have hb: "set (heap_blocks (mgr w)) \<subseteq> set (heap_blocks m)" using m(2) by auto
    have "free_ptrs m = free_ptrs (mgr w)" using m(2) by (simp add: free_ptrs_def)
    then have "distinct (free_ptrs m @ map fst ((ptr, sz) # live w))"
      using att(4) hb False m inv by (simp add: mem_inv_def)
    with att hb False m idx empty show ?thesis by (simp add: mem_inv_def new_block_def)
  next
    case (taken x xs)
    let ?p' = "?p\<lparr>useCount := useCount ?p + 1, remainCount := remainCount ?p - 1, poolList := xs\<rparr>"
    from taken have m: "ptr = x" "m = (mgr w)\<lparr>poolTable := (poolTable (mgr w))[idx := ?p']\<rparr>"
      using run False idx by (auto simp: Allocate_def)
    have len: "length (poolTable (mgr w)) = 7" using inv by (simp add: mem_inv_def pools_inv_def)
    then have "idx < length (poolTable (mgr w))" using fits(1) by simp
    from free_ptrs_split [OF this] obtain ys zs where free: "free_ptrs (mgr w) = ys @ (x # xs) @ zs"
      "\<And>p' (m' :: mem_mgr). poolTable m' = (poolTable (mgr w))[idx := p'] \<Longrightarrow> free_ptrs m' = ys @ poolList p' @ zs"
      using taken(1) by metis
    have free': "free_ptrs m = ys @ xs @ zs" using free(2) [of m ?p'] m(2) by simp
    obtain p where p: "(p, blockArray ! idx, Pool) \<in> blocks w" "x = data_addr dbg p"
    proof -
      have "x \<in> set (poolList ?p)" using taken(1) by simp
      then show thesis using inv fits(1) that unfolding mem_inv_def pools_inv_def by blast
    qed
    have "pools_inv dbg m (blocks w)"
      using inv taken(1) len fits(1) by (auto simp: mem_inv_def pools_inv_def m(2) nth_list_update)
    moreover have "\<forall>b \<in> blocks w. block_inv dbg m b"
      using inv by (auto simp: mem_inv_def block_inv_def m(2))
    moreover have "distinct (free_ptrs m @ map fst ((ptr, sz) # live w))"
    proof -
      have "distinct ((ys @ (x # xs) @ zs) @ map fst (live w))"
        using inv unfolding mem_inv_def free(1) by blast
      then show ?thesis by (auto simp: free' m(1))
    qed
    moreover have "\<exists>p sz' ty. (p, sz', ty) \<in> blocks w \<and> a = data_addr dbg p \<and> req \<le> sz'"
      if "(a, req) \<in> set ((ptr, sz) # live w)" for a req
    proof (cases "(a, req) \<in> set (live w)")
      case True
      with inv show ?thesis unfolding mem_inv_def by blast
    next
      case False
      with that p fits(2) m(1) show ?thesis by auto
    qed
    moreover have "new_block fresh sz (mgr w) = {}" using False idx taken(1) by (simp add: new_block_def)
    ultimately show ?thesis using inv by (simp add: mem_inv_def)
  qed
qed

section \<open>Releasing keeps it\<close>

lemma live_block:
  assumes "mem_inv dbg w" and "(ptr, req) \<in> set (live w)"
  obtains p sz ty where "(p, sz, ty) \<in> blocks w" "ptr = data_addr dbg p" "req \<le> sz"
    "DetachHeader dbg ptr (mem (mgr w)) = Some p" "read_alloc_size (mem (mgr w)) p = sz"
    "read_alloc_type (mem (mgr w)) p = alloc_byte ty" "ty = Virtual \<longleftrightarrow> MAX_BLOCK_SIZE < sz"
    "ty = Malloc \<longrightarrow> p \<in> set (heap_blocks (mgr w))" "ty = Pool \<longrightarrow> (\<exists>d < 7. sz = blockArray ! d)"
proof -
  obtain p sz ty where b: "(p, sz, ty) \<in> blocks w" "ptr = data_addr dbg p" "req \<le> sz"
    using assms unfolding mem_inv_def by blast
  have "block_inv dbg (mgr w) (p, sz, ty)" using assms(1) b(1) unfolding mem_inv_def by blast
  then have bi: "block_ok dbg (mem (mgr w)) p sz ty" "ty = Virtual \<longleftrightarrow> MAX_BLOCK_SIZE < sz"
    "ty = Malloc \<longrightarrow> p \<in> set (heap_blocks (mgr w))" "ty = Pool \<longrightarrow> (\<exists>d < 7. sz = blockArray ! d)"
    by (simp_all add: block_inv_def)
  have "DetachHeader dbg ptr (mem (mgr w)) = Some p" using bi(1) b(2) DetachHeader_block by simp
  moreover have "read_alloc_size (mem (mgr w)) p = sz" "read_alloc_type (mem (mgr w)) p = alloc_byte ty"
    using bi(1) by (simp_all add: block_ok_def)
  ultimately show thesis using that [OF b] bi(2-4) by blast
qed

text \<open>What Release does with a live pointer, by the type of its block.\<close>

lemma Release_live:
  assumes inv: "mem_inv dbg w" and l: "(ptr, req) \<in> set (live w)"
  obtains (large) p sz where "(p, sz, Virtual) \<in> blocks w" "ptr = data_addr dbg p" "MAX_BLOCK_SIZE < sz"
      "Release dbg ptr (mgr w) = Some (VirtualFree ptr (mgr w))"
  | (pool) p d where "(p, blockArray ! d, Pool) \<in> blocks w" "ptr = data_addr dbg p" "d < 7"
      "Release dbg ptr (mgr w) = Some ((mgr w)\<lparr>poolTable := (poolTable (mgr w))
         [d := pool_Push ptr True (poolTable (mgr w) ! d)]\<rparr>)"
  | (heap) p sz where "(p, sz, Malloc) \<in> blocks w" "ptr = data_addr dbg p"
      "Release dbg ptr (mgr w) = Some ((mgr w)\<lparr>heap_blocks := removeAll p (heap_blocks (mgr w))\<rparr>)"
proof -
  obtain p sz ty where b: "(p, sz, ty) \<in> blocks w" "ptr = data_addr dbg p"
    "DetachHeader dbg ptr (mem (mgr w)) = Some p" "read_alloc_size (mem (mgr w)) p = sz"
    "read_alloc_type (mem (mgr w)) p = alloc_byte ty" "ty = Virtual \<longleftrightarrow> MAX_BLOCK_SIZE < sz"
    "ty = Malloc \<longrightarrow> p \<in> set (heap_blocks (mgr w))" "ty = Pool \<longrightarrow> (\<exists>d < 7. sz = blockArray ! d)"
    by (rule live_block [OF inv l]) (rule that)
  have run: "Release dbg ptr (mgr w) =
     (if MAX_BLOCK_SIZE < sz then Some (VirtualFree ptr (mgr w))
      else if alloc_byte ty = alloc_byte Pool then do {
        idx \<leftarrow> SizeToIndex sz;
        Some ((mgr w)\<lparr>poolTable := (poolTable (mgr w))[idx := pool_Push ptr True (poolTable (mgr w) ! idx)]\<rparr>) }
      else if alloc_byte ty = alloc_byte Malloc then heap_free p (mgr w)
      else if alloc_byte ty = alloc_byte Virtual then Some (VirtualFree p (mgr w))
      else Some (mgr w))"
    using b(3-5) by (simp add: Release_def b(2) Let_def)
  show thesis
  proof (cases ty)
    case Pool
    then obtain d where d: "d < 7" "sz = blockArray ! d" using b(8) by blast
    with run Pool show thesis using b(1,2) class_small SizeToIndex_class by (intro pool [of p d]) simp_all
  next
    case Malloc
    with run b(6,7) show thesis using b(1,2) by (intro heap [of p sz]) (simp_all add: heap_free_def)
  next
    case Virtual
    with run b(6) show thesis using b(1,2) by (intro large [of p sz]) simp_all
  qed
qed

lemma release_inv:
  assumes inv: "mem_inv dbg w" and l: "(ptr, req) \<in> set (live w)"
    and run: "Release dbg ptr (mgr w) = Some m"
  shows "mem_inv dbg \<lparr>mgr = m,
       blocks = {b \<in> blocks w. \<not> (snd (snd b) = Malloc \<and> data_addr dbg (fst b) = ptr)},
       live = filter (\<lambda>a. fst a \<noteq> ptr) (live w)\<rparr>"
proof -
  let ?bs = "{b \<in> blocks w. \<not> (snd (snd b) = Malloc \<and> data_addr dbg (fst b) = ptr)}"
  let ?live = "filter (\<lambda>a. fst a \<noteq> ptr) (live w)"
  have ap: "apart dbg (blocks w)" using inv by (simp add: mem_inv_def)
  then have 1: "apart dbg ?bs" by (auto simp: apart_def)
  have 2: "\<exists>p sz ty. (p, sz, ty) \<in> ?bs \<and> a = data_addr dbg p \<and> r \<le> sz" if "(a, r) \<in> set ?live" for a r
  proof -
    have "\<exists>p sz ty. (p, sz, ty) \<in> blocks w \<and> a = data_addr dbg p \<and> r \<le> sz"
      using inv that unfolding mem_inv_def by auto
    then show ?thesis using that by fastforce
  qed
  have dist: "distinct (free_ptrs (mgr w) @ map fst (live w))" using inv by (simp add: mem_inv_def)
  then have dist': "distinct (map fst ?live)" "set (free_ptrs (mgr w)) \<inter> fst ` set ?live = {}"
    by (auto simp: distinct_map_filter)
  have ptr: "ptr \<notin> set (free_ptrs (mgr w))" using dist l by (force simp: distinct_append)
  show ?thesis
  proof (cases rule: Release_live [OF inv l, case_names large pool heap])
    case (large p sz)
    then have bs: "?bs = blocks w" using keep_all_blocks [OF ap large(1)] by simp
    have "m = VirtualFree ptr (mgr w)" using large run by simp
    with inv 2 dist dist' bs show ?thesis
      by (simp add: mem_inv_def VirtualFree_def block_inv_def pools_inv_def free_ptrs_def split_beta)
  next
    case (pool p d)
    then have bs: "?bs = blocks w" using keep_all_blocks [OF ap pool(1)] by simp
    have m: "m = (mgr w)\<lparr>poolTable := (poolTable (mgr w))[d := pool_Push ptr True (poolTable (mgr w) ! d)]\<rparr>"
      using pool run by simp
    have len: "d < length (poolTable (mgr w))" using inv pool(3) by (simp add: mem_inv_def pools_inv_def)
    from free_ptrs_split [OF len] obtain ys zs where
      free: "free_ptrs (mgr w) = ys @ poolList (poolTable (mgr w) ! d) @ zs"
      "free_ptrs m = ys @ poolList (pool_Push ptr True (poolTable (mgr w) ! d)) @ zs"
      using m by (metis mem_mgr.select_convs(2) mem_mgr.surjective mem_mgr.update_convs(2))
    have "distinct (free_ptrs m @ map fst ?live)"
      using dist dist' ptr by (auto simp: free)
    moreover have "pools_inv dbg m (blocks w)"
      using inv pool(1-3) len by (auto simp: mem_inv_def pools_inv_def m nth_list_update)
    moreover have "\<forall>b \<in> blocks w. block_inv dbg m b" using inv by (auto simp: mem_inv_def block_inv_def m)
    moreover have "\<forall>(a, r) \<in> set ?live. \<exists>p sz ty. (p, sz, ty) \<in> blocks w \<and> a = data_addr dbg p \<and> r \<le> sz"
      using 2 unfolding bs by blast
    ultimately show ?thesis using ap unfolding mem_inv_def bs mem_world.simps by blast
  next
    case (heap p sz)
    have m: "m = (mgr w)\<lparr>heap_blocks := removeAll p (heap_blocks (mgr w))\<rparr>" using heap run by simp
    have "block_inv dbg m b" if "b \<in> ?bs" for b
    proof -
      have "block_inv dbg (mgr w) b" using inv that by (simp add: mem_inv_def)
      moreover have "fst b \<noteq> p \<or> snd (snd b) \<noteq> Malloc" using that heap(2) by auto
      ultimately show ?thesis by (auto simp: block_inv_def m split_beta)
    qed
    moreover have "pools_inv dbg m ?bs" using inv by (fastforce simp: mem_inv_def pools_inv_def m)
    moreover have "distinct (free_ptrs m @ map fst ?live)" using dist dist' by (simp add: free_ptrs_def m)
    ultimately show ?thesis using 1 2 by (simp add: mem_inv_def split_beta)
  qed
qed

text \<open>A caller's writes stay inside the data of its block.\<close>

lemma write_inv:
  assumes inv: "mem_inv dbg w" and l: "(ptr, req) \<in> set (live w)" and x: "ptr \<le> x" "x < ptr + unat req"
  shows "mem_inv dbg (w\<lparr>mgr := (mgr w)\<lparr>mem := (mem (mgr w))(x := v)\<rparr>\<rparr>)"
proof -
  from live_block [OF inv l] obtain p sz ty where b: "(p, sz, ty) \<in> blocks w" "ptr = data_addr dbg p"
    "req \<le> sz" by blast
  then have "x \<in> data_extent dbg p sz" using x by (auto simp: data_extent_def word_le_nat_alt)
  have "block_inv dbg ((mgr w)\<lparr>mem := (mem (mgr w))(x := v)\<rparr>) b'" if b': "b' \<in> blocks w" for b'
  proof -
    obtain q sz' ty' where q: "b' = (q, sz', ty')" by (cases b')
    have "x \<notin> block_extent dbg q sz' - data_extent dbg q sz'"
    proof (cases "b' = (p, sz, ty)")
      case True
      with q \<open>x \<in> data_extent dbg p sz\<close> show ?thesis by simp
    next
      case False
      then have "extent dbg b' \<inter> extent dbg (p, sz, ty) = {}"
        using inv b' b(1) by (auto simp: mem_inv_def apart_def)
      with \<open>x \<in> data_extent dbg p sz\<close> data_in_extent [of dbg p sz ty] q show ?thesis
        by (auto simp: extent_def)
    qed
    then have "block_ok dbg ((mem (mgr w))(x := v)) q sz' ty' = block_ok dbg (mem (mgr w)) q sz' ty'"
      by (intro block_ok_cong) auto
    moreover have "block_inv dbg (mgr w) b'" using inv b' by (simp add: mem_inv_def)
    ultimately show ?thesis by (simp add: block_inv_def q)
  qed
  with inv show ?thesis by (simp add: mem_inv_def pools_inv_def free_ptrs_def)
qed

lemma mem_step_inv: "mem_step dbg w w' \<Longrightarrow> mem_inv dbg w \<Longrightarrow> mem_inv dbg w'"
proof (induction rule: mem_step.induct)
  case (alloc sz w fresh ptr m)
  then show ?case by (intro alloc_inv)
next
  case (release ptr req w m)
  then show ?case by (intro release_inv)
next
  case (user_write ptr req w x v)
  then show ?case by (intro write_inv)
qed

section \<open>The first chunk\<close>

text \<open>A block carved at the cursor, with all blocks so far below it.\<close>

lemma push_block_inv:
  assumes inv: "mem_inv dbg \<lparr>mgr = m, blocks = bs, live = []\<rparr>" and d: "d < 7"
    and below: "\<forall>b \<in> bs. extent dbg b \<subseteq> {..<cursor}"
    and m': "m' = m\<lparr>mem := snd (AttachHeader dbg cursor (blockArray ! d) Pool (mem m)),
      poolTable := (poolTable m)[d := pool_Push (data_addr dbg cursor) False (poolTable m ! d)]\<rparr>"
  shows "mem_inv dbg \<lparr>mgr = m', blocks = insert (cursor, blockArray ! d, Pool) bs, live = []\<rparr>"
proof -
  let ?b = "(cursor, blockArray ! d, Pool)"
  let ?w = "\<lparr>mgr = m, blocks = bs, live = []\<rparr>"
  let ?m = "m\<lparr>mem := snd (AttachHeader dbg cursor (blockArray ! d) Pool (mem m))\<rparr>"
  have "unat (blockArray ! d) < 2 ^ 31"
    using d unfolding less_7 by (elim insertE emptyE) (simp_all add: blockArray_def)
  moreover have "\<forall>b \<in> blocks ?w. extent dbg b \<inter> block_extent dbg cursor (blockArray ! d) = {}"
    using below by (fastforce simp: block_extent_def)
  ultimately have att: "apart dbg (insert ?b bs)" "\<forall>b \<in> insert ?b bs. block_inv dbg ?m b"
    "pools_inv dbg ?m (insert ?b bs)" "data_addr dbg cursor \<notin> set (free_ptrs m)"
    using attach_inv [OF inv, of "blockArray ! d" cursor ?m Pool] d class_small [OF d] by auto
  have len: "d < length (poolTable m)" using att(3) d by (simp add: pools_inv_def)
  from free_ptrs_split [OF len] obtain ys zs where
    free: "free_ptrs m = ys @ poolList (poolTable m ! d) @ zs"
    "free_ptrs m' = ys @ poolList (pool_Push (data_addr dbg cursor) False (poolTable m ! d)) @ zs"
    using m' by (metis mem_mgr.select_convs(2) mem_mgr.surjective mem_mgr.update_convs(1,2))
  have "distinct (free_ptrs m)" using inv by (simp add: mem_inv_def)
  then have "distinct (free_ptrs m')" using att(4) by (auto simp: free)
  moreover have "pools_inv dbg m' (insert ?b bs)"
    using att(3) len by (auto simp: pools_inv_def m' nth_list_update)
  moreover have "\<forall>b \<in> insert ?b bs. block_inv dbg m' b"
    using att(2) unfolding block_inv_def m' by simp
  ultimately show ?thesis using att(1) by (simp add: mem_inv_def)
qed

lemma real_size_class: "d < 7 \<Longrightarrow> real_size dbg d = 8 + (if dbg then 16 else 0) + unat (blockArray ! d)"
  unfolding less_7 real_size_def
  by (elim insertE emptyE)
     (simp_all add: GetRealSize_def blockArray_def sizeof_memory_header_def GUARD_SIZE_def)

lemma push_blocks_inv:
  assumes "mem_inv dbg \<lparr>mgr = m, blocks = bs, live = []\<rparr>" and "d < 7"
    and "\<forall>b \<in> bs. extent dbg b \<subseteq> {..<cursor}"
    and "bs' = (\<lambda>i. (cursor + i * real_size dbg d, blockArray ! d, Pool)) ` {..<n} \<union> bs"
  shows "mem_inv dbg \<lparr>mgr = push_blocks dbg d n cursor m, blocks = bs', live = []\<rparr> \<and>
    (\<forall>b \<in> bs'. extent dbg b \<subseteq> {..<cursor + n * real_size dbg d})"
  using assms
proof (induction n arbitrary: cursor m bs)
  case (Suc n)
  let ?b = "(cursor, blockArray ! d, Pool)"
  let ?m = "m\<lparr>mem := snd (AttachHeader dbg cursor (blockArray ! d) Pool (mem m)),
      poolTable := (poolTable m)[d := pool_Push (data_addr dbg cursor) False (poolTable m ! d)]\<rparr>"
  have 1: "mem_inv dbg \<lparr>mgr = ?m, blocks = insert ?b bs, live = []\<rparr>"
    by (rule push_block_inv [OF Suc.prems(1-3) refl])
  have run: "push_blocks dbg d (Suc n) cursor m = push_blocks dbg d n (cursor + real_size dbg d) ?m"
    by (simp add: split_beta Let_def real_size_def)
  have "extent dbg ?b \<subseteq> {..<cursor + real_size dbg d}"
    using real_size_class [OF Suc.prems(2)] by (auto simp: extent_def block_extent_def)
  then have 2: "\<forall>b \<in> insert ?b bs. extent dbg b \<subseteq> {..<cursor + real_size dbg d}"
    using Suc.prems(3) by fastforce
  have "(\<lambda>i. (cursor + i * real_size dbg d, blockArray ! d, Pool)) ` {..<Suc n} =
     insert ?b ((\<lambda>i. (cursor + real_size dbg d + i * real_size dbg d, blockArray ! d, Pool)) ` {..<n})"
    unfolding lessThan_Suc_eq_insert_0 by (auto simp: image_image)
  then have 3: "bs' = (\<lambda>i. (cursor + real_size dbg d + i * real_size dbg d, blockArray ! d, Pool)) ` {..<n}
     \<union> insert ?b bs" using Suc.prems(4) by simp
  show ?case using Suc.IH [OF 1 Suc.prems(2) 2 3] unfolding run by (simp add: algebra_simps)
qed simp

lemma carve_inv:
  assumes "mem_inv dbg \<lparr>mgr = m, blocks = bs, live = []\<rparr>" and "\<forall>d \<in> set ds. d < 7"
    and "\<forall>b \<in> bs. extent dbg b \<subseteq> {..<cursor}"
  shows "mem_inv dbg \<lparr>mgr = carve dbg ds cursor chunkSize m,
     blocks = chunk_layout dbg ds cursor chunkSize \<union> bs, live = []\<rparr>"
  using assms
proof (induction ds arbitrary: cursor chunkSize m bs)
  case (Cons d ds)
  let ?bytes = "block_count dbg d * real_size dbg d"
  let ?new = "(\<lambda>i. (cursor + i * real_size dbg d, blockArray ! d, Pool)) ` {..<block_count dbg d}"
  have d: "d < 7" using Cons.prems(2) by simp
  note push = push_blocks_inv [OF Cons.prems(1) d Cons.prems(3) refl, of "block_count dbg d"]
  show ?case
  proof (cases "chunkSize < ?bytes")
    case False
    have "mem_inv dbg \<lparr>mgr = carve dbg ds (cursor + ?bytes) (chunkSize - ?bytes)
         (push_blocks dbg d (block_count dbg d) cursor m),
       blocks = chunk_layout dbg ds (cursor + ?bytes) (chunkSize - ?bytes) \<union> (?new \<union> bs), live = []\<rparr>"
      using push Cons.prems(2) by (intro Cons.IH) auto
    with False show ?thesis by (simp add: Let_def real_size_def Un_ac)
  qed (use Cons.prems(1) in \<open>simp add: Let_def real_size_def\<close>)
qed simp

lemma mgr_Init_inv:
  "mem_inv dbg \<lparr>mgr = mgr_Init dbg chunk mm,
     blocks = chunk_layout dbg [0..<DIVIDED_NUM] chunk CHUNK_SIZE, live = []\<rparr>"
proof -
  let ?m = "\<lparr>mem = mm, poolTable = replicate DIVIDED_NUM empty_pool, os_blocks = [chunk], heap_blocks = []\<rparr>"
  have "mem_inv dbg \<lparr>mgr = ?m, blocks = {}, live = []\<rparr>"
    by (simp add: mem_inv_def apart_def pools_inv_def free_ptrs_def DIVIDED_NUM_def empty_pool_def)
  from carve_inv [OF this, of "[0..<DIVIDED_NUM]" chunk CHUNK_SIZE] show ?thesis
    by (simp add: mgr_Init_def PushChunk_def DIVIDED_NUM_def)
qed

lemma mem_reach_inv: "mem_reach dbg w \<Longrightarrow> mem_inv dbg w"
  by (induction rule: mem_reach.induct) (blast intro: mgr_Init_inv mem_step_inv)+

section \<open>What the chunk holds\<close>

lemma chunk_layout_within:
  assumes "b \<in> chunk_layout dbg ds cursor chunkSize" and "\<forall>d \<in> set ds. d < 7"
  shows "extent dbg b \<subseteq> {cursor..<cursor + chunkSize}"
  using assms
proof (induction dbg ds cursor chunkSize rule: chunk_layout.induct)
  case (2 dbg d ds cursor chunkSize)
  let ?bytes = "block_count dbg d * real_size dbg d"
  have fit: "?bytes \<le> chunkSize" using 2(2) by (auto simp: Let_def split: if_splits)
  with 2(2) consider i where "i < block_count dbg d" "b = (cursor + i * real_size dbg d, blockArray ! d, Pool)"
    | "b \<in> chunk_layout dbg ds (cursor + ?bytes) (chunkSize - ?bytes)"
    by (auto simp: Let_def)
  then show ?case
  proof cases
    case 1
    then have "Suc i * real_size dbg d \<le> ?bytes" by (intro mult_right_mono) simp_all
    then have "i * real_size dbg d + real_size dbg d \<le> chunkSize" using fit by simp
    then show ?thesis
      using 1 2(3) real_size_class [of d dbg] by (auto simp: extent_def block_extent_def)
  next
    case 2
    with "2.IH" "2.prems" fit have "extent dbg b \<subseteq> {cursor + ?bytes..<cursor + ?bytes + (chunkSize - ?bytes)}"
      by simp
    then show ?thesis using fit by auto
  qed
qed simp

lemma push_blocks_list:
  "d < length (poolTable m) \<Longrightarrow> map (length \<circ> poolList) (poolTable (push_blocks dbg d n cursor m)) =
     (map (length \<circ> poolList) (poolTable m))[d := length (poolList (poolTable m ! d)) + n]"
proof (induction n arbitrary: cursor m)
  case (Suc n)
  then show ?case by (simp add: split_beta Let_def map_update Suc.IH)
qed (simp add: list_eq_iff_nth_eq nth_list_update)

lemma block_counts:
  "map (block_count dbg) [0..<7] = (if dbg then [891, 709, 574, 312, 209, 71, 24] else [1248, 866, 642, 330, 216, 72, 24])"
  by (simp add: upt_rec block_count_def CHUNK_SIZE_def ratioArray_def GetRealSize_def blockArray_def
      sizeof_memory_header_def GUARD_SIZE_def)

text \<open>The classes in turn: none is left out, and the chunk is large enough.\<close>

lemma chunk_shares: "sum_list (map (\<lambda>d. block_count dbg d * real_size dbg d) [0..<7]) \<le> CHUNK_SIZE"
  by (cases dbg) (simp_all add: upt_rec block_count_def real_size_def CHUNK_SIZE_def ratioArray_def
      GetRealSize_def blockArray_def sizeof_memory_header_def GUARD_SIZE_def)

lemma carve_lists:
  assumes "\<forall>d \<in> set ds. d < length (poolTable m)" and "distinct ds"
    and "sum_list (map (\<lambda>d. block_count dbg d * real_size dbg d) ds) \<le> chunkSize"
  shows "length (poolTable (carve dbg ds cursor chunkSize m)) = length (poolTable m) \<and>
    (\<forall>d < length (poolTable m). length (poolList (poolTable (carve dbg ds cursor chunkSize m) ! d)) =
      length (poolList (poolTable m ! d)) + (if d \<in> set ds then block_count dbg d else 0))"
  using assms
proof (induction ds arbitrary: cursor chunkSize m)
  case (Cons d ds)
  let ?m = "push_blocks dbg d (block_count dbg d) cursor m"
  have d: "d < length (poolTable m)" using Cons.prems(1) by simp
  have lists: "map (length \<circ> poolList) (poolTable ?m) =
     (map (length \<circ> poolList) (poolTable m))[d := length (poolList (poolTable m ! d)) + block_count dbg d]"
    by (rule push_blocks_list [OF d])
  then have len: "length (poolTable ?m) = length (poolTable m)"
    by (metis length_list_update length_map)
  have "length (poolList (poolTable ?m ! e)) =
     length (poolList (poolTable m ! e)) + (if e = d then block_count dbg d else 0)"
    if "e < length (poolTable m)" for e
    using arg_cong [OF lists, of "\<lambda>xs. xs ! e"] that len d by (simp add: nth_list_update)
  moreover have "carve dbg (d # ds) cursor chunkSize m =
     carve dbg ds (cursor + block_count dbg d * real_size dbg d)
       (chunkSize - block_count dbg d * real_size dbg d) ?m"
    using Cons.prems(3) by (simp add: Let_def real_size_def)
  ultimately show ?case
    using Cons.IH [of ?m] Cons.prems len by auto
qed simp

section \<open>Properties\<close>

lemma live_ranges_apart:
  assumes inv: "mem_inv dbg w" and "(ptr, req) \<in> set (live w)" and "(ptr', req') \<in> set (live w)" and "ptr \<noteq> ptr'"
  shows "{ptr..<ptr + unat req} \<inter> {ptr'..<ptr' + unat req'} = {}"
proof -
  have within: "{a..<a + unat r} \<subseteq> extent dbg (p, sz, ty)" if "a = data_addr dbg p" "r \<le> sz" for a r p sz ty
    using that data_in_extent [of dbg p sz ty] by (fastforce simp: data_extent_def word_le_nat_alt)
  obtain p sz ty where b: "(p, sz, ty) \<in> blocks w" "ptr = data_addr dbg p" "req \<le> sz"
    by (rule live_block [OF inv assms(2)])
  obtain p' sz' ty' where b': "(p', sz', ty') \<in> blocks w" "ptr' = data_addr dbg p'" "req' \<le> sz'"
    by (rule live_block [OF inv assms(3)])
  have "apart dbg (blocks w)" using inv by (simp add: mem_inv_def)
  moreover have "(p, sz, ty) \<noteq> (p', sz', ty')" using assms(4) b(2) b'(2) by blast
  ultimately have "extent dbg (p, sz, ty) \<inter> extent dbg (p', sz', ty') = {}" using b(1) b'(1) unfolding apart_def by blast
  with within [OF b(2,3), of ty] within [OF b'(2,3), of ty'] show ?thesis by blast
qed

text \<open>C10: The memory a caller holds is its own: two live allocations never have the same pointer and
  the bytes asked for never overlap, whatever allocations, releases and writes led there.\<close>

theorem live_disjoint:
  assumes "mem_reach dbg w" and "(ptr, req) \<in> set (live w)" and "(ptr', req') \<in> set (live w)"
  shows "distinct (map fst (live w)) \<and>
    (ptr \<noteq> ptr' \<longrightarrow> {ptr..<ptr + unat req} \<inter> {ptr'..<ptr' + unat req'} = {})"
proof -
  have inv: "mem_inv dbg w" using assms(1) by (rule mem_reach_inv)
  then have "distinct (map fst (live w))" by (simp add: mem_inv_def)
  with live_ranges_apart [OF inv assms(2,3)] show ?thesis by blast
qed

text \<open>A large allocation always goes to the operating system.\<close>

lemma alloc_large:
  assumes "MAX_BLOCK_SIZE < sz" and "unat sz < 2 ^ 31"
    and "\<forall>b \<in> blocks w. extent dbg b \<inter> block_extent dbg fresh sz = {}"
  shows "\<exists>w' :: mem_world. mem_step dbg w w' \<and> blocks w' = insert (fresh, sz, Virtual) (blocks w) \<and>
    live w' = (data_addr dbg fresh, sz) # live w \<and> os_blocks (mgr w') = fresh # os_blocks (mgr w)"
proof -
  let ?m = "(mgr w)\<lparr>mem := snd (AttachHeader dbg fresh sz Virtual (mem (mgr w))), os_blocks := fresh # os_blocks (mgr w)\<rparr>"
  have "Allocate dbg fresh sz (mgr w) = Some (data_addr dbg fresh, ?m)"
    using assms(1) by (simp add: Allocate_def split_beta)
  from mem_step.alloc [OF assms(2,3) this] assms(1)
  have "mem_step dbg w \<lparr>mgr = ?m, blocks = insert (fresh, sz, Virtual) (blocks w),
      live = (data_addr dbg fresh, sz) # live w\<rparr>" by (simp add: new_block_def)
  then show ?thesis by (intro exI conjI) (assumption, simp_all)
qed

text \<open>The world after Init: all blocks lie in the first chunk.\<close>

definition mem_start :: "bool \<Rightarrow> mem_world" where
  "mem_start dbg = \<lparr>mgr = mgr_Init dbg 0 (\<lambda>_. 0),
     blocks = chunk_layout dbg [0..<DIVIDED_NUM] 0 CHUNK_SIZE, live = []\<rparr>"

lemma mem_start_reach: "mem_reach dbg (mem_start dbg)"
  unfolding mem_start_def by (rule mem_reach.start)

lemma mem_start_blocks: "b \<in> blocks (mem_start dbg) \<Longrightarrow> extent dbg b \<subseteq> {0..<524288}"
  using chunk_layout_within [of b dbg "[0..<DIVIDED_NUM]" 0 CHUNK_SIZE]
  by (simp add: mem_start_def DIVIDED_NUM_def CHUNK_SIZE_def)

lemma mem_start_room: "524288 \<le> fresh \<Longrightarrow> \<forall>b \<in> blocks (mem_start dbg). extent dbg b \<inter> block_extent dbg fresh sz = {}"
  using mem_start_blocks by (fastforce simp: block_extent_def)

lemma two_large:
  "\<exists>w. mem_reach dbg w \<and> live w = [(data_addr dbg 2000000, 4096), (data_addr dbg 1000000, 4096)] \<and> os_blocks (mgr w) = [2000000, 1000000, 0]"
proof -
  define w0 where "w0 = mem_start dbg"
  have reach: "mem_reach dbg w0" unfolding w0_def by (rule mem_start_reach)
  have os: "os_blocks (carve dbg ds c n m) = os_blocks m" for dbg ds c n m
  proof (induction ds arbitrary: c n m)
    case (Cons d ds)
    have "os_blocks (push_blocks dbg d k c' m') = os_blocks m'" for k c' m'
      by (induction k arbitrary: c' m') (simp_all add: split_beta Let_def)
    with Cons show ?case by (simp add: Let_def)
  qed simp
  have w0: "live w0 = []" "os_blocks (mgr w0) = [0]"
    by (simp_all add: w0_def mem_start_def mgr_Init_def PushChunk_def os)
  have big: "MAX_BLOCK_SIZE < 4096" "unat (4096 :: u32) < 2 ^ 31" by (simp_all add: MAX_BLOCK_SIZE_def)
  have "\<forall>b \<in> blocks w0. extent dbg b \<inter> block_extent dbg 1000000 4096 = {}"
    unfolding w0_def by (rule mem_start_room) simp
  from alloc_large [OF big this] obtain w1 where
    w1: "mem_step dbg w0 w1" "blocks w1 = insert (1000000, 4096, Virtual) (blocks w0)"
    "live w1 = (data_addr dbg 1000000, 4096) # live w0" "os_blocks (mgr w1) = 1000000 # os_blocks (mgr w0)"
    by blast
  have "extent dbg b \<inter> block_extent dbg 2000000 4096 = {}" if "b \<in> blocks w1" for b
  proof (cases "b \<in> blocks w0")
    case True
    then show ?thesis using mem_start_room [of 2000000 dbg 4096] by (simp add: w0_def)
  next
    case False
    with that w1(2) have "b = (1000000, 4096, Virtual)" by blast
    then show ?thesis by (cases dbg) (simp_all add: extent_def block_extent_def)
  qed
  then have "\<forall>b \<in> blocks w1. extent dbg b \<inter> block_extent dbg 2000000 4096 = {}" by blast
  from alloc_large [OF big this] obtain w2 where
    w2: "mem_step dbg w1 w2" "live w2 = (data_addr dbg 2000000, 4096) # live w1"
    "os_blocks (mgr w2) = 2000000 # os_blocks (mgr w1)"
    by blast
  have "os_blocks (mgr w2) = [2000000, 1000000, 0]" "live w2 = [(data_addr dbg 2000000, 4096), (data_addr dbg 1000000, 4096)]"
    by (simp_all add: w1(3,4) w2(2,3) w0)
  moreover have "mem_reach dbg w2" by (rule step [OF step [OF reach w1(1)] w2(1)])
  ultimately show ?thesis by blast
qed

lemma two_large_release:
  "\<exists>w. mem_reach False w \<and> live w = [(2000008, 4096), (1000008, 4096)] \<and> os_blocks (mgr w) = [2000000, 1000000, 0]"
  using two_large [of False] by (simp add: data_addr_def sizeof_memory_header_def)

lemma live_disjoint_witness:
  "\<exists>w. mem_reach False w \<and> distinct (map fst (live w)) \<and>
    {1000008..<1000008 + unat (4096 :: u32)} \<inter> {2000008..<2000008 + unat (4096 :: u32)} = ({} :: nat set)"
proof -
  obtain w where w: "mem_reach False w" "live w = [(2000008, 4096), (1000008, 4096)]" using two_large_release by blast
  then have "(1000008, 4096) \<in> set (live w)" "(2000008, 4096) \<in> set (live w)" by simp_all
  from live_disjoint [OF w(1) this] w(1) show ?thesis by auto
qed

lemma Release_live_Some:
  "mem_inv dbg w \<Longrightarrow> (ptr, req) \<in> set (live w) \<Longrightarrow> \<exists>m. Release dbg ptr (mgr w) = Some m"
  by (erule (1) Release_live) blast+

text \<open>C27: A live pointer can always be released, and a pool block is used again first: the next
  allocation of its size class gets the same pointer.\<close>

theorem release_live:
  assumes "mem_reach dbg w" and "(ptr, req) \<in> set (live w)"
  shows "\<exists>m. Release dbg ptr (mgr w) = Some m \<and>
    (\<forall>p d sz fresh. (p, blockArray ! d, Pool) \<in> blocks w \<and> ptr = data_addr dbg p \<and> SizeToIndex sz = Some d \<longrightarrow>
       (\<exists>m'. Allocate dbg fresh sz m = Some (ptr, m')))"
proof -
  have inv: "mem_inv dbg w" using assms(1) by (rule mem_reach_inv)
  then have ap: "apart dbg (blocks w)" and len: "length (poolTable (mgr w)) = 7"
    by (simp_all add: mem_inv_def pools_inv_def)
  show ?thesis
  proof (cases rule: Release_live [OF inv assms(2), case_names large pool heap])
    case (large p sz)
    have "\<not> ((p', sz', Pool) \<in> blocks w \<and> ptr = data_addr dbg p')" for p' sz'
      using apart_same_base [OF ap large(1), of sz' Pool] large(2) by auto
    with large(4) show ?thesis by blast
  next
    case (pool p d)
    let ?pool = "pool_Push ptr True (poolTable (mgr w) ! d)"
    let ?m = "(mgr w)\<lparr>poolTable := (poolTable (mgr w))[d := ?pool]\<rparr>"
    have "\<exists>m'. Allocate dbg fresh sz ?m = Some (ptr, m')"
      if "(p', blockArray ! d', Pool) \<in> blocks w" "ptr = data_addr dbg p'" "SizeToIndex sz = Some d'"
      for p' d' sz fresh
    proof -
      have d': "d' < 7" using SizeToIndex_fits that(3) by blast
      have "p' = p" using that(2) pool(2) by simp
      then have "blockArray ! d' = blockArray ! d"
        using apart_same_base [OF ap pool(1), of "blockArray ! d'" Pool] that(1) by metis
      then have "d' = d" using SizeToIndex_class [OF d'] SizeToIndex_class [OF pool(3)] by (metis option.inject)
      moreover have "\<not> MAX_BLOCK_SIZE < sz"
        using SizeToIndex_fits(2) [OF that(3)] class_small [OF d'] order_less_le_trans by blast
      moreover have "pool_Pop ((poolTable (mgr w))[d := ?pool] ! d) = (Some ptr, snd (pool_Pop ?pool))"
        using len pool(3) by (simp add: pool_Pop_def stack_Pop_def stack_Empty_def)
      ultimately show ?thesis using that(3) by (simp add: Allocate_def)
    qed
    with pool(4) show ?thesis by blast
  next
    case (heap p sz)
    have "\<not> ((p', sz', Pool) \<in> blocks w \<and> ptr = data_addr dbg p')" for p' sz'
      using apart_same_base [OF ap heap(1), of sz' Pool] heap(2) by auto
    with heap(3) show ?thesis by blast
  qed
qed

lemma release_live_witness:
  "\<exists>w m. mem_reach False w \<and> (1000008, 4096) \<in> set (live w) \<and> Release False 1000008 (mgr w) = Some m"
proof -
  obtain w where w: "mem_reach False w" "live w = [(2000008, 4096), (1000008, 4096)]" using two_large_release by blast
  then have l: "(1000008, 4096) \<in> set (live w)" by simp
  from release_live [OF w(1) l] l w(1) show ?thesis by blast
qed

text \<open>A large block is never given back to the operating system: Release hands VirtualFree the
  caller's pointer, which is not the base of a region.\<close>

theorem large_release_leaks:
  assumes "mem_reach dbg w" and "(ptr, req) \<in> set (live w)" and "MAX_BLOCK_SIZE < req"
    and "ptr \<notin> set (os_blocks (mgr w))"
  shows "\<exists>m. Release dbg ptr (mgr w) = Some m \<and> os_blocks m = os_blocks (mgr w)"
proof -
  have inv: "mem_inv dbg w" using assms(1) by (rule mem_reach_inv)
  obtain p sz ty where b: "(p, sz, ty) \<in> blocks w" "ptr = data_addr dbg p" "req \<le> sz" "ty = Virtual \<longleftrightarrow> MAX_BLOCK_SIZE < sz"
    by (rule live_block [OF inv assms(2)])
  then have ty: "(p, sz, Virtual) \<in> blocks w" using assms(3) by auto
  have ap: "apart dbg (blocks w)" using inv by (simp add: mem_inv_def)
  show ?thesis
  proof (cases rule: Release_live [OF inv assms(2), case_names large pool heap])
    case (large p sz)
    with assms(4) show ?thesis by (simp add: VirtualFree_def)
  next
    case (pool p' d)
    with apart_same_base [OF ap ty, of "blockArray ! d" Pool] b(2) show ?thesis by simp
  next
    case (heap p' sz')
    with apart_same_base [OF ap ty, of sz' Malloc] b(2) show ?thesis by simp
  qed
qed

lemma large_release_leaks_witness:
  "\<exists>w m. mem_reach False w \<and> Release False 1000008 (mgr w) = Some m \<and> 1000000 \<in> set (os_blocks m)"
proof -
  obtain w where w: "mem_reach False w" "live w = [(2000008, 4096), (1000008, 4096)]"
    "os_blocks (mgr w) = [2000000, 1000000, 0]" using two_large_release by blast
  then have l: "(1000008, 4096) \<in> set (live w)" "1000008 \<notin> set (os_blocks (mgr w))" by simp_all
  have "MAX_BLOCK_SIZE < 4096" by (simp add: MAX_BLOCK_SIZE_def)
  from large_release_leaks [OF w(1) l(1) this l(2)] w show ?thesis by auto
qed

text \<open>C28: In a debug build a write outside the data of a block is caught when the block is released, if
  it damages one of the guards; a write inside it is not taken for one.\<close>

theorem guards_detect:
  assumes "mem_reach True w" and "(ptr, req) \<in> set (live w)"
  shows "\<exists>sz. req \<le> sz \<and>
    (\<forall>x v. x \<in> {ptr - 8..<ptr} \<union> {ptr + unat sz..<ptr + unat sz + 8} \<longrightarrow>
      (Release True ptr ((mgr w)\<lparr>mem := (mem (mgr w))(x := v)\<rparr>) = None \<longleftrightarrow> v \<noteq> GUARD_PATTERN))"
proof -
  have inv: "mem_inv True w" using assms(1) by (rule mem_reach_inv)
  obtain p sz ty where b: "(p, sz, ty) \<in> blocks w" "ptr = data_addr True p" "req \<le> sz"
    by (rule live_block [OF inv assms(2)])
  have ok: "block_ok True (mem (mgr w)) p sz ty"
  proof -
    have "block_inv True (mgr w) (p, sz, ty)" using inv b(1) unfolding mem_inv_def by blast
    then show ?thesis by (simp add: block_inv_def)
  qed
  have ptr: "ptr = p + 16" by (simp add: b(2) data_addr_def sizeof_memory_header_def GUARD_SIZE_def)
  have "Release True ptr ((mgr w)\<lparr>mem := (mem (mgr w))(x := v)\<rparr>) = None \<longleftrightarrow> v \<noteq> GUARD_PATTERN"
    if x: "x \<in> {ptr - 8..<ptr} \<union> {ptr + unat sz..<ptr + unat sz + 8}" for x v
  proof (cases "v = GUARD_PATTERN")
    case True
    have "(mem (mgr w)) x = GUARD_PATTERN"
    proof -
      consider "x - (p + 8) < 8" "x = p + 8 + (x - (p + 8))"
        | "x - (p + 16 + unat sz) < 8" "x = p + 16 + unat sz + (x - (p + 16 + unat sz))"
        using x ptr by fastforce
      then show ?thesis
      proof cases
        case 1
        then show ?thesis using ok unfolding block_ok_def by metis
      next
        case 2
        then show ?thesis using ok unfolding block_ok_def by metis
      qed
    qed
    then have "(mem (mgr w))(x := v) = mem (mgr w)" using True by auto
    with Release_live_Some [OF inv assms(2)] True show ?thesis by auto
  next
    case False
    let ?m = "(mem (mgr w))(x := v)"
    have "read_u32 ?m p = read_u32 (mem (mgr w)) p" using x ptr by (intro read_u32_cong) auto
    then have sz: "read_alloc_size ?m p = sz" using ok by (simp add: block_ok_def read_alloc_size_def)
    have "x = p + 8 + (x - (p + 8)) \<and> x - (p + 8) < 8 \<or>
        x = p + 16 + unat sz + (x - (p + 16 + unat sz)) \<and> x - (p + 16 + unat sz) < 8"
      using x ptr by auto
    then have "\<exists>i < 8. ?m (p + 8 + i) \<noteq> GUARD_PATTERN \<or> ?m (p + 16 + unat sz + i) \<noteq> GUARD_PATTERN"
      using False by (metis fun_upd_same)
    then have "DetachHeader True ptr ?m = None" using DetachHeader_None [OF sz, of True] b(2) by simp
    then show ?thesis using False by (simp add: Release_def)
  qed
  with b(3) show ?thesis by blast
qed

lemma guards_detect_witness:
  "\<exists>w sz. mem_reach True w \<and> Release True 1000016 ((mgr w)\<lparr>mem := (mem (mgr w))(1000015 := 0)\<rparr>) = None \<and>
    Release True 1000016 ((mgr w)\<lparr>mem := (mem (mgr w))(1000016 + unat sz := 0)\<rparr>) = None \<and> 4096 \<le> (sz :: u32)"
proof -
  obtain w where w: "mem_reach True w" "live w = [(data_addr True 2000000, 4096), (data_addr True 1000000, 4096)]"
    using two_large by blast
  then have l: "(1000016, 4096) \<in> set (live w)" by (simp add: data_addr_def sizeof_memory_header_def GUARD_SIZE_def)
  obtain sz :: u32 where sz: "4096 \<le> sz \<and>
    (\<forall>x v. x \<in> {1000016 - 8..<1000016} \<union> {1000016 + unat sz..<1000016 + unat sz + 8} \<longrightarrow>
      (Release True 1000016 ((mgr w)\<lparr>mem := (mem (mgr w))(x := v)\<rparr>) = None \<longleftrightarrow> v \<noteq> GUARD_PATTERN))"
    using guards_detect [OF w(1) l] ..
  have "Release True 1000016 ((mgr w)\<lparr>mem := (mem (mgr w))(x := 0)\<rparr>) = None"
    if "x = 1000015 \<or> x = 1000016 + unat sz" for x
    using conjunct2 [OF sz, rule_format, of x 0] that by (auto simp: GUARD_PATTERN_def)
  with w(1) conjunct1 [OF sz] show ?thesis by blast
qed

text \<open>The first chunk is carved as planned: each size class gets its number of blocks, none is
  skipped, and every block with its header and guards lies inside the chunk.\<close>

theorem chunk_carved:
  "map (length \<circ> poolList) (poolTable (mgr_Init dbg chunk mm)) =
     (if dbg then [891, 709, 574, 312, 209, 71, 24] else [1248, 866, 642, 330, 216, 72, 24]) \<and>
   (\<Union>b \<in> chunk_layout dbg [0..<DIVIDED_NUM] chunk CHUNK_SIZE. extent dbg b) \<subseteq> {chunk..<chunk + CHUNK_SIZE}"
proof
  let ?m = "\<lparr>mem = mm, poolTable = replicate DIVIDED_NUM empty_pool, os_blocks = [chunk], heap_blocks = []\<rparr>"
  have lists: "length (poolTable (mgr_Init dbg chunk mm)) = 7 \<and>
    (\<forall>d < 7. length (poolList (poolTable (mgr_Init dbg chunk mm) ! d)) = block_count dbg d)"
  proof -
    have m: "length (poolTable ?m) = 7" "\<forall>d < 7. poolList (poolTable ?m ! d) = []"
      by (simp_all add: DIVIDED_NUM_def empty_pool_def)
    have init: "mgr_Init dbg chunk mm = carve dbg [0..<7] chunk CHUNK_SIZE ?m"
      by (simp only: mgr_Init_def PushChunk_def DIVIDED_NUM_def mem_mgr.simps)
    have "\<forall>d \<in> set [0..<7]. d < length (poolTable ?m)" using m(1) by simp
    from carve_lists [OF this distinct_upt chunk_shares, of dbg chunk] m show ?thesis
      unfolding init m(1) by simp
  qed
  have "map (length \<circ> poolList) (poolTable (mgr_Init dbg chunk mm)) = map (block_count dbg) [0..<7]"
    using lists by (intro nth_equalityI) simp_all
  then show "map (length \<circ> poolList) (poolTable (mgr_Init dbg chunk mm)) =
     (if dbg then [891, 709, 574, 312, 209, 71, 24] else [1248, 866, 642, 330, 216, 72, 24])"
    by (simp only: block_counts)
  show "(\<Union>b \<in> chunk_layout dbg [0..<DIVIDED_NUM] chunk CHUNK_SIZE. extent dbg b) \<subseteq> {chunk..<chunk + CHUNK_SIZE}"
  proof (rule UN_least)
    fix b assume "b \<in> chunk_layout dbg [0..<DIVIDED_NUM] chunk CHUNK_SIZE"
    then show "extent dbg b \<subseteq> {chunk..<chunk + CHUNK_SIZE}"
      by (rule chunk_layout_within) (simp add: DIVIDED_NUM_def)
  qed
qed

end
