(* ===== verification/World_Map.thy ===== *)
theory World_Map
  imports Swarm_Prelude Complex_Main "HOL-Library.Signed_Division"
begin

text \<open>
  GameServer/World: positions, the map and the geometry of WorldManager.cpp, which have no state
  beyond the map that was loaded. A float is a rational number: rounding, infinities and NaN are
  not modelled. An int32 is an int; casts to int32 are written out.
\<close>

section \<open>Positions\<close>

datatype vec3d = Vector3d (vec_x: rat) (vec_y: rat) (vec_z: rat) (vec_yaw: rat)

text \<open>The two-argument constructor, and the operators, which are planar.\<close>

definition Vector2 :: "rat \<Rightarrow> rat \<Rightarrow> vec3d" where
  "Vector2 worldX worldY = Vector3d worldX worldY 0 0"

definition vec_add :: "vec3d \<Rightarrow> vec3d \<Rightarrow> vec3d" where
  "vec_add this other = Vector2 (vec_x this + vec_x other) (vec_y this + vec_y other)"

definition vec_sub :: "vec3d \<Rightarrow> vec3d \<Rightarrow> vec3d" where
  "vec_sub this other = Vector2 (vec_x this - vec_x other) (vec_y this - vec_y other)"

definition vec_mul :: "vec3d \<Rightarrow> vec3d \<Rightarrow> vec3d" where
  "vec_mul this other = Vector2 (vec_x this * vec_x other) (vec_y this * vec_y other)"

text \<open>There is no zero: adding drops the height and the yaw. The two operators are still commutative semigroups.\<close>

instantiation vec3d :: "{ab_semigroup_add, ab_semigroup_mult, minus}"
begin

definition plus_vec3d :: "vec3d \<Rightarrow> vec3d \<Rightarrow> vec3d" where
  "plus_vec3d = vec_add"

definition minus_vec3d :: "vec3d \<Rightarrow> vec3d \<Rightarrow> vec3d" where
  "minus_vec3d = vec_sub"

definition times_vec3d :: "vec3d \<Rightarrow> vec3d \<Rightarrow> vec3d" where
  "times_vec3d = vec_mul"

instance
  by standard (simp_all add: plus_vec3d_def times_vec3d_def vec_add_def vec_mul_def Vector2_def ac_simps)

end

text \<open>The message Protocol::PosInfo and the two conversions.\<close>

datatype pos_info = PosInfo (pos_x: rat) (pos_y: rat) (pos_z: rat) (pos_yaw: rat)

text \<open>The assigning operators; nothing calls them or the division.\<close>

definition vec_add_assign :: "vec3d \<Rightarrow> vec3d \<Rightarrow> vec3d" where
  "vec_add_assign this other = this + other"

definition vec_sub_assign :: "vec3d \<Rightarrow> vec3d \<Rightarrow> vec3d" where
  "vec_sub_assign this other = this - other"

definition vec_mul_assign :: "vec3d \<Rightarrow> vec3d \<Rightarrow> vec3d" where
  "vec_mul_assign this other = this * other"

text \<open>None stands for an infinity or a NaN, which rationals do not have.\<close>

definition vec_divide :: "vec3d \<Rightarrow> vec3d \<Rightarrow> vec3d option" where
  "vec_divide a b =
     (if vec_x b = 0 \<or> vec_y b = 0 then None else Some (Vector2 (vec_x a / vec_x b) (vec_y a / vec_y b)))"

definition vec_div_assign :: "vec3d \<Rightarrow> vec3d \<Rightarrow> vec3d option" where
  "vec_div_assign this other = vec_divide this other"

lemma vec_div_mul: "vec_divide (vec_mul_assign a b) b = Some c \<Longrightarrow> c = Vector2 (vec_x a) (vec_y a)"
  by (auto simp: vec_divide_def vec_mul_assign_def times_vec3d_def vec_mul_def Vector2_def split: if_splits)

definition UpdatePosition :: "pos_info \<Rightarrow> vec3d \<Rightarrow> vec3d" where
  "UpdatePosition p v = Vector3d (pos_x p) (pos_y p) (pos_z p) (pos_yaw p)"

definition MakePosInfo :: "vec3d \<Rightarrow> pos_info" where
  "MakePosInfo v = PosInfo (vec_x v) (vec_y v) (vec_z v) (vec_yaw v)"

lemma MakePosInfo_UpdatePosition [simp]: "MakePosInfo (UpdatePosition p v) = p"
  by (simp add: MakePosInfo_def UpdatePosition_def)

lemma UpdatePosition_MakePosInfo [simp]: "UpdatePosition (MakePosInfo v) u = v"
  by (simp add: MakePosInfo_def UpdatePosition_def)

section \<open>The map\<close>

text \<open>A zone type is the byte it is cast to, whatever number the file has.\<close>

type_synonym zone_type = u8

definition Town :: zone_type where "Town = 0"
definition Pvp :: zone_type where "Pvp = 1"
definition Pve :: zone_type where "Pve = 2"
definition Boss :: zone_type where "Boss = 3"

record zone_pos =
  minX :: int
  minY :: int
  maxX :: int
  maxY :: int

record zone_info =
  zoneType :: zone_type
  worldPos :: zone_pos
  zoneGridSize :: int
  zoneName :: string

record map_data =
  mapName :: string
  gridSize :: int
  gridX :: int
  gridY :: int
  spawnOffset :: int
  worldMinX :: int
  worldMinY :: int
  worldMaxX :: int
  worldMaxY :: int
  totalCells :: int
  zones :: "zone_info list"
  mapGrid :: "bool list list"

datatype grid_index = GridIndex (gx: int) (gy: int)

definition PLAYER_VISUAL_RANGE :: int where
  "PLAYER_VISUAL_RANGE = 40"

definition SECTOR_SIZE :: int where
  "SECTOR_SIZE = 20"

definition playerVisibleRange :: int where
  "playerVisibleRange = PLAYER_VISUAL_RANGE sdiv 2"

section \<open>Grid cells\<close>

text \<open>
  static_cast<int32> of a float truncates; outside int32 the processor gives the smallest one,
  as it does for the quotients of a zero grid size.
\<close>

definition INT32_MIN :: int where
  "INT32_MIN = - (2 ^ 31)"

definition float_to_int32 :: "rat \<Rightarrow> int" where
  "float_to_int32 r =
     (let n = (if 0 \<le> r then \<lfloor>r\<rfloor> else \<lceil>r\<rceil>) in
      if - (2 ^ 31) \<le> n \<and> n < 2 ^ 31 then n else INT32_MIN)"

definition grid_coord :: "rat \<Rightarrow> int \<Rightarrow> int \<Rightarrow> int" where
  "grid_coord world lo gsize =
     (if gsize = 0 then INT32_MIN else float_to_int32 ((world - of_int lo) / of_int gsize))"

definition MakeGridIndex :: "map_data \<Rightarrow> vec3d \<Rightarrow> grid_index" where
  "MakeGridIndex md position =
     GridIndex (grid_coord (vec_x position) (worldMinX md) (gridSize md))
       (grid_coord (vec_y position) (worldMinY md) (gridSize md))"

definition IsValidGridIndex :: "map_data \<Rightarrow> grid_index \<Rightarrow> bool" where
  "IsValidGridIndex md g \<longleftrightarrow> \<not> (gx g < 0 \<or> gx g \<ge> gridX md \<or> gy g < 0 \<or> gy g \<ge> gridY md)"

definition IsValidWorldPosition :: "map_data \<Rightarrow> pos_info \<Rightarrow> bool" where
  "IsValidWorldPosition md p \<longleftrightarrow>
     \<not> ((of_int (worldMinX md) > pos_x p \<and> of_int (worldMaxX md) < pos_x p) \<or>
        (of_int (worldMinY md) > pos_y p \<and> of_int (worldMaxY md) < pos_y p))"

text \<open>mapGrid is read without a check: None is a read outside the vectors.\<close>

definition map_cell :: "map_data \<Rightarrow> int \<Rightarrow> int \<Rightarrow> bool option" where
  "map_cell md y x =
     (if nat y < length (mapGrid md) \<and> nat x < length (mapGrid md ! nat y)
      then Some (mapGrid md ! nat y ! nat x) else None)"

definition CanGo :: "map_data \<Rightarrow> rat \<Rightarrow> rat \<Rightarrow> bool option" where
  "CanGo md worldX worldY =
     (let gridIndex = MakeGridIndex md (Vector2 worldX worldY) in
      if \<not> IsValidGridIndex md gridIndex then Some False
      else map_cell md (gy gridIndex) (gx gridIndex))"

section \<open>Zones\<close>

definition in_zone :: "vec3d \<Rightarrow> zone_pos \<Rightarrow> bool" where
  "in_zone p z \<longleftrightarrow> vec_x p \<ge> of_int (minX z) \<and> vec_x p < of_int (maxX z) \<and>
     vec_y p \<ge> of_int (minY z) \<and> vec_y p < of_int (maxY z)"

fun first_zone :: "vec3d \<Rightarrow> zone_info list \<Rightarrow> zone_type" where
  "first_zone p [] = Town"
| "first_zone p (z # zs) = (if in_zone p (worldPos z) then zoneType z else first_zone p zs)"

definition GetZoneByPosition :: "map_data \<Rightarrow> vec3d \<Rightarrow> zone_type" where
  "GetZoneByPosition md position = first_zone position (zones md)"

definition IsInRange :: "vec3d \<Rightarrow> zone_pos \<Rightarrow> int \<Rightarrow> bool" where
  "IsInRange position wp gsize =
     (let playerWorldRange = of_int (playerVisibleRange * gsize);
          playerMinX = vec_x position - playerWorldRange;
          playerMaxX = vec_x position + playerWorldRange;
          playerMinY = vec_y position - playerWorldRange;
          playerMaxY = vec_y position + playerWorldRange;
          xOverlap = playerMinX < of_int (maxX wp) \<and> playerMaxX > of_int (minX wp);
          yOverlap = playerMinY < of_int (maxY wp) \<and> playerMaxY > of_int (minY wp) in
      xOverlap \<and> yOverlap)"

definition GetVisibleZones :: "map_data \<Rightarrow> vec3d \<Rightarrow> zone_type list" where
  "GetVisibleZones md position =
     (let currentZone = GetZoneByPosition md position in
      currentZone # map zoneType
        (filter (\<lambda>z. zoneType z \<noteq> currentZone \<and> IsInRange position (worldPos z) (gridSize md)) (zones md)))"

section \<open>Sectors\<close>

text \<open>The id of a sector packs its coordinates into 64 bits; int32 values are sign-extended.\<close>

definition sector_id :: "int \<Rightarrow> int \<Rightarrow> u64" where
  "sector_id sectorX sectorY = push_bit 32 (of_int sectorX) OR of_int sectorY"

definition SectorId :: "grid_index \<Rightarrow> u64" where
  "SectorId g = sector_id (gx g sdiv SECTOR_SIZE) (gy g sdiv SECTOR_SIZE)"

definition GetSectorX :: "u64 \<Rightarrow> int" where
  "GetSectorX sid = sint (ucast (drop_bit 32 sid) :: u32)"

definition GetSectorY :: "u64 \<Rightarrow> int" where
  "GetSectorY sid = sint (ucast (sid AND 0xFFFFFFFF) :: u32)"

definition IsInGridRange :: "grid_index \<Rightarrow> grid_index \<Rightarrow> bool" where
  "IsInGridRange g target \<longleftrightarrow>
     \<bar>gx g - gx target\<bar> \<le> playerVisibleRange \<and> \<bar>gy g - gy target\<bar> \<le> playerVisibleRange"

definition GetVisibleSectorIds :: "map_data \<Rightarrow> grid_index \<Rightarrow> u64 list" where
  "GetVisibleSectorIds md g =
     (let minGridX = max 0 (gx g - playerVisibleRange);
          maxGridX = min (gridX md) (gx g + playerVisibleRange);
          minGridY = max 0 (gy g - playerVisibleRange);
          maxGridY = min (gridY md) (gy g + playerVisibleRange);
          startSectorX = minGridX sdiv SECTOR_SIZE; endSectorX = maxGridX sdiv SECTOR_SIZE;
          startSectorY = minGridY sdiv SECTOR_SIZE; endSectorY = maxGridY sdiv SECTOR_SIZE in
      concat (map (\<lambda>sectorY. map (\<lambda>sectorX. sector_id sectorX sectorY) [startSectorX..endSectorX])
        [startSectorY..endSectorY]))"

section \<open>Sector ids\<close>

lemma bit_small_u64: "0 \<le> n \<Longrightarrow> n < 2 ^ 31 \<Longrightarrow> bit (of_int n :: u64) i \<longleftrightarrow> i < 31 \<and> bit n i"
proof -
  assume n: "0 \<le> n" "n < 2 ^ 31"
  have "take_bit 31 n = n" using n by (intro take_bit_int_eq_self) simp_all
  then have "bit n i \<longleftrightarrow> i < 31 \<and> bit n i" by (metis bit_take_bit_iff)
  then show ?thesis by (auto simp: bit_simps)
qed

text \<open>A coordinate of a sector, read back from 32 bits.\<close>

lemma sint_small_u32:
  assumes "0 \<le> n" "n < 2 ^ 31"
  shows "sint (of_int n :: u32) = n"
proof -
  have "(of_int n :: u32) = of_nat (nat n)" using assms(1) by simp
  moreover have "unat (of_nat (nat n) :: u32) = nat n" using assms by (intro unat_of_nat_u32) simp
  ultimately show ?thesis using sint_u32_small [of "of_int n"] assms by simp
qed

lemma bit_sector_id:
  assumes "0 \<le> x" "x < 2 ^ 31" "0 \<le> y" "y < 2 ^ 31"
  shows "bit (sector_id x y) i \<longleftrightarrow> (if i < 32 then i < 31 \<and> bit y i else i < 63 \<and> bit x (i - 32))"
proof -
  have "bit (sector_id x y) i \<longleftrightarrow>
      (32 \<le> i \<and> i < 64 \<and> bit (of_int x :: u64) (i - 32)) \<or> bit (of_int y :: u64) i"
    by (auto simp: sector_id_def bit_or_iff bit_push_bit_iff)
  also have "\<dots> \<longleftrightarrow> (32 \<le> i \<and> i < 64 \<and> i - 32 < 31 \<and> bit x (i - 32)) \<or> (i < 31 \<and> bit y i)"
    unfolding bit_small_u64 [OF assms(1,2)] bit_small_u64 [OF assms(3,4)] ..
  also have "\<dots> \<longleftrightarrow> (if i < 32 then i < 31 \<and> bit y i else i < 63 \<and> bit x (i - 32))"
  proof (cases "i < 32")
    case False
    then have "32 \<le> i \<and> i < 64 \<and> i - 32 < 31 \<longleftrightarrow> i < 63" "\<not> i < 31" by linarith+
    with False show ?thesis by metis
  qed simp
  finally show ?thesis .
qed

lemma bit_small_u32: "0 \<le> n \<Longrightarrow> n < 2 ^ 31 \<Longrightarrow> bit (of_int n :: u32) i \<longleftrightarrow> i < 31 \<and> bit n i"
proof -
  assume n: "0 \<le> n" "n < 2 ^ 31"
  have "take_bit 31 n = n" using n by (intro take_bit_int_eq_self) simp_all
  then have "bit n i \<longleftrightarrow> i < 31 \<and> bit n i" by (metis bit_take_bit_iff)
  then show ?thesis by (auto simp: bit_simps)
qed

lemma GetSectorX_id:
  assumes "0 \<le> x" "x < 2 ^ 31" "0 \<le> y" "y < 2 ^ 31"
  shows "GetSectorX (sector_id x y) = x"
proof -
  have "ucast (drop_bit 32 (sector_id x y)) = (of_int x :: u32)"
    by (intro bit_word_eqI)
       (simp add: bit_ucast_iff bit_drop_bit_eq bit_sector_id [OF assms] bit_small_u32 [OF assms(1,2)])
  then show ?thesis using sint_small_u32 [OF assms(1,2)] by (simp add: GetSectorX_def)
qed

lemma GetSectorY_id:
  assumes "0 \<le> x" "x < 2 ^ 31" "0 \<le> y" "y < 2 ^ 31"
  shows "GetSectorY (sector_id x y) = y"
proof -
  have mask: "(0xFFFFFFFF :: u64) = mask 32" by (simp add: mask_eq_exp_minus_1)
  have "ucast (sector_id x y AND 0xFFFFFFFF) = (of_int y :: u32)"
    unfolding mask by (intro bit_word_eqI)
       (simp add: bit_ucast_iff bit_and_iff bit_mask_iff bit_sector_id [OF assms] bit_small_u32 [OF assms(3,4)])
  then show ?thesis using sint_small_u32 [OF assms(3,4)] by (simp add: GetSectorY_def)
qed

lemma sector_id_eq_iff:
  assumes "0 \<le> x" "x < 2 ^ 31" "0 \<le> y" "y < 2 ^ 31" "0 \<le> x'" "x' < 2 ^ 31" "0 \<le> y'" "y' < 2 ^ 31"
  shows "sector_id x y = sector_id x' y' \<longleftrightarrow> x = x' \<and> y = y'"
  using GetSectorX_id [OF assms(1-4)] GetSectorX_id [OF assms(5-8)]
    GetSectorY_id [OF assms(1-4)] GetSectorY_id [OF assms(5-8)] by metis

lemma sdiv_20 [simp]: "0 \<le> (n :: int) \<Longrightarrow> n sdiv 20 = n div 20"
  by (simp add: signed_divide_int_def sgn_if)

lemma playerVisibleRange_20: "playerVisibleRange = 20"
  by (simp add: playerVisibleRange_def PLAYER_VISUAL_RANGE_def signed_divide_int_def)

section \<open>Maps\<close>

text \<open>A map whose grid has the rows and columns it says, within int32.\<close>

definition map_ok :: "map_data \<Rightarrow> bool" where
  "map_ok md \<longleftrightarrow> 0 < gridSize md \<and> 0 \<le> gridX md \<and> gridX md < 2 ^ 31 - 20 \<and>
     0 \<le> gridY md \<and> gridY md < 2 ^ 31 - 20 \<and>
     length (mapGrid md) = nat (gridY md) \<and> (\<forall>row \<in> set (mapGrid md). length row = nat (gridX md))"

lemma map_cell_ok:
  assumes "map_ok md" and "IsValidGridIndex md g"
  shows "map_cell md (gy g) (gx g) = Some (mapGrid md ! nat (gy g) ! nat (gx g))"
proof -
  have y: "nat (gy g) < length (mapGrid md)" using assms by (auto simp: map_ok_def IsValidGridIndex_def)
  then have "length (mapGrid md ! nat (gy g)) = nat (gridX md)"
    using assms(1) by (simp add: map_ok_def)
  with y assms(2) show ?thesis by (auto simp: map_cell_def IsValidGridIndex_def)
qed

lemma CanGo_total: "map_ok md \<Longrightarrow> \<exists>b. CanGo md worldX worldY = Some b"
  using map_cell_ok by (auto simp: CanGo_def Let_def)

text \<open>The cell of a coordinate: cells are half open, the first one reaches twice as far down.\<close>

lemma float_to_int32_eq:
  assumes "0 \<le> n" "n < 2 ^ 31"
  shows "float_to_int32 r = n \<longleftrightarrow> (if n = 0 then - 1 < r \<and> r < 1 else of_int n \<le> r \<and> r < of_int n + 1)"
proof (cases "0 \<le> r")
  case True
  then have "float_to_int32 r = n \<longleftrightarrow> \<lfloor>r\<rfloor> = n"
    using assms by (auto simp: float_to_int32_def INT32_MIN_def Let_def)
  then show ?thesis using True by (simp add: floor_eq_iff)
next
  case False
  have "float_to_int32 r = n \<longleftrightarrow> \<lceil>r\<rceil> = n"
    using False assms by (auto simp: float_to_int32_def INT32_MIN_def Let_def)
  also have "\<dots> \<longleftrightarrow> of_int n - 1 < r \<and> r \<le> of_int n" by (simp add: ceiling_eq_iff)
  finally show ?thesis using False assms(1) by (auto simp: not_le)
qed

lemma grid_coord_eq:
  assumes "0 < gsize" "0 \<le> n" "n < 2 ^ 31"
  shows "grid_coord world lo gsize = n \<longleftrightarrow>
    of_int lo + of_int (if n = 0 then - 1 else n) * of_int gsize \<le> world \<and>
    (n = 0 \<longrightarrow> of_int lo - of_int gsize < world) \<and> world < of_int lo + of_int (n + 1) * of_int gsize"
  using assms(1)
  by (auto simp: grid_coord_def float_to_int32_eq [OF assms(2,3)] field_simps)

text \<open>With the bounds of the world in order the position check accepts every position.\<close>

lemma IsValidWorldPosition_True:
  assumes "worldMinX md \<le> worldMaxX md" and "worldMinY md \<le> worldMaxY md"
  shows "IsValidWorldPosition md p"
proof -
  have "(of_int (worldMinX md) :: rat) \<le> of_int (worldMaxX md)" "(of_int (worldMinY md) :: rat) \<le> of_int (worldMaxY md)"
    using assms by simp_all
  then show ?thesis unfolding IsValidWorldPosition_def by linarith
qed

section \<open>What a player can see\<close>

lemma in_rectangle:
  assumes "a \<le> x" "x \<le> b" "c \<le> y" "y \<le> d"
  shows "sector_id x y \<in> set (concat (map (\<lambda>sy. map (\<lambda>sx. sector_id sx sy) [a..b]) [c..d]))"
proof -
  have "x \<in> set [a..b]" "y \<in> set [c..d]" using assms by simp_all
  then show ?thesis by (auto simp del: set_upto)
qed

lemma visible_sector:
  assumes "map_ok md" and "IsValidGridIndex md g" and "IsValidGridIndex md t" and "IsInGridRange g t"
  shows "SectorId t \<in> set (GetVisibleSectorIds md g)"
proof -
  have t: "0 \<le> gx t" "gx t < gridX md" "0 \<le> gy t" "gy t < gridY md"
    and g: "0 \<le> gx g" "0 \<le> gy g"
    using assms(2,3) by (auto simp: IsValidGridIndex_def)
  have near: "gx g - 20 \<le> gx t" "gx t \<le> gx g + 20" "gy g - 20 \<le> gy t" "gy t \<le> gy g + 20"
    using assms(4) by (auto simp: IsInGridRange_def playerVisibleRange_20)
  have "max 0 (gx g - 20) div 20 \<le> gx t div 20" "gx t div 20 \<le> min (gridX md) (gx g + 20) div 20"
    "max 0 (gy g - 20) div 20 \<le> gy t div 20" "gy t div 20 \<le> min (gridY md) (gy g + 20) div 20"
    using t near by (auto intro!: zdiv_mono1)
  note le = this
  have "0 \<le> min (gridX md) (gx g + 20)" "0 \<le> min (gridY md) (gy g + 20)"
    "0 \<le> max 0 (gx g - 20)" "0 \<le> max 0 (gy g - 20)" using t g by simp_all
  note eqs = this [THEN sdiv_20] t(1,3) [THEN sdiv_20]
  show ?thesis
    unfolding GetVisibleSectorIds_def Let_def SectorId_def playerVisibleRange_20 SECTOR_SIZE_def eqs
    by (rule in_rectangle) (fact le)+
qed

lemma valid_sector_range:
  assumes "map_ok md" and "IsValidGridIndex md g"
  shows "0 \<le> gx g div 20" "gx g div 20 < 2 ^ 31" "0 \<le> gy g div 20" "gy g div 20 < 2 ^ 31"
  using assms by (auto simp: map_ok_def IsValidGridIndex_def pos_imp_zdiv_nonneg_iff)

lemma SectorId_eq_iff:
  assumes "map_ok md" and "IsValidGridIndex md g" and "IsValidGridIndex md t"
  shows "SectorId g = SectorId t \<longleftrightarrow> gx g div 20 = gx t div 20 \<and> gy g div 20 = gy t div 20"
proof -
  have "0 \<le> gx g" "0 \<le> gy g" "0 \<le> gx t" "0 \<le> gy t" using assms(2,3) by (auto simp: IsValidGridIndex_def)
  then show ?thesis
    using sector_id_eq_iff [OF valid_sector_range [OF assms(1,2)] valid_sector_range [OF assms(1,3)]]
    by (simp add: SectorId_def SECTOR_SIZE_def)
qed

end
