(* ===== verification/Json_Loader.thy ===== *)
theory Json_Loader
  imports Swarm_Prelude
begin

text \<open>
  GameServer/Data/BaseJsonLoader.cpp and its tables of fields (IntField, StringField). Files and
  the library rapidjson are parameters: what a path holds, and the record json_api of the calls
  the loaders make on a value. GetInt of a value that is no number is a failed assertion of the
  library: None.
\<close>

record 'v json_api =
  js_Parse :: "string \<Rightarrow> 'v option"
  js_HasMember :: "'v \<Rightarrow> string \<Rightarrow> bool"
  js_Member :: "'v \<Rightarrow> string \<Rightarrow> 'v option"
  js_IsInt :: "'v \<Rightarrow> bool"
  js_IsString :: "'v \<Rightarrow> bool"
  js_IsArray :: "'v \<Rightarrow> bool"
  js_IsObject :: "'v \<Rightarrow> bool"
  js_GetInt :: "'v \<Rightarrow> int option"
  js_GetString :: "'v \<Rightarrow> string option"
  js_Elements :: "'v \<Rightarrow> 'v list option"

type_synonym file_system = "string \<Rightarrow> string option"

text \<open>A file that cannot be opened leaves the buffer as it was.\<close>

definition ReadFileToString :: "file_system \<Rightarrow> string \<Rightarrow> string \<Rightarrow> string" where
  "ReadFileToString fs filePath outBuffer =
     (case fs filePath of None \<Rightarrow> outBuffer | Some content \<Rightarrow> content)"

text \<open>The parser gets a C string, which ends at the first zero.\<close>

definition c_str :: "string \<Rightarrow> string" where
  "c_str s = takeWhile (\<lambda>c. c \<noteq> CHR 0x00) s"

definition ParseJSONDocument :: "'v json_api \<Rightarrow> string \<Rightarrow> 'v option" where
  "ParseJSONDocument js jsonContent = js_Parse js (c_str jsonContent)"

text \<open>
  A table of fields: each key that the object has with a value of the right type is handed to its
  setter, in the order of the table.
\<close>

type_synonym 'd int_field = "string \<times> (int \<Rightarrow> 'd \<Rightarrow> 'd)"
type_synonym 'd string_field = "string \<times> (string \<Rightarrow> 'd \<Rightarrow> 'd)"

fun set_int_fields :: "'v json_api \<Rightarrow> 'v \<Rightarrow> 'd int_field list \<Rightarrow> 'd \<Rightarrow> 'd option" where
  "set_int_fields js v [] d = Some d"
| "set_int_fields js v ((key, setter) # fds) d =
     (if js_HasMember js v key then do {
        m \<leftarrow> js_Member js v key;
        (if js_IsInt js m then do {
           n \<leftarrow> js_GetInt js m;
           set_int_fields js v fds (setter n d) }
         else set_int_fields js v fds d) }
      else set_int_fields js v fds d)"

fun set_string_fields :: "'v json_api \<Rightarrow> 'v \<Rightarrow> 'd string_field list \<Rightarrow> 'd \<Rightarrow> 'd option" where
  "set_string_fields js v [] d = Some d"
| "set_string_fields js v ((key, setter) # fds) d =
     (if js_HasMember js v key then do {
        m \<leftarrow> js_Member js v key;
        (if js_IsString js m then do {
           s \<leftarrow> js_GetString js m;
           set_string_fields js v fds (setter s d) }
         else set_string_fields js v fds d) }
      else set_string_fields js v fds d)"

text \<open>Setting fields keeps what every setter keeps.\<close>

lemma set_int_fields_keep:
  "set_int_fields js v fds d = Some d' \<Longrightarrow> \<forall>(k, f) \<in> set fds. \<forall>n d. P (f n d) = P d \<Longrightarrow> P d' = P d"
proof (induction js v fds d rule: set_int_fields.induct)
  case (2 js v key setter fds d)
  have keep: "P (setter n d) = P d" for n using 2(5) by simp
  have keeps: "\<forall>(k, f) \<in> set fds. \<forall>n d. P (f n d) = P d" using 2(5) by simp
  show ?case
  proof (cases "js_HasMember js v key")
    case True
    with 2(4) obtain m where m: "js_Member js v key = Some m" by (auto simp: bind_eq_Some_conv)
    show ?thesis
    proof (cases "js_IsInt js m")
      case int: True
      with True m 2(4) obtain n where "js_GetInt js m = Some n" "set_int_fields js v fds (setter n d) = Some d'"
        by (auto simp: bind_eq_Some_conv)
      from "2.IH"(1) [OF True m int this keeps] keep show ?thesis by simp
    next
      case False
      with True m 2(4) have "set_int_fields js v fds d = Some d'" by simp
      from "2.IH"(2) [OF True m False this keeps] show ?thesis .
    qed
  next
    case False
    with 2(4) have "set_int_fields js v fds d = Some d'" by simp
    from "2.IH"(3) [OF False this keeps] show ?thesis .
  qed
qed simp

lemma set_string_fields_keep:
  "set_string_fields js v [(key, setter)] d = Some d' \<Longrightarrow> (\<And>s. P (setter s d) = P d) \<Longrightarrow> P d' = P d"
  by (auto simp: bind_eq_Some_conv split: if_splits)

end
