(* ===== verification/Stat_Manager.thy ===== *)
theory Stat_Manager
  imports Json_Loader
begin

text \<open>
  GameServer/Object/Stat: the statistics of a player class, read from Data/PlayerStats.json at the
  start, with the operator += of Protocol/ProtoOperator.cpp. The message StatInfo is a record of
  its int32 fields, all zero at first.
\<close>

section \<open>Statistics\<close>

record stat_info =
  level :: u32
  hp :: u32
  maxHp :: u32
  mp :: u32
  maxMp :: u32
  attack :: u32
  defense :: u32
  moveSpeed :: u32
  attackSpeed :: u32

definition stat_zero :: stat_info where
  "stat_zero = \<lparr>level = 0, hp = 0, maxHp = 0, mp = 0, maxMp = 0, attack = 0, defense = 0,
     moveSpeed = 0, attackSpeed = 0\<rparr>"

text \<open>operator += leaves out the two speeds.\<close>

definition add_stat :: "stat_info \<Rightarrow> stat_info \<Rightarrow> stat_info" where
  "add_stat a b = a\<lparr>level := level a + level b, hp := hp a + hp b, maxHp := maxHp a + maxHp b,
     mp := mp a + mp b, maxMp := maxMp a + maxMp b, attack := attack a + attack b,
     defense := defense a + defense b\<rparr>"

record base_stat =
  bsInfo :: stat_info
  bsGrowth :: stat_info

definition base_stat_zero :: base_stat where
  "base_stat_zero = \<lparr>bsInfo = stat_zero, bsGrowth = stat_zero\<rparr>"

definition GetStatInfo :: "base_stat \<Rightarrow> stat_info" where
  "GetStatInfo b = bsInfo b"

definition GetStatGrowth :: "base_stat \<Rightarrow> stat_info" where
  "GetStatGrowth b = bsGrowth b"

definition SetStatInfo :: "stat_info \<Rightarrow> base_stat \<Rightarrow> base_stat" where
  "SetStatInfo i b = b\<lparr>bsInfo := i\<rparr>"

definition SetStatGrowth :: "stat_info \<Rightarrow> base_stat \<Rightarrow> base_stat" where
  "SetStatGrowth i b = b\<lparr>bsGrowth := i\<rparr>"

section \<open>Loading\<close>

definition stat_fields :: "stat_info int_field list" where
  "stat_fields =
     [(''level'', \<lambda>n s. s\<lparr>level := of_int n\<rparr>), (''hp'', \<lambda>n s. s\<lparr>hp := of_int n\<rparr>),
      (''maxHp'', \<lambda>n s. s\<lparr>maxHp := of_int n\<rparr>), (''mp'', \<lambda>n s. s\<lparr>mp := of_int n\<rparr>),
      (''maxMp'', \<lambda>n s. s\<lparr>maxMp := of_int n\<rparr>), (''attack'', \<lambda>n s. s\<lparr>attack := of_int n\<rparr>),
      (''defense'', \<lambda>n s. s\<lparr>defense := of_int n\<rparr>), (''moveSpeed'', \<lambda>n s. s\<lparr>moveSpeed := of_int n\<rparr>),
      (''attackSpeed'', \<lambda>n s. s\<lparr>attackSpeed := of_int n\<rparr>)]"

definition growth_fields :: "stat_info int_field list" where
  "growth_fields =
     [(''hp'', \<lambda>n s. s\<lparr>hp := of_int n\<rparr>), (''maxHp'', \<lambda>n s. s\<lparr>maxHp := of_int n\<rparr>),
      (''mp'', \<lambda>n s. s\<lparr>mp := of_int n\<rparr>), (''maxMp'', \<lambda>n s. s\<lparr>maxMp := of_int n\<rparr>),
      (''attack'', \<lambda>n s. s\<lparr>attack := of_int n\<rparr>), (''defense'', \<lambda>n s. s\<lparr>defense := of_int n\<rparr>)]"

definition ParseStatInfo :: "'v json_api \<Rightarrow> 'v \<Rightarrow> stat_info \<Rightarrow> stat_info option" where
  "ParseStatInfo js baseStatObj s = set_int_fields js baseStatObj stat_fields s"

definition ParseStatGrowth :: "'v json_api \<Rightarrow> 'v \<Rightarrow> stat_info \<Rightarrow> stat_info option" where
  "ParseStatGrowth js growthObj s = set_int_fields js growthObj growth_fields s"

text \<open>PlayerStatMap: a player type is a number.\<close>

type_synonym player_stats = "(int \<times> base_stat) list"

definition parse_player :: "'v json_api \<Rightarrow> 'v \<Rightarrow> player_stats \<Rightarrow> player_stats option" where
  "parse_player js playerObj m = do {
     typeVal \<leftarrow> js_Member js playerObj ''playerType'';
     playerType \<leftarrow> js_GetInt js typeVal;
     baseObj \<leftarrow> js_Member js playerObj ''baseStat'';
     statInfo \<leftarrow> ParseStatInfo js baseObj stat_zero;
     growthObj \<leftarrow> js_Member js playerObj ''growth'';
     statGrowth \<leftarrow> ParseStatGrowth js growthObj stat_zero;
     Some (hm_insert playerType (SetStatGrowth statGrowth (SetStatInfo statInfo base_stat_zero)) m) }"

fun parse_players :: "'v json_api \<Rightarrow> 'v list \<Rightarrow> player_stats \<Rightarrow> player_stats option" where
  "parse_players js [] m = Some m"
| "parse_players js (p # ps) m = do { m1 \<leftarrow> parse_player js p m; parse_players js ps m1 }"

definition ParsePlayerStat :: "'v json_api \<Rightarrow> 'v \<Rightarrow> player_stats \<Rightarrow> (bool \<times> player_stats) option" where
  "ParsePlayerStat js document m = do {
     arr \<leftarrow> js_Member js document ''playerTypes'';
     ps \<leftarrow> js_Elements js arr;
     m1 \<leftarrow> parse_players js ps m;
     Some (m1 \<noteq> [], m1) }"

text \<open>The result of ParsePlayerStat is not looked at.\<close>

definition LoadPlayerStat ::
  "'v json_api \<Rightarrow> file_system \<Rightarrow> string \<Rightarrow> player_stats \<Rightarrow> (bool \<times> player_stats) option" where
  "LoadPlayerStat js fs filePath m =
     (let jsonContent = ReadFileToString fs filePath [] in
      if jsonContent = [] then Some (False, m)
      else (case ParseJSONDocument js jsonContent of
              None \<Rightarrow> Some (False, m)
            | Some document \<Rightarrow> do {
                (ok, m1) \<leftarrow> ParsePlayerStat js document m;
                Some (True, m1) }))"

definition stat_Init :: "'v json_api \<Rightarrow> file_system \<Rightarrow> player_stats option" where
  "stat_Init js fs = do {
     (ok, m) \<leftarrow> LoadPlayerStat js fs ''Data/PlayerStats.json'' [];
     assert_crash ok;
     Some m }"

definition stat_Shutdown :: "player_stats \<Rightarrow> player_stats" where
  "stat_Shutdown m = []"

section \<open>Queries\<close>

text \<open>An unknown type leaves the caller's value.\<close>

definition FindBaseState :: "player_stats \<Rightarrow> int \<Rightarrow> base_stat \<Rightarrow> base_stat" where
  "FindBaseState m playerType out =
     (case map_of m playerType of None \<Rightarrow> out | Some b \<Rightarrow> b)"

definition GetBaseStatInfo :: "player_stats \<Rightarrow> int \<Rightarrow> stat_info" where
  "GetBaseStatInfo m playerType = GetStatInfo (FindBaseState m playerType base_stat_zero)"

definition GetBaseStatGrowth :: "player_stats \<Rightarrow> int \<Rightarrow> stat_info" where
  "GetBaseStatGrowth m playerType = GetStatGrowth (FindBaseState m playerType base_stat_zero)"

definition GetPlayerStat :: "player_stats \<Rightarrow> int \<Rightarrow> stat_info" where
  "GetPlayerStat m playerType = GetBaseStatInfo m playerType"

definition CalculatePlayerStat :: "player_stats \<Rightarrow> int \<Rightarrow> stat_info \<Rightarrow> stat_info" where
  "CalculatePlayerStat m playerType statInfo =
     (let statGrowth = GetBaseStatInfo m playerType in add_stat statInfo statGrowth)"

section \<open>What they give\<close>

text \<open>Levelling up adds the base statistics, level included, and not the growth.\<close>

lemma CalculatePlayerStat_base:
  assumes "map_of m t = Some b"
  shows "CalculatePlayerStat m t s = add_stat s (bsInfo b)"
    and "level (CalculatePlayerStat m t s) = level s + level (bsInfo b)"
    and "moveSpeed (CalculatePlayerStat m t s) = moveSpeed s"
  using assms by (simp_all add: CalculatePlayerStat_def GetBaseStatInfo_def FindBaseState_def
      GetStatInfo_def add_stat_def Let_def)

text \<open>The first entry for a type counts: insert does not replace.\<close>

lemma parse_players_keeps:
  "parse_players js ps m = Some m' \<Longrightarrow> map_of m t = Some b \<Longrightarrow> map_of m' t = Some b"
proof (induction ps arbitrary: m)
  case (Cons p ps)
  then obtain m1 where m1: "parse_player js p m = Some m1" "parse_players js ps m1 = Some m'"
    by (auto simp: bind_eq_Some_conv)
  then have "map_of m1 t = Some b"
    using Cons.prems(2) by (auto simp: parse_player_def bind_eq_Some_conv map_of_hm_insert)
  with m1(2) show ?case by (rule Cons.IH)
qed simp

end
