(* ===== verification/Game_World.thy ===== *)
theory Game_World
  imports Session_Core World_Map Stat_Manager
begin

text \<open>
  The world of the game server: GameServer/Object (GameObject and Player as records), the sectors
  of WorldManager.cpp and the queries on them. Objects live on a heap; a shared pointer is an id,
  and reclaim frees what no shared pointer of the world leads to, so that a raw pointer (the
  session's) can dangle: dereferencing it is None, like CRASH. The locks make each operation here
  one step. PacketHandler::SendPacket to a session is an entry of the outbox; what a session does
  with it is SendPacket of Session_Core.
\<close>

section \<open>Objects\<close>

datatype object_type = OBJECT_TYPE_NONE | OBJECT_TYPE_PLAYER | OBJECT_TYPE_MONSTER

record game_object =
  objectId :: u64
  objectType :: object_type
  obj_pos :: pos_info
  vectorPos :: vec3d
  gridIndex :: grid_index
  objZone :: zone_type
  statInfo :: stat_info
  obj_name :: string
  isValid :: bool
  prevGridIndex :: grid_index
  prevZoneType :: zone_type

record player = game_object +
  pl_session :: "u64 option"
  visibleObjects :: "u64 list"
  playerType :: int
  lastMoveTime :: int
  isEntered :: bool

text \<open>The message Protocol::ObjectInfo and the packets that the server sends.\<close>

datatype object_info = ObjectInfo
  (info_id: u64) (info_type: object_type) (info_pos: pos_info) (info_stat: stat_info) (info_name: string)

datatype msg_type = MSG_TYPE_All | MSG_TYPE_General | MSG_TYPE_Local | MSG_TYPE_System

datatype server_packet =
    EnterGamePkt object_info
  | SpawnPkt object_info
  | DespawnPkt u64
  | MovePkt u64 pos_info
  | ChatPkt string msg_type

section \<open>The state\<close>

text \<open>
  The clocks, the next random numbers and the log of packets that did not parse are part of the
  state. A zone object keeps its class and spawn offset. A sector maps the ids of its cells to the ids of
  the objects in them. A chat job holds its player.
\<close>

datatype zone_class = TownZone | PvpZone | PveZone | BossZone

record base_zone =
  zone_class :: zone_class
  bz_spawnOffset :: int
  bz_info :: zone_info

type_synonym sector = "(u64 \<times> u64 list) list"

record chat_job =
  chat_self :: u64
  chat_msg :: string
  chat_type :: msg_type
  chat_name :: string

record world =
  mapData :: map_data
  worldZones :: "(zone_type \<times> base_zone) list"
  zoneSectors :: "(zone_type \<times> sector) list"
  sectorUpdateSet :: "u64 list"
  forceDeleteObjs :: "(u64 \<times> zone_type \<times> grid_index) list"
  objs :: "(u64 \<times> player) list"
  nextObjectId :: u64
  playerStats :: player_stats
  netSessions :: "(u64 \<times> session) list"
  chatJobs :: "chat_job list"
  outbox :: "(u64 \<times> server_packet) list"
  worldNow :: int
  worldMs :: int
  rndSource :: "int \<times> int \<times> rat"
  parseErrors :: "u16 list"

definition find_obj :: "world \<Rightarrow> u64 \<Rightarrow> player option" where
  "find_obj w oid = map_of (objs w) oid"

definition set_obj :: "player \<Rightarrow> world \<Rightarrow> world" where
  "set_obj p w = w\<lparr>objs := hm_assign (objectId p) p (objs w)\<rparr>"

definition session_closed :: "world \<Rightarrow> u64 \<Rightarrow> bool" where
  "session_closed w sid \<longleftrightarrow> (case map_of (netSessions w) sid of None \<Rightarrow> True | Some s \<Rightarrow> isClosed s)"

section \<open>GameObject and the getters of Player\<close>

definition IsPlayer :: "player \<Rightarrow> bool" where
  "IsPlayer p \<longleftrightarrow> objectType p = OBJECT_TYPE_PLAYER"

definition IsMonster :: "player \<Rightarrow> bool" where
  "IsMonster p \<longleftrightarrow> objectType p = OBJECT_TYPE_MONSTER"

text \<open>Player::IsValid and Player::GetSession.\<close>

definition IsValid :: "world \<Rightarrow> player \<Rightarrow> bool" where
  "IsValid w p \<longleftrightarrow> isValid p \<and> (case pl_session p of None \<Rightarrow> False | Some sid \<Rightarrow> \<not> session_closed w sid)"

definition GetSession :: "world \<Rightarrow> player \<Rightarrow> u64 option" where
  "GetSession w p = (if IsValid w p then pl_session p else None)"

definition MakeObjectInfo :: "player \<Rightarrow> object_info" where
  "MakeObjectInfo p = ObjectInfo (objectId p) (objectType p) (obj_pos p) (statInfo p) (obj_name p)"

record object_position =
  prevZone :: zone_type
  currentZone :: zone_type
  prevGrid :: grid_index
  currentGrid :: grid_index
  currentVector :: vec3d

definition GetAllObjectPosition :: "player \<Rightarrow> object_position" where
  "GetAllObjectPosition p = \<lparr>prevZone = prevZoneType p, currentZone = objZone p,
     prevGrid = prevGridIndex p, currentGrid = gridIndex p, currentVector = vectorPos p\<rparr>"

text \<open>Decimal digits, for std::to_string.\<close>

fun dec :: "nat \<Rightarrow> string" where
  "dec n = (if n < 10 then [char_of (48 + n)] else dec (n div 10) @ [char_of (48 + n mod 10)])"

declare dec.simps [simp del]

text \<open>The constructors. A fresh message PosInfo is all zero.\<close>

definition GameObject :: "u64 \<Rightarrow> game_object" where
  "GameObject oid = \<lparr>objectId = oid, objectType = OBJECT_TYPE_NONE, obj_pos = PosInfo 0 0 0 0,
     vectorPos = Vector2 0 0, gridIndex = GridIndex 0 0, objZone = Town, statInfo = stat_zero,
     obj_name = [], isValid = True, prevGridIndex = GridIndex 0 0, prevZoneType = Town\<rparr>"

definition Player :: "u64 \<Rightarrow> u64 \<Rightarrow> int \<Rightarrow> int \<Rightarrow> player" where
  "Player oid sid ptype now =
     game_object.extend
       (GameObject oid\<lparr>objectType := OBJECT_TYPE_PLAYER, obj_name := ''Player-'' @ dec (unat oid)\<rparr>)
       (player.fields (Some sid) [] ptype now False)"

text \<open>ObjectPool<Player>::MakeShared: the object is put on the heap under its new id.\<close>

definition new_player :: "u64 \<Rightarrow> int \<Rightarrow> int \<Rightarrow> world \<Rightarrow> player \<times> world" where
  "new_player sid ptype now w =
     (let p = Player (nextObjectId w) sid ptype now in
      (p, set_obj p (w\<lparr>nextObjectId := nextObjectId w + 1\<rparr>)))"

section \<open>Requests\<close>

definition set_add :: "'a \<Rightarrow> 'a list \<Rightarrow> 'a list" where
  "set_add x xs = (if x \<in> set xs then xs else xs @ [x])"

definition RequestSectorUpdate :: "u64 \<Rightarrow> world \<Rightarrow> world" where
  "RequestSectorUpdate oid w = w\<lparr>sectorUpdateSet := set_add oid (sectorUpdateSet w)\<rparr>"

definition RequestSectorDelete :: "u64 \<Rightarrow> zone_type \<Rightarrow> grid_index \<Rightarrow> world \<Rightarrow> world" where
  "RequestSectorDelete oid zt g w = w\<lparr>forceDeleteObjs := forceDeleteObjs w @ [(oid, zt, g)]\<rparr>"

text \<open>SetWorldPosition: the one that does the work, then its two callers.\<close>

definition SetWorldPosition2 :: "vec3d \<Rightarrow> pos_info \<Rightarrow> player \<Rightarrow> world \<Rightarrow> world" where
  "SetWorldPosition2 vp posInfo p w =
     (let newZoneType = GetZoneByPosition (mapData w) vp;
          newGridIndex = MakeGridIndex (mapData w) vp;
          needSectorUpdate = (objZone p \<noteq> newZoneType \<or> gridIndex p \<noteq> newGridIndex);
          p1 = p\<lparr>prevZoneType := objZone p, prevGridIndex := gridIndex p, vectorPos := vp,
                 obj_pos := posInfo, objZone := newZoneType, gridIndex := newGridIndex\<rparr>;
          w1 = set_obj p1 w in
      if needSectorUpdate then RequestSectorUpdate (objectId p) w1 else w1)"

definition SetWorldPosition_pos :: "pos_info \<Rightarrow> player \<Rightarrow> world \<Rightarrow> world" where
  "SetWorldPosition_pos posInfo p w = SetWorldPosition2 (UpdatePosition posInfo (Vector2 0 0)) posInfo p w"

definition SetWorldPosition_vec :: "vec3d \<Rightarrow> player \<Rightarrow> world \<Rightarrow> world" where
  "SetWorldPosition_vec vp p w = SetWorldPosition2 vp (MakePosInfo vp) p w"

section \<open>Sectors\<close>

text \<open>FindZone and FindSector crash for a zone that the map does not have.\<close>

definition FindZone :: "world \<Rightarrow> zone_type \<Rightarrow> base_zone option" where
  "FindZone w zt = map_of (worldZones w) zt"

definition FindSector :: "world \<Rightarrow> zone_type \<Rightarrow> sector option" where
  "FindSector w zt = map_of (zoneSectors w) zt"

definition sector_objects :: "sector \<Rightarrow> u64 \<Rightarrow> u64 list" where
  "sector_objects s sid = (case map_of s sid of None \<Rightarrow> [] | Some oids \<Rightarrow> oids)"

definition AddObjectToSector :: "u64 \<Rightarrow> zone_type \<Rightarrow> grid_index \<Rightarrow> world \<Rightarrow> world option" where
  "AddObjectToSector oid zt g w = do {
     s \<leftarrow> FindSector w zt;
     (if \<not> IsValidGridIndex (mapData w) g then Some w
      else (let s1 = hm_assign (SectorId g) (set_add oid (sector_objects s (SectorId g))) s in
            Some (w\<lparr>zoneSectors := hm_assign zt s1 (zoneSectors w)\<rparr>))) }"

definition RemoveObjectToSector :: "u64 \<Rightarrow> zone_type \<Rightarrow> grid_index \<Rightarrow> world \<Rightarrow> world option" where
  "RemoveObjectToSector oid zt g w = do {
     s \<leftarrow> FindSector w zt;
     (if \<not> IsValidGridIndex (mapData w) g then Some w
      else (case map_of s (SectorId g) of
              None \<Rightarrow> Some w
            | Some oids \<Rightarrow>
                (let oids1 = removeAll oid oids;
                     s1 = (if oids1 = [] then hm_erase (SectorId g) s else hm_assign (SectorId g) oids1 s) in
                 Some (w\<lparr>zoneSectors := hm_assign zt s1 (zoneSectors w)\<rparr>)))) }"

fun delete_objs :: "(u64 \<times> zone_type \<times> grid_index) list \<Rightarrow> world \<Rightarrow> world option" where
  "delete_objs [] w = Some w"
| "delete_objs ((oid, zt, g) # ds) w = do { w1 \<leftarrow> RemoveObjectToSector oid zt g w; delete_objs ds w1 }"

definition DeleteObjSector :: "world \<Rightarrow> world option" where
  "DeleteObjSector w = delete_objs (forceDeleteObjs w) (w\<lparr>forceDeleteObjs := []\<rparr>)"

text \<open>
  UpdateSector takes the pending objects, keeps those whose cell or zone changed, and moves each
  from its previous cell to its current one. The update set has no null pointers.
\<close>

definition needs_update :: "player \<Rightarrow> bool" where
  "needs_update p \<longleftrightarrow> \<not> (prevGridIndex p = gridIndex p \<and> prevZoneType p = objZone p)"

fun update_objs :: "u64 list \<Rightarrow> world \<Rightarrow> world option" where
  "update_objs [] w = Some w"
| "update_objs (oid # oids) w = do {
     p \<leftarrow> find_obj w oid;
     w1 \<leftarrow> RemoveObjectToSector oid (prevZoneType p) (prevGridIndex p) w;
     w2 \<leftarrow> AddObjectToSector oid (objZone p) (gridIndex p) w1;
     update_objs oids w2 }"

fun moved_objs :: "world \<Rightarrow> u64 list \<Rightarrow> u64 list option" where
  "moved_objs w [] = Some []"
| "moved_objs w (oid # oids) = do {
     p \<leftarrow> find_obj w oid;
     rest \<leftarrow> moved_objs w oids;
     Some (if needs_update p then oid # rest else rest) }"

definition UpdateSector :: "world \<Rightarrow> world option" where
  "UpdateSector w = do {
     updateObjs \<leftarrow> moved_objs w (sectorUpdateSet w);
     update_objs updateObjs (w\<lparr>sectorUpdateSet := []\<rparr>) }"

definition ClearAllEmptySector :: "world \<Rightarrow> world" where
  "ClearAllEmptySector w =
     w\<lparr>zoneSectors := map (\<lambda>(zt, s). (zt, filter (\<lambda>(sid, oids). oids \<noteq> []) s)) (zoneSectors w)\<rparr>"

section \<open>What is visible\<close>

definition shown :: "world \<Rightarrow> bool \<Rightarrow> grid_index \<Rightarrow> player \<Rightarrow> bool" where
  "shown w onlyPlayer g p \<longleftrightarrow> IsInGridRange g (gridIndex p) \<and>
     (if IsPlayer p then IsValid w p else \<not> onlyPlayer)"

fun lookup_objs :: "world \<Rightarrow> u64 list \<Rightarrow> player list option" where
  "lookup_objs w [] = Some []"
| "lookup_objs w (oid # oids) = do { p \<leftarrow> find_obj w oid; ps \<leftarrow> lookup_objs w oids; Some (p # ps) }"

definition GetVisibleObjectsInSector ::
  "world \<Rightarrow> zone_type \<Rightarrow> vec3d \<Rightarrow> bool \<Rightarrow> u64 list option" where
  "GetVisibleObjectsInSector w zt position onlyPlayer = do {
     s \<leftarrow> FindSector w zt;
     let g = MakeGridIndex (mapData w) position;
     let sectorIds = GetVisibleSectorIds (mapData w) g;
     gameObjects \<leftarrow> lookup_objs w (concat (map (sector_objects s) sectorIds));
     Some (map objectId (filter (shown w onlyPlayer g) gameObjects)) }"

definition GetVisibleObjectsInZone :: "world \<Rightarrow> zone_type \<Rightarrow> u64 list option" where
  "GetVisibleObjectsInZone w zt = do {
     s \<leftarrow> FindSector w zt;
     ps \<leftarrow> lookup_objs w (concat (map snd s));
     Some (map objectId (filter (\<lambda>p. IsPlayer p \<and> IsValid w p) ps)) }"

fun visible_in_zones :: "world \<Rightarrow> zone_type list \<Rightarrow> vec3d \<Rightarrow> bool \<Rightarrow> u64 list option" where
  "visible_in_zones w [] position onlyPlayer = Some []"
| "visible_in_zones w (zt # zts) position onlyPlayer = do {
     a \<leftarrow> GetVisibleObjectsInSector w zt position onlyPlayer;
     b \<leftarrow> visible_in_zones w zts position onlyPlayer;
     Some (a @ b) }"

definition GetVisibleObjectsInSectors :: "world \<Rightarrow> vec3d \<Rightarrow> bool \<Rightarrow> u64 list option" where
  "GetVisibleObjectsInSectors w position onlyPlayer =
     visible_in_zones w (GetVisibleZones (mapData w) position) position onlyPlayer"

section \<open>Sending\<close>

definition send_packet :: "u64 \<Rightarrow> server_packet \<Rightarrow> world \<Rightarrow> world" where
  "send_packet sid pkt w = w\<lparr>outbox := outbox w @ [(sid, pkt)]\<rparr>"

definition SendUnicast :: "player \<Rightarrow> server_packet \<Rightarrow> world \<Rightarrow> world" where
  "SendUnicast p pkt w =
     (case pl_session p of
        None \<Rightarrow> w
      | Some sid \<Rightarrow> if session_closed w sid then w else send_packet sid pkt w)"

fun SendBroadcast :: "u64 list \<Rightarrow> server_packet \<Rightarrow> u64 \<Rightarrow> world \<Rightarrow> world option" where
  "SendBroadcast [] pkt exceptId w = Some w"
| "SendBroadcast (oid # oids) pkt exceptId w = do {
     p \<leftarrow> find_obj w oid;
     SendBroadcast oids pkt exceptId (if objectId p = exceptId then w else SendUnicast p pkt w) }"

text \<open>The default of exceptId is ObjectId(-1).\<close>

definition SendBroadcastToVisiblePlayers ::
  "player \<Rightarrow> server_packet \<Rightarrow> bool \<Rightarrow> world \<Rightarrow> world option" where
  "SendBroadcastToVisiblePlayers target pkt sendSelf w = do {
     let allPosition = GetAllObjectPosition target;
     players \<leftarrow> GetVisibleObjectsInSector w (currentZone allPosition) (currentVector allPosition) True;
     SendBroadcast players pkt (if sendSelf then - 1 else objectId target) w }"

definition SendBroadcastToZonePlayers ::
  "player \<Rightarrow> server_packet \<Rightarrow> bool \<Rightarrow> world \<Rightarrow> world option" where
  "SendBroadcastToZonePlayers target pkt sendSelf w = do {
     players \<leftarrow> GetVisibleObjectsInZone w (objZone target);
     SendBroadcast players pkt (if sendSelf then - 1 else objectId target) w }"

section \<open>Freeing objects\<close>

text \<open>The shared pointers to game objects that the world holds between two steps.\<close>

definition held_list :: "world \<Rightarrow> u64 list" where
  "held_list w = sectorUpdateSet w @ concat (map (concat \<circ> map snd \<circ> snd) (zoneSectors w)) @ map chat_self (chatJobs w)"

definition reclaim :: "world \<Rightarrow> world" where
  "reclaim w = w\<lparr>objs := filter (\<lambda>(oid, p). oid \<in> set (held_list w)) (objs w)\<rparr>"

end
