(* ===== verification/Player_Actions.thy ===== *)
theory Player_Actions
  imports Game_World
begin

text \<open>
  GameServer/Object/Player/Player.cpp, GameServer/Chat/Chat.cpp and the spawn point of
  TownZone.cpp: what a player does. An operation gets the player's object id; the object is read
  from the heap where the code reads its members. The random numbers, the clock and the text of
  the clock are arguments.
\<close>

section \<open>Chat messages\<close>

text \<open>The prefixes in UTF-8.\<close>

definition MakePrefix :: "msg_type \<Rightarrow> string" where
  "MakePrefix t =
     (case t of
        MSG_TYPE_General \<Rightarrow> [CHR ''['', CHR 0xEC, CHR 0x9D, CHR 0xBC, CHR 0xEB, CHR 0xB0, CHR 0x98, CHR '']'']
      | MSG_TYPE_Local \<Rightarrow> [CHR ''['', CHR 0xEC, CHR 0xA7, CHR 0x80, CHR 0xEC, CHR 0x97, CHR 0xAD, CHR '']'']
      | MSG_TYPE_System \<Rightarrow> [CHR ''['', CHR 0xEC, CHR 0x8B, CHR 0x9C, CHR 0xEC, CHR 0x8A, CHR 0xA4, CHR 0xED,
          CHR 0x85, CHR 0x9C, CHR '']'']
      | _ \<Rightarrow> [CHR ''['', CHR 0xEB, CHR 0xAA, CHR 0xA8, CHR 0xEB, CHR 0x91, CHR 0x90, CHR '']''])"

definition MakeMessage :: "string \<Rightarrow> string \<Rightarrow> string \<Rightarrow> msg_type \<Rightarrow> string" where
  "MakeMessage currentTime msg playerName t =
     ''['' @ currentTime @ '']'' @ MakePrefix t @ playerName @ '': '' @ msg"

text \<open>ChatMessage puts a job into the queue; the job broadcasts when a worker runs it.\<close>

definition BroadcastChatAsync :: "u64 \<Rightarrow> string \<Rightarrow> msg_type \<Rightarrow> world \<Rightarrow> world option" where
  "BroadcastChatAsync oid msg t w = do {
     p \<leftarrow> find_obj w oid;
     Some (w\<lparr>chatJobs := chatJobs w @ [\<lparr>chat_self = oid, chat_msg = msg, chat_type = t, chat_name = obj_name p\<rparr>]\<rparr>) }"

definition ChatMessage :: "u64 \<Rightarrow> msg_type \<Rightarrow> string \<Rightarrow> world \<Rightarrow> world option" where
  "ChatMessage oid t msg w =
     (case t of
        MSG_TYPE_All \<Rightarrow> BroadcastChatAsync oid msg MSG_TYPE_General w
      | MSG_TYPE_General \<Rightarrow> BroadcastChatAsync oid msg MSG_TYPE_General w
      | MSG_TYPE_Local \<Rightarrow> BroadcastChatAsync oid msg MSG_TYPE_Local w
      | MSG_TYPE_System \<Rightarrow> Some w)"

definition run_chat_job :: "string \<Rightarrow> chat_job \<Rightarrow> world \<Rightarrow> world option" where
  "run_chat_job currentTime j w = do {
     p \<leftarrow> find_obj w (chat_self j);
     let pkt = ChatPkt (MakeMessage currentTime (chat_msg j) (chat_name j) (chat_type j)) (chat_type j);
     (if chat_type j = MSG_TYPE_Local then SendBroadcastToZonePlayers p pkt True w
      else SendBroadcastToVisiblePlayers p pkt True w) }"

section \<open>Spawning\<close>

text \<open>
  The two random coordinates and the random yaw are arguments; the distribution promises that they
  lie in the closed interval it was given.
\<close>

definition GetRandomSpawnPosition :: "int \<Rightarrow> int \<Rightarrow> rat \<Rightarrow> base_zone \<Rightarrow> vec3d" where
  "GetRandomSpawnPosition randomX randomY randomYaw zone =
     Vector3d (of_int randomX) (of_int randomY) 180 randomYaw"

definition spawn_range :: "base_zone \<Rightarrow> int \<Rightarrow> int \<Rightarrow> rat \<Rightarrow> bool" where
  "spawn_range z rx ry ryaw \<longleftrightarrow>
     minX (worldPos (bz_info z)) + bz_spawnOffset z \<le> rx \<and> rx \<le> maxX (worldPos (bz_info z)) - bz_spawnOffset z \<and>
     minY (worldPos (bz_info z)) + bz_spawnOffset z \<le> ry \<and> ry \<le> maxY (worldPos (bz_info z)) - bz_spawnOffset z \<and>
     - 179 \<le> ryaw \<and> ryaw \<le> 179"

definition InitStatInfo :: "player \<Rightarrow> world \<Rightarrow> world" where
  "InitStatInfo p w = set_obj (p\<lparr>statInfo := GetPlayerStat (playerStats w) (playerType p)\<rparr>) w"

definition SendEnterGamePkt :: "int \<times> int \<times> rat \<Rightarrow> u64 \<Rightarrow> zone_type \<Rightarrow> world \<Rightarrow> world option" where
  "SendEnterGamePkt rnd oid zt w = do {
     townZone \<leftarrow> FindZone w zt;
     let spawnVector = (case rnd of (rx, ry, ryaw) \<Rightarrow> GetRandomSpawnPosition rx ry ryaw townZone);
     p \<leftarrow> find_obj w oid;
     let w1 = SetWorldPosition_vec spawnVector p w;
     p1 \<leftarrow> find_obj w1 oid;
     let w2 = InitStatInfo p1 w1;
     p2 \<leftarrow> find_obj w2 oid;
     sid \<leftarrow> pl_session p2;
     Some (RequestSectorUpdate oid (send_packet sid (EnterGamePkt (MakeObjectInfo p2)) w2)) }"

text \<open>The loop of EnterGame over the objects in view.\<close>

fun enter_seen :: "u64 \<Rightarrow> u64 list \<Rightarrow> world \<Rightarrow> world option" where
  "enter_seen oid [] w = Some w"
| "enter_seen oid (x # xs) w = do {
     other \<leftarrow> find_obj w x;
     (if objectId other = oid then enter_seen oid xs w
      else do {
        p \<leftarrow> find_obj w oid;
        let w1 = set_obj (p\<lparr>visibleObjects := set_add (objectId other) (visibleObjects p)\<rparr>) w;
        let w2 = (if IsPlayer other then SendUnicast p (SpawnPkt (MakeObjectInfo other)) w1 else w1);
        enter_seen oid xs w2 }) }"

definition EnterGame :: "int \<times> int \<times> rat \<Rightarrow> u64 \<Rightarrow> zone_type \<Rightarrow> world \<Rightarrow> world option" where
  "EnterGame rnd oid zt w = do {
     w1 \<leftarrow> SendEnterGamePkt rnd oid zt w;
     p \<leftarrow> find_obj w1 oid;
     objects \<leftarrow> GetVisibleObjectsInSectors w1 (vectorPos p) False;
     w2 \<leftarrow> SendBroadcast objects (SpawnPkt (MakeObjectInfo p)) (- 1) w1;
     w3 \<leftarrow> enter_seen oid objects w2;
     p3 \<leftarrow> find_obj w3 oid;
     Some (set_obj (p3\<lparr>isEntered := True\<rparr>) w3) }"

section \<open>Vision\<close>

fun SendSpawnPacket :: "player \<Rightarrow> u64 list \<Rightarrow> world \<Rightarrow> world option" where
  "SendSpawnPacket p [] w = Some w"
| "SendSpawnPacket p (x # xs) w = do {
     other \<leftarrow> find_obj w x;
     SendSpawnPacket p xs
       (if objectId other = objectId p \<or> objectId other \<in> set (visibleObjects p) then w
        else SendUnicast p (SpawnPkt (MakeObjectInfo other)) w) }"

fun SendDespawnPacket :: "player \<Rightarrow> u64 list \<Rightarrow> u64 list \<Rightarrow> world \<Rightarrow> world" where
  "SendDespawnPacket p [] newVisible w = w"
| "SendDespawnPacket p (x # xs) newVisible w =
     SendDespawnPacket p xs newVisible (if x \<notin> set newVisible then SendUnicast p (DespawnPkt x) w else w)"

fun new_visible :: "world \<Rightarrow> u64 \<Rightarrow> u64 list \<Rightarrow> u64 list \<Rightarrow> u64 list option" where
  "new_visible w oid [] acc = Some acc"
| "new_visible w oid (x # xs) acc = do {
     other \<leftarrow> find_obj w x;
     new_visible w oid xs (if objectId other \<noteq> oid then set_add (objectId other) acc else acc) }"

definition UpdateVision :: "u64 \<Rightarrow> u64 list \<Rightarrow> world \<Rightarrow> world option" where
  "UpdateVision oid currentVisible w = do {
     p \<leftarrow> find_obj w oid;
     (if \<not> isEntered p then Some w
      else if currentVisible = [] \<and> visibleObjects p = [] then Some w
      else do {
        newVisible \<leftarrow> new_visible w oid currentVisible [];
        w1 \<leftarrow> SendSpawnPacket p currentVisible w;
        let w2 = SendDespawnPacket p (visibleObjects p) newVisible w1;
        Some (set_obj (p\<lparr>visibleObjects := newVisible\<rparr>) w2) }) }"

section \<open>Leaving\<close>

definition DetachSession :: "player \<Rightarrow> world \<Rightarrow> world" where
  "DetachSession p w = set_obj (p\<lparr>isValid := False, pl_session := None\<rparr>) w"

text \<open>GameServer::LeaveGame; the objects in view are players, since only those are asked for.\<close>

fun leave_notify :: "u64 list \<Rightarrow> server_packet \<Rightarrow> world \<Rightarrow> world option" where
  "leave_notify [] pkt w = Some w"
| "leave_notify (x # xs) pkt w = do {
     p \<leftarrow> find_obj w x;
     leave_notify xs pkt (case GetSession w p of None \<Rightarrow> w | Some sid \<Rightarrow> send_packet sid pkt w) }"

definition LeaveGame :: "u64 \<Rightarrow> zone_type \<Rightarrow> vec3d \<Rightarrow> grid_index \<Rightarrow> world \<Rightarrow> world option" where
  "LeaveGame oid zt position g w = do {
     let w1 = RequestSectorDelete oid zt g w;
     objects \<leftarrow> GetVisibleObjectsInSectors w1 position True;
     leave_notify objects (DespawnPkt oid) w1 }"

text \<open>
  The world keeps a copy of each session, brought up to date whenever a session calls its service.
  The player pointer of a session is raw: if the object is gone, reading it is None.
\<close>

definition put_session :: "session \<Rightarrow> world \<Rightarrow> world" where
  "put_session s w = w\<lparr>netSessions := hm_assign (sessionID s) s (netSessions w)\<rparr>"

definition server_OnDisconnected :: "session \<Rightarrow> world \<Rightarrow> (session \<times> world) option" where
  "server_OnDisconnected s w =
     (let w0 = put_session s w in
      case playerClass s of
        None \<Rightarrow> Some (s, w0)
      | Some oid \<Rightarrow> do {
          p \<leftarrow> find_obj w0 oid;
          let allPosition = GetAllObjectPosition p;
          let w1 = DetachSession p w0;
          let s1 = DetachPlayer s;
          w2 \<leftarrow> LeaveGame (objectId p) (currentZone allPosition) (currentVector allPosition)
                 (currentGrid allPosition) (put_session s1 w1);
          Some (s1, w2) })"

definition net_session :: "world \<Rightarrow> u64 \<Rightarrow> session option" where
  "net_session w sid =
     (case map_of (netSessions w) sid of None \<Rightarrow> None | Some s \<Rightarrow> if sessionID s = sid then Some s else None)"

definition session_Close :: "u64 \<Rightarrow> world \<Rightarrow> world option" where
  "session_Close sid w = do {
     s \<leftarrow> net_session w sid;
     (s1, w1) \<leftarrow> Close server_OnDisconnected s w;
     Some (put_session s1 w1) }"

section \<open>Moving\<close>

record move_packet =
  mv_pos :: pos_info
  mv_vec :: "rat \<times> rat"

definition MOVE_ALLOW_RANGE :: rat where
  "MOVE_ALLOW_RANGE = 12 / 10"

definition PredicateMove :: "u64 \<Rightarrow> move_packet \<Rightarrow> rat \<Rightarrow> world \<Rightarrow> world option" where
  "PredicateMove oid packet halfRttSec w = do {
     p \<leftarrow> find_obj w oid;
     let predicateDistance = of_int (sint (moveSpeed (statInfo p))) * halfRttSec;
     let predicatePos = PosInfo (pos_x (mv_pos packet) + fst (mv_vec packet) * predicateDistance)
           (pos_y (mv_pos packet) + snd (mv_vec packet) * predicateDistance)
           (pos_z (mv_pos packet)) (pos_yaw (mv_pos packet));
     SendBroadcastToVisiblePlayers p (MovePkt oid predicatePos) False w }"

text \<open>
  The distance is a square root, and is compared by its square: the bound is exceeded when it is
  negative or its square is smaller.
\<close>

definition too_far :: "rat \<Rightarrow> rat \<Rightarrow> rat \<Rightarrow> bool" where
  "too_far distanceX distanceY bound \<longleftrightarrow>
     bound < 0 \<or> bound * bound < distanceX * distanceX + distanceY * distanceY"

definition MoveSimulate :: "int \<Rightarrow> u64 \<Rightarrow> move_packet \<Rightarrow> world \<Rightarrow> world option" where
  "MoveSimulate now oid packet w = do {
     p \<leftarrow> find_obj w oid;
     let posInfo = mv_pos packet;
     let moveSpd = sint (moveSpeed (statInfo p));
     let distanceX = pos_x posInfo - pos_x (obj_pos p);
     let distanceY = pos_y posInfo - pos_y (obj_pos p);
     sid \<leftarrow> pl_session p;
     s \<leftarrow> map_of (netSessions w) sid;
     let halfRtt = GetRttAvg s sdiv 2;
     let halfRttSec = (of_int halfRtt / 1000 :: rat);
     let elapsedTime = of_int (now - lastMoveTime p) / 10 ^ 9 + halfRttSec;
     let allowedDistance = of_int moveSpd * elapsedTime;
     (if too_far distanceX distanceY (allowedDistance * MOVE_ALLOW_RANGE)
      then Some (SendUnicast p (MovePkt oid (obj_pos p)) w)
      else do {
        let w1 = SetWorldPosition_pos posInfo p w;
        w2 \<leftarrow> PredicateMove oid packet halfRttSec w1;
        p2 \<leftarrow> find_obj w2 oid;
        Some (set_obj (p2\<lparr>lastMoveTime := now\<rparr>) w2) }) }"

text \<open>
  A session that is closed because of the position detaches the player; both branches then
  dereference the session pointer.
\<close>

definition Move :: "int \<Rightarrow> u64 \<Rightarrow> move_packet \<Rightarrow> world \<Rightarrow> world option" where
  "Move now oid packet w = do {
     p \<leftarrow> find_obj w oid;
     let posInfo = mv_pos packet;
     w1 \<leftarrow> (if \<not> IsValidWorldPosition (mapData w) posInfo
           then do { sid \<leftarrow> pl_session p; session_Close sid w }
           else Some w);
     go \<leftarrow> CanGo (mapData w1) (pos_x posInfo) (pos_y posInfo);
     (if \<not> go then do {
        p1 \<leftarrow> find_obj w1 oid;
        _ \<leftarrow> pl_session p1;
        Some (SendUnicast p1 (MovePkt oid (obj_pos p1)) w1) }
      else MoveSimulate now oid packet w1) }"

end
