(* ===== verification/World_Laws.thy ===== *)
theory World_Laws
  imports Player_Actions Session_Progress
begin

text \<open>
  What the operations of the world leave alone, and the state invariant: every object has its id,
  and every shared pointer of the world leads to an object. Operations that only move objects and
  send are quiet steps.
\<close>

section \<open>The heap\<close>

definition heap_ok :: "world \<Rightarrow> bool" where
  "heap_ok w \<longleftrightarrow> distinct (map fst (objs w)) \<and> (\<forall>(oid, p) \<in> set (objs w). objectId p = oid)"

definition alive :: "world \<Rightarrow> u64 set" where
  "alive w = dom (map_of (objs w))"

named_theorems world_simps

lemma find_set_obj [world_simps]:
  "find_obj (set_obj p w) oid = (if oid = objectId p then Some p else find_obj w oid)"
  by (simp add: find_obj_def set_obj_def map_of_hm_assign)

lemma alive_set_obj [world_simps]: "alive (set_obj p w) = insert (objectId p) (alive w)"
  by (simp add: alive_def set_obj_def map_of_hm_assign)

lemma alive_iff: "oid \<in> alive w \<longleftrightarrow> (\<exists>p. find_obj w oid = Some p)"
  by (auto simp: alive_def find_obj_def)

lemma alive_find: "find_obj w oid = Some p \<Longrightarrow> oid \<in> alive w"
  by (auto simp: alive_iff)

lemma heap_ok_set_obj [world_simps]: "heap_ok w \<Longrightarrow> heap_ok (set_obj p w)"
proof -
  assume ok: "heap_ok w"
  have "set (hm_assign k p al) \<subseteq> insert (k, p) (set al)" for k and p :: player and al
    by (induction al) auto
  then show ?thesis using ok by (force simp: heap_ok_def set_obj_def intro!: distinct_update)
qed

lemma find_objectId: "heap_ok w \<Longrightarrow> find_obj w oid = Some p \<Longrightarrow> objectId p = oid"
  by (force simp: heap_ok_def find_obj_def dest: map_of_SomeD)

section \<open>Sending only sends\<close>

definition sends_only :: "world \<Rightarrow> world \<Rightarrow> bool" where
  "sends_only w w' \<longleftrightarrow> (\<exists>xs. w' = w\<lparr>outbox := outbox w @ xs\<rparr>)"

lemma sends_only_refl [simp]: "sends_only w w"
  by (force simp: sends_only_def intro: exI [of _ "[]"])

lemma sends_only_trans: "sends_only w w' \<Longrightarrow> sends_only w' w'' \<Longrightarrow> sends_only w w''"
  by (auto simp: sends_only_def)

lemma send_packet_only [intro]: "sends_only w (send_packet sid pkt w)"
  by (auto simp: sends_only_def send_packet_def)

lemma SendUnicast_only [intro]: "sends_only w (SendUnicast p pkt w)"
  by (auto simp: SendUnicast_def split: option.split)

lemma SendBroadcast_only: "SendBroadcast oids pkt e w = Some w' \<Longrightarrow> sends_only w w'"
proof (induction oids pkt e w rule: SendBroadcast.induct)
  case (2 oid oids pkt e w)
  then obtain p where p: "find_obj w oid = Some p"
    "SendBroadcast oids pkt e (if objectId p = e then w else SendUnicast p pkt w) = Some w'"
    by (auto simp: bind_eq_Some_conv)
  have "sends_only w (if objectId p = e then w else SendUnicast p pkt w)" by auto
  with "2.IH" [OF p] show ?case by (rule sends_only_trans [rotated])
qed simp

lemma leave_notify_only: "leave_notify xs pkt w = Some w' \<Longrightarrow> sends_only w w'"
proof (induction xs pkt w rule: leave_notify.induct)
  case (2 x xs pkt w)
  then obtain p where p: "find_obj w x = Some p"
    "leave_notify xs pkt (case GetSession w p of None \<Rightarrow> w | Some sid \<Rightarrow> send_packet sid pkt w) = Some w'"
    by (auto simp: bind_eq_Some_conv)
  have "sends_only w (case GetSession w p of None \<Rightarrow> w | Some sid \<Rightarrow> send_packet sid pkt w)"
    by (auto split: option.split)
  with "2.IH" [OF p] show ?case by (rule sends_only_trans [rotated])
qed simp

lemma SendBroadcastToVisiblePlayers_only: "SendBroadcastToVisiblePlayers p pkt self w = Some w' \<Longrightarrow> sends_only w w'"
  by (auto simp: SendBroadcastToVisiblePlayers_def bind_eq_Some_conv Let_def dest: SendBroadcast_only)

lemma SendBroadcastToZonePlayers_only: "SendBroadcastToZonePlayers p pkt self w = Some w' \<Longrightarrow> sends_only w w'"
  by (auto simp: SendBroadcastToZonePlayers_def bind_eq_Some_conv dest: SendBroadcast_only)

lemma SendSpawnPacket_only: "SendSpawnPacket p xs w = Some w' \<Longrightarrow> sends_only w w'"
proof (induction p xs w rule: SendSpawnPacket.induct)
  case (2 p x xs w)
  let ?f = "\<lambda>q. if objectId q = objectId p \<or> objectId q \<in> set (visibleObjects p) then w
        else SendUnicast p (SpawnPkt (MakeObjectInfo q)) w"
  from 2 obtain q where q: "find_obj w x = Some q" "SendSpawnPacket p xs (?f q) = Some w'"
    by (auto simp: bind_eq_Some_conv)
  have "sends_only w (?f q)" by auto
  with "2.IH" [OF q] show ?case by (rule sends_only_trans [rotated])
qed simp

lemma SendDespawnPacket_only: "sends_only w (SendDespawnPacket p xs nv w)"
proof (induction p xs nv w rule: SendDespawnPacket.induct)
  case (2 p x xs nv w)
  have "sends_only w (if x \<notin> set nv then SendUnicast p (DespawnPkt x) w else w)" by auto
  with 2 show ?case unfolding SendDespawnPacket.simps by (rule sends_only_trans [rotated])
qed simp

lemmas sending_only = SendBroadcast_only leave_notify_only SendBroadcastToVisiblePlayers_only
  SendBroadcastToZonePlayers_only SendSpawnPacket_only

section \<open>Quiet steps\<close>

text \<open>
  A step that touches objects, the update set and the outbox: it frees nothing, makes nothing, and
  puts only objects of the heap into the update set.
\<close>

definition world_frame :: "world \<Rightarrow> world \<Rightarrow> bool" where
  "world_frame w w' \<longleftrightarrow> (\<exists>os us xs. w' = w\<lparr>objs := os, sectorUpdateSet := us, outbox := outbox w @ xs\<rparr>)"

definition quiet_step :: "world \<Rightarrow> world \<Rightarrow> bool" where
  "quiet_step w w' \<longleftrightarrow> world_frame w w' \<and>
     (heap_ok w \<longrightarrow> heap_ok w' \<and> alive w' = alive w \<and>
        set (sectorUpdateSet w) \<subseteq> set (sectorUpdateSet w') \<and>
        set (sectorUpdateSet w') \<subseteq> set (sectorUpdateSet w) \<union> alive w)"

lemma world_frameI: "w' = w\<lparr>objs := os, sectorUpdateSet := us, outbox := outbox w @ xs\<rparr> \<Longrightarrow> world_frame w w'"
  unfolding world_frame_def by blast

lemma world_frame_trans [trans]:
  assumes "world_frame w w'" and "world_frame w' w''"
  shows "world_frame w w''"
proof -
  from assms(1) obtain os us xs where 1: "w' = w\<lparr>objs := os, sectorUpdateSet := us, outbox := outbox w @ xs\<rparr>"
    unfolding world_frame_def by blast
  from assms(2) obtain os' us' ys where "w'' = w'\<lparr>objs := os', sectorUpdateSet := us', outbox := outbox w' @ ys\<rparr>"
    unfolding world_frame_def by blast
  with 1 have "w'' = w\<lparr>objs := os', sectorUpdateSet := us', outbox := outbox w @ (xs @ ys)\<rparr>" by simp
  then show ?thesis by (rule world_frameI)
qed

lemma world_frame_refl: "world_frame w w"
  by (rule world_frameI [where os = "objs w" and us = "sectorUpdateSet w" and xs = "[]"]) simp

lemma world_frameD:
  assumes "world_frame w w'"
  shows "mapData w' = mapData w" "worldZones w' = worldZones w" "zoneSectors w' = zoneSectors w"
    "forceDeleteObjs w' = forceDeleteObjs w" "nextObjectId w' = nextObjectId w"
    "playerStats w' = playerStats w" "netSessions w' = netSessions w" "chatJobs w' = chatJobs w"
    "worldNow w' = worldNow w" "worldMs w' = worldMs w" "rndSource w' = rndSource w"
    "prefix (outbox w) (outbox w')"
  using assms by (auto simp: world_frame_def)

lemma quiet_step_refl [simp]: "quiet_step w w"
  by (simp add: quiet_step_def world_frame_refl)

lemma quiet_step_trans [trans]: "quiet_step w w' \<Longrightarrow> quiet_step w' w'' \<Longrightarrow> quiet_step w w''"
  unfolding quiet_step_def using world_frame_trans by blast

lemma sends_only_quiet: "sends_only w w' \<Longrightarrow> quiet_step w w'"
proof -
  assume "sends_only w w'"
  then obtain xs where w': "w' = w\<lparr>outbox := outbox w @ xs\<rparr>" by (auto simp: sends_only_def)
  have "world_frame w w'" unfolding world_frame_def w'
    by (intro exI [of _ "objs w"] exI [of _ "sectorUpdateSet w"] exI [of _ xs]) simp
  then show ?thesis by (simp add: quiet_step_def heap_ok_def alive_def w')
qed

lemma set_obj_frame: "world_frame w (set_obj p w)"
  unfolding world_frame_def set_obj_def
  by (intro exI [of _ "hm_assign (objectId p) p (objs w)"] exI [of _ "sectorUpdateSet w"] exI [of _ "[]"]) simp

lemma set_obj_quiet:
  assumes "heap_ok w \<Longrightarrow> objectId p \<in> alive w"
  shows "quiet_step w (set_obj p w)"
  using assms set_obj_frame [of w p] by (auto simp: quiet_step_def world_simps) (simp_all add: set_obj_def)

lemma RequestSectorUpdate_quiet:
  assumes "heap_ok w \<Longrightarrow> oid \<in> alive w"
  shows "quiet_step w (RequestSectorUpdate oid w)"
proof -
  have "world_frame w (RequestSectorUpdate oid w)" unfolding world_frame_def RequestSectorUpdate_def
    by (intro exI [of _ "objs w"] exI [of _ "set_add oid (sectorUpdateSet w)"] exI [of _ "[]"]) simp
  then show ?thesis using assms
    by (auto simp: quiet_step_def RequestSectorUpdate_def heap_ok_def alive_def set_add_def)
qed

text \<open>Writing back an object that was read.\<close>

lemma update_obj_quiet:
  assumes "find_obj w oid = Some p" and "objectId p' = objectId p"
  shows "quiet_step w (set_obj p' w)"
  using assms find_objectId [of w oid p] by (intro set_obj_quiet) (auto simp: alive_iff)

lemma SetWorldPosition2_quiet:
  assumes "find_obj w oid = Some p"
  shows "quiet_step w (SetWorldPosition2 vp posInfo p w)"
proof -
  let ?p1 = "p\<lparr>prevZoneType := objZone p, prevGridIndex := gridIndex p, vectorPos := vp,
      obj_pos := posInfo, objZone := GetZoneByPosition (mapData w) vp, gridIndex := MakeGridIndex (mapData w) vp\<rparr>"
  have 1: "quiet_step w (set_obj ?p1 w)" using assms by (rule update_obj_quiet) simp
  moreover have "quiet_step (set_obj ?p1 w) (RequestSectorUpdate (objectId p) (set_obj ?p1 w))"
    by (rule RequestSectorUpdate_quiet) (simp add: world_simps)
  ultimately show ?thesis by (auto simp: SetWorldPosition2_def Let_def intro: quiet_step_trans)
qed

lemma SetWorldPosition_pos_quiet: "find_obj w oid = Some p \<Longrightarrow> quiet_step w (SetWorldPosition_pos posInfo p w)"
  by (simp add: SetWorldPosition_pos_def SetWorldPosition2_quiet)

lemma SetWorldPosition_vec_quiet: "find_obj w oid = Some p \<Longrightarrow> quiet_step w (SetWorldPosition_vec v p w)"
  by (simp add: SetWorldPosition_vec_def SetWorldPosition2_quiet)

text \<open>The operations of a player that make only quiet steps.\<close>

lemma InitStatInfo_quiet: "find_obj w oid = Some p \<Longrightarrow> quiet_step w (InitStatInfo p w)"
  unfolding InitStatInfo_def by (erule update_obj_quiet) simp

lemma SendEnterGamePkt_quiet:
  assumes "SendEnterGamePkt rnd oid zt w = Some w'"
  shows "quiet_step w w'"
proof -
  from assms obtain v p p1 p2 sid where 1: "find_obj w oid = Some p"
    "find_obj (SetWorldPosition_vec v p w) oid = Some p1"
    "find_obj (InitStatInfo p1 (SetWorldPosition_vec v p w)) oid = Some p2"
    "w' = RequestSectorUpdate oid (send_packet sid (EnterGamePkt (MakeObjectInfo p2)) (InitStatInfo p1 (SetWorldPosition_vec v p w)))"
    by (auto simp: SendEnterGamePkt_def bind_eq_Some_conv Let_def)
  let ?w2 = "InitStatInfo p1 (SetWorldPosition_vec v p w)"
  have "quiet_step w ?w2"
    using SetWorldPosition_vec_quiet [OF 1(1)] InitStatInfo_quiet [OF 1(2)] by (rule quiet_step_trans)
  also have "quiet_step ?w2 (send_packet sid (EnterGamePkt (MakeObjectInfo p2)) ?w2)"
    by (rule sends_only_quiet) auto
  also have "quiet_step (send_packet sid (EnterGamePkt (MakeObjectInfo p2)) ?w2) w'"
    unfolding 1(4) using alive_find [OF 1(3)]
    by (intro RequestSectorUpdate_quiet) (simp add: alive_def send_packet_def)
  finally show ?thesis .
qed

lemma enter_seen_quiet: "enter_seen oid xs w = Some w' \<Longrightarrow> quiet_step w w'"
proof (induction oid xs w rule: enter_seen.induct)
  case (2 oid x xs w)
  then obtain q where q: "find_obj w x = Some q" by (auto simp: bind_eq_Some_conv)
  show ?case
  proof (cases "objectId q = oid")
    case True
    with 2 q show ?thesis by simp
  next
    case False
    with 2 q obtain p where p: "find_obj w oid = Some p" by (auto simp: bind_eq_Some_conv)
    let ?w1 = "set_obj (p\<lparr>visibleObjects := set_add (objectId q) (visibleObjects p)\<rparr>) w"
    let ?w2 = "if IsPlayer q then SendUnicast p (SpawnPkt (MakeObjectInfo q)) ?w1 else ?w1"
    have "quiet_step w ?w1" using p by (rule update_obj_quiet) simp
    moreover have "quiet_step ?w1 ?w2" by (rule sends_only_quiet) auto
    moreover have "enter_seen oid xs ?w2 = Some w'" using 2(3) q p False by (simp add: Let_def)
    ultimately show ?thesis using "2.IH"(2) [OF q False p refl refl] quiet_step_trans by blast
  qed
qed simp

lemma EnterGame_quiet:
  assumes "EnterGame rnd oid zt w = Some w'"
  shows "quiet_step w w'"
proof -
  from assms obtain w1 p objects w2 w3 p3 where 1: "SendEnterGamePkt rnd oid zt w = Some w1"
    "SendBroadcast objects (SpawnPkt (MakeObjectInfo p)) (- 1) w1 = Some w2"
    "enter_seen oid objects w2 = Some w3" "find_obj w3 oid = Some p3" "w' = set_obj (p3\<lparr>isEntered := True\<rparr>) w3"
    by (auto simp: EnterGame_def bind_eq_Some_conv)
  have "quiet_step w w1" by (rule SendEnterGamePkt_quiet [OF 1(1)])
  also have "quiet_step w1 w2" by (rule sends_only_quiet [OF SendBroadcast_only [OF 1(2)]])
  also have "quiet_step w2 w3" by (rule enter_seen_quiet [OF 1(3)])
  also have "quiet_step w3 w'" unfolding 1(5) using 1(4) by (rule update_obj_quiet) simp
  finally show ?thesis .
qed

lemma UpdateVision_quiet:
  assumes "UpdateVision oid vis w = Some w'"
  shows "quiet_step w w'"
proof -
  from assms obtain p where p: "find_obj w oid = Some p" by (auto simp: UpdateVision_def bind_eq_Some_conv)
  show ?thesis
  proof (cases "\<not> isEntered p \<or> vis = [] \<and> visibleObjects p = []")
    case True
    with assms p show ?thesis by (auto simp: UpdateVision_def split: if_splits)
  next
    case False
    with assms p obtain nv w1 where w1: "SendSpawnPacket p vis w = Some w1"
      "w' = set_obj (p\<lparr>visibleObjects := nv\<rparr>) (SendDespawnPacket p (visibleObjects p) nv w1)"
      by (auto simp: UpdateVision_def bind_eq_Some_conv Let_def)
    let ?w2 = "SendDespawnPacket p (visibleObjects p) nv w1"
    have 2: "sends_only w ?w2"
      using SendSpawnPacket_only [OF w1(1)] SendDespawnPacket_only by (rule sends_only_trans)
    then have "find_obj ?w2 oid = Some p" using p by (auto simp: sends_only_def find_obj_def)
    then have "quiet_step ?w2 w'" unfolding w1(2) by (rule update_obj_quiet) simp
    with sends_only_quiet [OF 2] show ?thesis by (rule quiet_step_trans)
  qed
qed

lemma PredicateMove_only: "PredicateMove oid packet h w = Some w' \<Longrightarrow> sends_only w w'"
  by (auto simp: PredicateMove_def bind_eq_Some_conv Let_def dest: SendBroadcastToVisiblePlayers_only)

lemma MoveSimulate_quiet:
  assumes "MoveSimulate now oid packet w = Some w'"
  shows "quiet_step w w'"
proof -
  from assms obtain p where p: "find_obj w oid = Some p" by (auto simp: MoveSimulate_def bind_eq_Some_conv)
  with assms consider "w' = SendUnicast p (MovePkt oid (obj_pos p)) w"
    | h w2 p2 where "PredicateMove oid packet h (SetWorldPosition_pos (mv_pos packet) p w) = Some w2"
      "find_obj w2 oid = Some p2" "w' = set_obj (p2\<lparr>lastMoveTime := now\<rparr>) w2"
    by (auto simp: MoveSimulate_def bind_eq_Some_conv Let_def split: if_splits)
  then show ?thesis
  proof cases
    case 1
    then show ?thesis using SendUnicast_only sends_only_quiet by simp
  next
    case 2
    have "quiet_step w (SetWorldPosition_pos (mv_pos packet) p w)" by (rule SetWorldPosition_pos_quiet [OF p])
    also have "quiet_step \<dots> w2" by (rule sends_only_quiet [OF PredicateMove_only [OF 2(1)]])
    also have "quiet_step w2 w'" unfolding 2(3) using 2(2) by (rule update_obj_quiet) simp
    finally show ?thesis .
  qed
qed

section \<open>Sessions\<close>

text \<open>Every session of the world's table makes a step that its invariant allows.\<close>

definition net_step :: "world \<Rightarrow> world \<Rightarrow> bool" where
  "net_step w w' \<longleftrightarrow> (\<forall>sid s. map_of (netSessions w) sid = Some s \<longrightarrow>
     (\<exists>s'. map_of (netSessions w') sid = Some s' \<and> session_step s s'))"

lemma net_step_trans [trans]: "net_step w w' \<Longrightarrow> net_step w' w'' \<Longrightarrow> net_step w w''"
  unfolding net_step_def using session_step_trans by blast

lemma net_step_same: "netSessions w' = netSessions w \<Longrightarrow> net_step w w'"
  by (simp add: net_step_def)

lemma quiet_net_step: "quiet_step w w' \<Longrightarrow> net_step w w'"
  by (rule net_step_same) (simp add: quiet_step_def world_frameD(7))

lemma find_put_session [world_simps]:
  "map_of (netSessions (put_session s w)) sid = (if sid = sessionID s then Some s else map_of (netSessions w) sid)"
  by (simp add: put_session_def map_of_hm_assign)

lemma net_step_put:
  assumes "map_of (netSessions w) (sessionID s') = Some s" and "session_step s s'"
  shows "net_step w (put_session s' w)"
  using assms by (auto simp: net_step_def world_simps)

lemma LeaveGame_frame:
  "LeaveGame oid zt v g w = Some w' \<Longrightarrow> sends_only (RequestSectorDelete oid zt g w) w'"
  by (auto simp: LeaveGame_def bind_eq_Some_conv Let_def dest: leave_notify_only)

lemma DetachPlayer_step: "session_step s (DetachPlayer s)"
  by (simp add: session_step_def DetachPlayer_def session_inv_def)

lemma SetPlayer_step: "session_step s (SetPlayer oid s)"
  by (simp add: session_step_def SetPlayer_def session_inv_def)

lemma server_disc_cases:
  assumes "server_OnDisconnected s w = Some (s', w')"
  obtains "playerClass s = None" "s' = s" "w' = put_session s w"
  | oid p where "playerClass s = Some oid" "s' = DetachPlayer s" "find_obj w oid = Some p"
      "LeaveGame (objectId p) (objZone p) (vectorPos p) (gridIndex p)
         (put_session s' (DetachSession p (put_session s w))) = Some w'"
  using assms
  by (auto simp: server_OnDisconnected_def bind_eq_Some_conv Let_def GetAllObjectPosition_def find_obj_def
      put_session_def split: option.splits)

lemma server_disc_sessions:
  assumes "server_OnDisconnected s w = Some (s', w')"
  shows "sessionID s' = sessionID s" and "session_step s s'"
    and "map_of (netSessions w') sid = (if sid = sessionID s then Some s' else map_of (netSessions w) sid)"
proof -
  have "sessionID s' = sessionID s \<and> session_step s s' \<and>
     map_of (netSessions w') sid = (if sid = sessionID s then Some s' else map_of (netSessions w) sid)"
    using assms
  proof (cases rule: server_disc_cases)
    case 1
    then show ?thesis by (simp add: world_simps)
  next
    case (2 oid p)
    have "netSessions w' = netSessions (put_session s' (DetachSession p (put_session s w)))"
      using LeaveGame_frame [OF 2(4)] by (auto simp: sends_only_def RequestSectorDelete_def)
    then show ?thesis using 2(2) DetachPlayer_step
      by (simp add: world_simps DetachSession_def set_obj_def DetachPlayer_def put_session_def map_of_hm_assign)
  qed
  then show "sessionID s' = sessionID s" and "session_step s s'"
    and "map_of (netSessions w') sid = (if sid = sessionID s then Some s' else map_of (netSessions w) sid)"
    by simp_all
qed

text \<open>The callback meets the contract that Close and the send path rely on.\<close>

interpretation sv_disc: disconnect_contract server_OnDisconnected
  by unfold_locales (rule server_disc_sessions(2))

lemma session_Close_net: "session_Close sid w = Some w' \<Longrightarrow> net_step w w'"
proof -
  assume "session_Close sid w = Some w'"
  then obtain s s1 w1 where s: "map_of (netSessions w) sid = Some s" "sessionID s = sid"
    and c: "Close server_OnDisconnected s w = Some (s1, w1)" and w': "w' = put_session s1 w1"
    by (auto simp: session_Close_def net_session_def bind_eq_Some_conv split: option.splits if_splits)
  have step: "session_step s s1" by (rule sv_disc.Close_step [OF c])
  have "sessionID s1 = sid \<and> (\<forall>k. k \<noteq> sid \<longrightarrow> map_of (netSessions w1) k = map_of (netSessions w) k)"
  proof (cases "isClosed s")
    case True
    with c s show ?thesis by (simp add: Close_def)
  next
    case False
    let ?s1 = "s\<lparr>isClosed := True, sending := False\<rparr>"
    from c False obtain s2 where "s1 = CloseResource s2"
      "(if hasService s then server_OnDisconnected ?s1 w else Some (?s1, w)) = Some (s2, w1)"
      by (auto simp: Close_def Let_def bind_eq_Some_conv simp del: if_split)
    then show ?thesis using server_disc_sessions(1,3) [of ?s1 w s2 w1] s(2)
      by (auto simp: CloseResource_def Let_def split: if_splits)
  qed
  with s step show ?thesis by (auto simp: net_step_def w' world_simps)
qed

lemma Move_net:
  assumes "Move now oid packet w = Some w'"
  shows "net_step w w'"
proof -
  from assms obtain p :: player and w1 go where w1: "(if \<not> IsValidWorldPosition (mapData w) (mv_pos packet)
      then do { sid \<leftarrow> pl_session p; session_Close sid w } else Some w) = Some w1"
    and rest: "(if \<not> go then do { p1 \<leftarrow> find_obj w1 oid; _ \<leftarrow> pl_session p1;
        Some (SendUnicast p1 (MovePkt oid (obj_pos p1)) w1) } else MoveSimulate now oid packet w1) = Some w'"
    unfolding Move_def Let_def bind_eq_Some_conv by blast
  have "net_step w w1" using w1 session_Close_net
    by (auto simp: bind_eq_Some_conv intro: net_step_same split: if_splits)
  also have "net_step w1 w'"
    using rest MoveSimulate_quiet quiet_net_step sends_only_quiet [OF SendUnicast_only]
    by (auto simp: bind_eq_Some_conv split: if_splits)
  finally show ?thesis .
qed

end
