(* ===== verification/Map_Loader.thy ===== *)
theory Map_Loader
  imports World_Map Json_Loader
begin

text \<open>
  GameServer/World/MapDataLoader.cpp: the map is read from a JSON document. Members of a struct
  that the document does not set keep what they held: the map data of the world is zero at first,
  a ZoneInfo on the stack is whatever the stack held (the argument zone0).
\<close>

section \<open>Parsing\<close>

definition map_string_fields :: "map_data string_field list" where
  "map_string_fields = [(''mapName'', \<lambda>s d. d\<lparr>mapName := s\<rparr>)]"

definition map_int_fields :: "map_data int_field list" where
  "map_int_fields =
     [(''gridSize'', \<lambda>n d. d\<lparr>gridSize := n\<rparr>), (''gridX'', \<lambda>n d. d\<lparr>gridX := n\<rparr>),
      (''gridY'', \<lambda>n d. d\<lparr>gridY := n\<rparr>), (''spawnOffset'', \<lambda>n d. d\<lparr>spawnOffset := n\<rparr>),
      (''worldMinX'', \<lambda>n d. d\<lparr>worldMinX := n\<rparr>), (''worldMinY'', \<lambda>n d. d\<lparr>worldMinY := n\<rparr>),
      (''worldMaxX'', \<lambda>n d. d\<lparr>worldMaxX := n\<rparr>), (''worldMaxY'', \<lambda>n d. d\<lparr>worldMaxY := n\<rparr>),
      (''totalCells'', \<lambda>n d. d\<lparr>totalCells := n\<rparr>)]"

definition zone_pos_fields :: "zone_pos int_field list" where
  "zone_pos_fields =
     [(''minX'', \<lambda>n p. p\<lparr>minX := n\<rparr>), (''minY'', \<lambda>n p. p\<lparr>minY := n\<rparr>),
      (''maxX'', \<lambda>n p. p\<lparr>maxX := n\<rparr>), (''maxY'', \<lambda>n p. p\<lparr>maxY := n\<rparr>)]"

definition ParseZonePosition :: "'v json_api \<Rightarrow> 'v \<Rightarrow> zone_pos \<Rightarrow> (bool \<times> zone_pos) option" where
  "ParseZonePosition js posObj p =
     (if \<not> js_IsObject js posObj then Some (False, p)
      else do { p1 \<leftarrow> set_int_fields js posObj zone_pos_fields p; Some (True, p1) })"

text \<open>One zone: None inside the option means that it is skipped.\<close>

definition parse_zone :: "'v json_api \<Rightarrow> zone_info \<Rightarrow> int \<Rightarrow> 'v \<Rightarrow> zone_info option option" where
  "parse_zone js zone0 gsize zoneObj =
     (if \<not> js_IsObject js zoneObj then Some None
      else do {
        let z = zone0\<lparr>zoneGridSize := gsize, zoneName := []\<rparr>;
        z1 \<leftarrow> set_int_fields js zoneObj [(''zoneType'', \<lambda>n z. z\<lparr>zoneType := of_int n\<rparr>)] z;
        (ok, z2) \<leftarrow> (if js_HasMember js zoneObj ''worldPos'' then do {
                       v \<leftarrow> js_Member js zoneObj ''worldPos'';
                       (if js_IsObject js v then do {
                          (ok, p) \<leftarrow> ParseZonePosition js v (worldPos z1);
                          Some (ok, z1\<lparr>worldPos := p\<rparr>) }
                        else Some (True, z1)) }
                     else Some (True, z1));
        (if \<not> ok then Some None
         else do {
           z3 \<leftarrow> set_string_fields js zoneObj [(''zoneName'', \<lambda>s z. z\<lparr>zoneName := s\<rparr>)] z2;
           Some (Some z3) }) })"

fun parse_zones :: "'v json_api \<Rightarrow> zone_info \<Rightarrow> int \<Rightarrow> 'v list \<Rightarrow> zone_info list \<Rightarrow> zone_info list option" where
  "parse_zones js zone0 gsize [] out = Some out"
| "parse_zones js zone0 gsize (v # vs) out = do {
     z \<leftarrow> parse_zone js zone0 gsize v;
     parse_zones js zone0 gsize vs (case z of None \<Rightarrow> out | Some x \<Rightarrow> out @ [x]) }"

definition ParseZones ::
  "'v json_api \<Rightarrow> zone_info \<Rightarrow> 'v \<Rightarrow> int \<Rightarrow> zone_info list \<Rightarrow> (bool \<times> zone_info list) option" where
  "ParseZones js zone0 zonesArray gsize out =
     (if \<not> js_IsArray js zonesArray then Some (False, out)
      else do {
        vs \<leftarrow> js_Elements js zonesArray;
        out1 \<leftarrow> parse_zones js zone0 gsize vs out;
        Some (out1 \<noteq> [], out1) })"

text \<open>std::vector::resize: a negative count is a huge one, and the allocation throws.\<close>

definition resize_vec :: "int \<Rightarrow> 'a \<Rightarrow> 'a list \<Rightarrow> 'a list option" where
  "resize_vec n x xs =
     (if n < 0 then None else Some (take (nat n) xs @ replicate (nat n - length xs) x))"

text \<open>The cells of a row that the document gives, as truth values, and then the rows.\<close>

fun parse_cells :: "'v json_api \<Rightarrow> 'v list \<Rightarrow> nat \<Rightarrow> bool list \<Rightarrow> bool list option" where
  "parse_cells js [] col row = Some row"
| "parse_cells js (v # vs) col row =
     (if col < length row then do {
        n \<leftarrow> js_GetInt js v;
        parse_cells js vs (Suc col) (row[col := (n \<noteq> 0)]) }
      else Some row)"

fun parse_rows :: "'v json_api \<Rightarrow> int \<Rightarrow> 'v list \<Rightarrow> nat \<Rightarrow> bool list list \<Rightarrow> bool list list option" where
  "parse_rows js gX [] r outGrid = Some outGrid"
| "parse_rows js gX (rowArray # rows) r outGrid =
     (if r < length outGrid then
        (if \<not> js_IsArray js rowArray then parse_rows js gX rows (Suc r) outGrid
         else do {
           row \<leftarrow> resize_vec gX False (outGrid ! r);
           cells \<leftarrow> js_Elements js rowArray;
           row1 \<leftarrow> parse_cells js cells 0 row;
           parse_rows js gX rows (Suc r) (outGrid[r := row1]) })
      else Some outGrid)"

definition ParseMapGrid ::
  "'v json_api \<Rightarrow> 'v \<Rightarrow> bool list list \<Rightarrow> int \<Rightarrow> int \<Rightarrow> (bool \<times> bool list list) option" where
  "ParseMapGrid js mapDataArray outGrid gX gY =
     (if \<not> js_IsArray js mapDataArray then Some (False, outGrid)
      else do {
        grid \<leftarrow> resize_vec gY [] outGrid;
        rows \<leftarrow> js_Elements js mapDataArray;
        grid1 \<leftarrow> parse_rows js gX rows 0 grid;
        Some (True, grid1) })"

text \<open>A member that is an array.\<close>

definition array_member :: "'v json_api \<Rightarrow> 'v \<Rightarrow> string \<Rightarrow> 'v option option" where
  "array_member js document key =
     (if js_HasMember js document key then do {
        v \<leftarrow> js_Member js document key;
        Some (if js_IsArray js v then Some v else None) }
      else Some None)"

definition ParseMapData :: "'v json_api \<Rightarrow> zone_info \<Rightarrow> 'v \<Rightarrow> map_data \<Rightarrow> map_data option" where
  "ParseMapData js zone0 document d0 = do {
     d1 \<leftarrow> set_string_fields js document map_string_fields d0;
     d2 \<leftarrow> set_int_fields js document map_int_fields d1;
     zonesArray \<leftarrow> array_member js document ''zones'';
     (ok, d3) \<leftarrow> (case zonesArray of None \<Rightarrow> Some (True, d2)
                 | Some v \<Rightarrow> do {
                     (ok, zs) \<leftarrow> ParseZones js zone0 v (gridSize d2) (zones d2);
                     Some (ok, d2\<lparr>zones := zs\<rparr>) });
     (if \<not> ok then Some d3
      else do {
        gridArray \<leftarrow> array_member js document ''mapData'';
        (case gridArray of None \<Rightarrow> Some d3
         | Some v \<Rightarrow> do {
             (ok, g) \<leftarrow> ParseMapGrid js v (mapGrid d3) (gridX d3) (gridY d3);
             Some (d3\<lparr>mapGrid := g\<rparr>) }) }) }"

definition LoadMapData ::
  "'v json_api \<Rightarrow> zone_info \<Rightarrow> file_system \<Rightarrow> string \<Rightarrow> map_data \<Rightarrow> (bool \<times> map_data) option" where
  "LoadMapData js zone0 fs filePath out =
     (let jsonContent = ReadFileToString fs filePath [] in
      if jsonContent = [] then Some (False, out)
      else (case ParseJSONDocument js jsonContent of
              None \<Rightarrow> Some (False, out)
            | Some document \<Rightarrow> do {
                out1 \<leftarrow> ParseMapData js zone0 document out;
                Some (True, out1) }))"

definition map_zero :: map_data where
  "map_zero = \<lparr>mapName = [], gridSize = 0, gridX = 0, gridY = 0, spawnOffset = 0, worldMinX = 0,
     worldMinY = 0, worldMaxX = 0, worldMaxY = 0, totalCells = 0, zones = [], mapGrid = []\<rparr>"

section \<open>What the grid holds\<close>

text \<open>The cell that the document gives for a column, or the value of a resized vector.\<close>

definition doc_cell :: "'v json_api \<Rightarrow> 'v list \<Rightarrow> nat \<Rightarrow> bool" where
  "doc_cell js cells c \<longleftrightarrow> c < length cells \<and> js_GetInt js (cells ! c) \<noteq> Some 0"

lemma parse_cells_spec:
  "parse_cells js vs col row = Some row' \<Longrightarrow> length row' = length row \<and>
     (\<forall>c < length row. row' ! c =
        (if col \<le> c \<and> c - col < length vs then js_GetInt js (vs ! (c - col)) \<noteq> Some 0 else row ! c))"
proof (induction js vs col row rule: parse_cells.induct)
  case (2 js v vs col row)
  show ?case
  proof (cases "col < length row")
    case True
    with 2 obtain n where n: "js_GetInt js v = Some n"
      "parse_cells js vs (Suc col) (row[col := (n \<noteq> 0)]) = Some row'"
      by (auto simp: bind_eq_Some_conv)
    note ih = "2.IH" [OF True n]
    have "row' ! c = (if col \<le> c \<and> c - col < length (v # vs)
        then js_GetInt js ((v # vs) ! (c - col)) \<noteq> Some 0 else row ! c)" if c: "c < length row" for c
    proof (cases "col = c")
      case True
      with ih c n(1) show ?thesis by simp
    next
      case False
      then have "(v # vs) ! (c - col) = vs ! (c - Suc col)" if "col \<le> c"
        using that by (simp add: nth_Cons')
      with False ih c show ?thesis by auto
    qed
    with ih show ?thesis by simp
  qed (use 2 in auto)
qed simp

lemma resize_vec_spec:
  "resize_vec n x xs = Some ys \<Longrightarrow> 0 \<le> n \<and> length ys = nat n \<and> (xs = [] \<longrightarrow> ys = replicate (nat n) x)"
  by (auto simp: resize_vec_def split: if_splits)

text \<open>What parse_rows leaves in row i of the grid.\<close>

definition row_ok :: "'v json_api \<Rightarrow> int \<Rightarrow> 'v list \<Rightarrow> nat \<Rightarrow> bool list \<Rightarrow> bool" where
  "row_ok js gX rows i row \<longleftrightarrow>
     (if i < length rows \<and> js_IsArray js (rows ! i)
      then \<exists>cells. js_Elements js (rows ! i) = Some cells \<and> length row = nat gX \<and>
             (\<forall>c < nat gX. row ! c = doc_cell js cells c)
      else row = [])"

lemma parse_rows_spec:
  assumes "parse_rows js gX rows r g = Some g'" and "\<forall>i. r \<le> i \<longrightarrow> i < length g \<longrightarrow> g ! i = []"
  shows "length g' = length g \<and> (\<forall>i < length g. if r \<le> i then row_ok js gX rows (i - r) (g' ! i) else g' ! i = g ! i)"
  using assms
proof (induction js gX rows r g arbitrary: g' rule: parse_rows.induct)
  case (2 js gX v rows r g)
  show ?case
  proof (cases "r < length g")
    case True
    have tail: "row_ok js gX (v # rows) (i - r) row = row_ok js gX rows (i - Suc r) row" if "r < i" for i row
      using that by (simp add: row_ok_def nth_Cons' less_diff_conv)
         (metis Suc_diff_Suc diff_Suc_1 Suc_less_eq)
    have join: "length g' = length g \<and> (\<forall>i < length g. if r \<le> i then row_ok js gX (v # rows) (i - r) (g' ! i)
        else g' ! i = g ! i)" if "length g' = length g" "row_ok js gX (v # rows) 0 (g' ! r)"
      "\<forall>i < length g. if Suc r \<le> i then row_ok js gX rows (i - Suc r) (g' ! i) else i \<noteq> r \<longrightarrow> g' ! i = g ! i"
    proof -
      note h = that
      have "if r \<le> i then row_ok js gX (v # rows) (i - r) (g' ! i) else g' ! i = g ! i" if i: "i < length g" for i
      proof (cases r i rule: linorder_cases)
        case less
        with tail h(3) i show ?thesis by simp
      qed (use h i in simp_all)
      with h(1) show ?thesis by blast
    qed
    show ?thesis
    proof (cases "js_IsArray js v")
      case False
      note ih = "2.IH"(1) [OF True False]
      have "length g' = length g \<and> (\<forall>i < length g. if Suc r \<le> i then row_ok js gX rows (i - Suc r) (g' ! i)
          else g' ! i = g ! i)" using 2(3,4) True False by (intro ih) auto
      moreover have "row_ok js gX (v # rows) 0 []" using False by (simp add: row_ok_def)
      ultimately show ?thesis using 2(4) True by (intro join) auto
    next
      case arr: True
      from 2(3) True arr obtain row cells row1 where
        1: "resize_vec gX False (g ! r) = Some row" "js_Elements js v = Some cells"
          "parse_cells js cells 0 row = Some row1" "parse_rows js gX rows (Suc r) (g[r := row1]) = Some g'"
        by (auto simp: bind_eq_Some_conv)
      have "length g' = length (g[r := row1]) \<and> (\<forall>i < length (g[r := row1]).
          if Suc r \<le> i then row_ok js gX rows (i - Suc r) (g' ! i) else g' ! i = g[r := row1] ! i)"
        using 1 2(4) True arr by (intro "2.IH"(2) [of row cells row1]) auto
      note ih = this
      have "g ! r = []" using 2(4) True by simp
      then have "length row = nat gX" "row = replicate (nat gX) False" using resize_vec_spec [OF 1(1)] by auto
      then have "length row1 = nat gX" "\<forall>c < nat gX. row1 ! c = doc_cell js cells c"
        using parse_cells_spec [OF 1(3)] by (auto simp: doc_cell_def)
      then have "row_ok js gX (v # rows) 0 row1" using arr 1(2) by (simp add: row_ok_def)
      with ih True show ?thesis by (intro join) (auto split: if_splits)
    qed
  next
    case False
    with 2(3) show ?thesis by simp
  qed
next
  case (1 js gX r g)
  then have "g' = g" by simp
  with 1(2) show ?case by (simp add: row_ok_def)
qed

lemma ParseMapGrid_spec:
  assumes "ParseMapGrid js v [] gX gY = Some (True, g)" and "js_Elements js v = Some rows"
  shows "0 \<le> gY" and "length g = nat gY" and "\<forall>i < nat gY. row_ok js gX rows i (g ! i)"
proof -
  from assms obtain g0 where g0: "resize_vec gY [] [] = Some g0" "parse_rows js gX rows 0 g0 = Some g"
    by (auto simp: ParseMapGrid_def bind_eq_Some_conv split: if_splits)
  then have g0': "0 \<le> gY" "g0 = replicate (nat gY) []"
    using resize_vec_spec [OF g0(1)] by auto
  then show "0 \<le> gY" by simp
  have "\<forall>i. 0 \<le> i \<longrightarrow> i < length g0 \<longrightarrow> g0 ! i = []" using g0' by simp
  from parse_rows_spec [OF g0(2) this] g0'
  show "length g = nat gY" and "\<forall>i < nat gY. row_ok js gX rows i (g ! i)" by auto
qed

lemma ParseMapData_grid:
  assumes run: "ParseMapData js zone0 document map_zero = Some md" and zones: "zones md \<noteq> []"
    and arr: "array_member js document ''mapData'' = Some (Some v)"
  shows "ParseMapGrid js v [] (gridX md) (gridY md) = Some (True, mapGrid md)"
proof -
  from run obtain d1 d2 za ok d3 where
    d1: "set_string_fields js document map_string_fields map_zero = Some d1"
    and d2: "set_int_fields js document map_int_fields d1 = Some d2"
    and za: "array_member js document ''zones'' = Some za"
    and d3: "(case za of None \<Rightarrow> Some (True, d2) | Some v \<Rightarrow> do {
        (ok, zs) \<leftarrow> ParseZones js zone0 v (gridSize d2) (zones d2); Some (ok, d2\<lparr>zones := zs\<rparr>) }) = Some (ok, d3)"
    and rest: "(if \<not> ok then Some d3 else do {
        gridArray \<leftarrow> array_member js document ''mapData'';
        (case gridArray of None \<Rightarrow> Some d3
         | Some v \<Rightarrow> do { (ok, g) \<leftarrow> ParseMapGrid js v (mapGrid d3) (gridX d3) (gridY d3);
             Some (d3\<lparr>mapGrid := g\<rparr>) }) }) = Some md"
    unfolding ParseMapData_def by (auto simp: bind_eq_Some_conv)
  have "mapGrid d1 = []" "zones d1 = []"
    using set_string_fields_keep [OF d1 [unfolded map_string_fields_def], of mapGrid]
      set_string_fields_keep [OF d1 [unfolded map_string_fields_def], of zones]
    by (simp_all add: map_zero_def)
  moreover have "\<forall>(k, f) \<in> set map_int_fields. \<forall>n d. mapGrid (f n d) = mapGrid d"
    "\<forall>(k, f) \<in> set map_int_fields. \<forall>n d. zones (f n d) = zones d"
    by (simp_all add: map_int_fields_def)
  ultimately have 2: "mapGrid d2 = []" "zones d2 = []"
    using set_int_fields_keep [OF d2, of mapGrid] set_int_fields_keep [OF d2, of zones] by auto
  have 3: "mapGrid d3 = []" "ok \<or> zones d3 = []"
    using d3 2 by (auto simp: ParseZones_def bind_eq_Some_conv split: option.splits if_splits)
  have "ok"
  proof (rule ccontr)
    assume "\<not> ok"
    with rest 3(2) zones show False by simp
  qed
  with rest arr 3(1) obtain ok' g where g: "ParseMapGrid js v [] (gridX d3) (gridY d3) = Some (ok', g)"
    "md = d3\<lparr>mapGrid := g\<rparr>" by (auto simp: bind_eq_Some_conv)
  have "js_IsArray js v" using arr by (auto simp: array_member_def bind_eq_Some_conv split: if_splits)
  with g show ?thesis by (auto simp: ParseMapGrid_def bind_eq_Some_conv)
qed

section \<open>Properties\<close>

text \<open>C26: What CanGo answers on a map that was read from a document: on a valid cell it is the
  document's value for that cell, false where the row is too short; a row that the document does
  not have as an array stays empty, and CanGo reads outside it.\<close>

theorem loaded_map_walkable:
  assumes "LoadMapData js zone0 fs filePath map_zero = Some (True, md)" and "zones md \<noteq> []"
    and "js_Parse js (c_str (ReadFileToString fs filePath [])) = Some document"
    and "array_member js document ''mapData'' = Some (Some v)" and "js_Elements js v = Some rows"
    and "g = MakeGridIndex md (Vector2 worldX worldY)" and "IsValidGridIndex md g"
  shows "CanGo md worldX worldY =
    (if nat (gy g) < length rows \<and> js_IsArray js (rows ! nat (gy g))
     then Some (doc_cell js (the (js_Elements js (rows ! nat (gy g)))) (nat (gx g))) else None)"
proof -
  have "ParseMapData js zone0 document map_zero = Some md"
    using assms(1,3) by (auto simp: LoadMapData_def ParseJSONDocument_def Let_def bind_eq_Some_conv split: if_splits)
  from ParseMapData_grid [OF this assms(2,4)]
  have grid: "ParseMapGrid js v [] (gridX md) (gridY md) = Some (True, mapGrid md)" .
  have r: "nat (gy g) < nat (gridY md)" "nat (gx g) < nat (gridX md)"
    using assms(7) by (auto simp: IsValidGridIndex_def)
  have ok: "row_ok js (gridX md) rows (nat (gy g)) (mapGrid md ! nat (gy g))"
    and len: "length (mapGrid md) = nat (gridY md)"
    using ParseMapGrid_spec [OF grid assms(5)] r by auto
  have "CanGo md worldX worldY = map_cell md (gy g) (gx g)"
    using assms(7) by (simp add: CanGo_def Let_def assms(6) [symmetric])
  also have "\<dots> = (if nat (gy g) < length rows \<and> js_IsArray js (rows ! nat (gy g))
     then Some (doc_cell js (the (js_Elements js (rows ! nat (gy g)))) (nat (gx g))) else None)"
    using ok len r by (auto simp: map_cell_def row_ok_def split: if_splits)
  finally show ?thesis .
qed

text \<open>A small document, for an interface to JSON values that are trees.\<close>

datatype demo_json = DInt int | DString string | DArray "demo_json list" | DObject "(string \<times> demo_json) list"

fun demo_find :: "demo_json \<Rightarrow> string \<Rightarrow> demo_json option" where
  "demo_find (DObject kvs) k = map_of kvs k"
| "demo_find _ k = None"

definition demo_document :: demo_json where
  "demo_document = DObject [(''gridSize'', DInt 100), (''gridX'', DInt 2), (''gridY'', DInt 2),
     (''zones'', DArray [DObject [(''zoneType'', DInt 0)]]),
     (''mapData'', DArray [DArray [DInt 1, DInt 0], DInt 7])]"

definition demo_api :: "demo_json json_api" where
  "demo_api = \<lparr>js_Parse = (\<lambda>s. if s = ''{}'' then Some demo_document else None),
     js_HasMember = (\<lambda>v k. demo_find v k \<noteq> None), js_Member = demo_find,
     js_IsInt = (\<lambda>v. case v of DInt _ \<Rightarrow> True | _ \<Rightarrow> False),
     js_IsString = (\<lambda>v. case v of DString _ \<Rightarrow> True | _ \<Rightarrow> False),
     js_IsArray = (\<lambda>v. case v of DArray _ \<Rightarrow> True | _ \<Rightarrow> False),
     js_IsObject = (\<lambda>v. case v of DObject _ \<Rightarrow> True | _ \<Rightarrow> False),
     js_GetInt = (\<lambda>v. case v of DInt n \<Rightarrow> Some n | _ \<Rightarrow> None),
     js_GetString = (\<lambda>v. case v of DString s \<Rightarrow> Some s | _ \<Rightarrow> None),
     js_Elements = (\<lambda>v. case v of DArray vs \<Rightarrow> Some vs | _ \<Rightarrow> None)\<rparr>"

definition demo_zone0 :: zone_info where
  "demo_zone0 = \<lparr>zoneType = 9, worldPos = \<lparr>minX = 0, minY = 0, maxX = 200, maxY = 200\<rparr>,
     zoneGridSize = 0, zoneName = []\<rparr>"

definition demo_map :: map_data where
  "demo_map = map_zero\<lparr>gridSize := 100, gridX := 2, gridY := 2,
     zones := [demo_zone0\<lparr>zoneType := 0, zoneGridSize := 100\<rparr>], mapGrid := [[True, False], []]\<rparr>"

lemma demo_load:
  "LoadMapData demo_api demo_zone0 (\<lambda>_. Some ''{}'') ''m'' map_zero = Some (True, demo_map)"
  by (simp add: LoadMapData_def ReadFileToString_def ParseJSONDocument_def c_str_def demo_api_def
      demo_document_def ParseMapData_def map_string_fields_def map_int_fields_def array_member_def
      ParseZones_def parse_zone_def ParseMapGrid_def resize_vec_def demo_map_def demo_zone0_def
      map_zero_def numeral_2_eq_2)

theorem loaded_map_walkable_witness:
  "CanGo demo_map 50 50 = Some True \<and> CanGo demo_map 150 50 = Some False \<and> CanGo demo_map 50 150 = None"
proof -
  have arr: "array_member demo_api demo_document ''mapData'' = Some (Some (DArray [DArray [DInt 1, DInt 0], DInt 7]))"
    by (simp add: array_member_def demo_api_def demo_document_def)
  have rows: "js_Elements demo_api (DArray [DArray [DInt 1, DInt 0], DInt 7]) = Some [DArray [DInt 1, DInt 0], DInt 7]"
    by (simp add: demo_api_def)
  have parse: "js_Parse demo_api (c_str (ReadFileToString (\<lambda>_. Some ''{}'') ''m'' [])) = Some demo_document"
    by (simp add: demo_api_def ReadFileToString_def c_str_def)
  have zs: "zones demo_map \<noteq> []" by (simp add: demo_map_def)
  note rule = loaded_map_walkable [OF demo_load zs parse arr rows refl]
  have cell: "MakeGridIndex demo_map (Vector2 x y) = GridIndex (if x = 50 then 0 else 1) (if y = 50 then 0 else 1)"
    if "(x, y) \<in> {(50, 50), (150, 50), (50, 150)}" for x y
    using that by (auto simp: MakeGridIndex_def Vector2_def grid_coord_def float_to_int32_def Let_def
        demo_map_def map_zero_def floor_eq_iff)
  have valid: "IsValidGridIndex demo_map (GridIndex a b)" if "a \<in> {0, 1}" "b \<in> {0, 1}" for a b
    using that by (auto simp: IsValidGridIndex_def demo_map_def)
  show ?thesis
    using rule [of 50 50] rule [of 150 50] rule [of 50 150] cell [of 50 50] cell [of 150 50] cell [of 50 150]
      valid [of 0 0] valid [of 1 0] valid [of 0 1]
    by (simp add: doc_cell_def demo_api_def)
qed

end
