(* ===== verification/Game_Server.thy ===== *)
theory Game_Server
  imports World_Laws Map_Loader Game_Client Session_Manager
begin

text \<open>
  GameServer/GameServer.cpp, its packet handlers and the frame thread of WorldManager.cpp: the
  service that the sessions of the server call. The service's own state is the world; its copy of
  the calling session is brought up to date at the start of each call, and the session that the
  call leaves is read back from it.
\<close>

section \<open>Start and shutdown\<close>

definition zone_object :: "map_data \<Rightarrow> zone_info \<Rightarrow> base_zone option" where
  "zone_object md z =
     (if zoneType z = Town then Some \<lparr>zone_class = TownZone, bz_spawnOffset = spawnOffset md, bz_info = z\<rparr>
      else if zoneType z = Pvp then Some \<lparr>zone_class = PvpZone, bz_spawnOffset = 0, bz_info = z\<rparr>
      else if zoneType z = Pve then Some \<lparr>zone_class = PveZone, bz_spawnOffset = 0, bz_info = z\<rparr>
      else if zoneType z = Boss then Some \<lparr>zone_class = BossZone, bz_spawnOffset = 0, bz_info = z\<rparr>
      else None)"

fun InitZones :: "map_data \<Rightarrow> zone_info list \<Rightarrow> (zone_type \<times> base_zone) list \<Rightarrow> (zone_type \<times> base_zone) list" where
  "InitZones md [] m = m"
| "InitZones md (z # zs) m =
     InitZones md zs (case zone_object md z of None \<Rightarrow> m | Some b \<Rightarrow> hm_assign (zoneType z) b m)"

fun InitSectors :: "zone_info list \<Rightarrow> (zone_type \<times> sector) list \<Rightarrow> (zone_type \<times> sector) list" where
  "InitSectors [] m = m"
| "InitSectors (z # zs) m = InitSectors zs (hm_assign (zoneType z) [] m)"

definition world_Init ::
  "'v json_api \<Rightarrow> zone_info \<Rightarrow> file_system \<Rightarrow> world \<Rightarrow> world option" where
  "world_Init js zone0 fs w = do {
     (ok, md) \<leftarrow> LoadMapData js zone0 fs ''Data/MapData.json'' (mapData w);
     assert_crash ok;
     Some (w\<lparr>mapData := md, worldZones := InitZones md (zones md) (worldZones w),
             zoneSectors := InitSectors (zones md) (zoneSectors w)\<rparr>) }"

definition world_Shutdown :: "world \<Rightarrow> world" where
  "world_Shutdown w = w\<lparr>forceDeleteObjs := [], sectorUpdateSet := [], zoneSectors := [], worldZones := []\<rparr>"

definition world_empty :: world where
  "world_empty = \<lparr>mapData = map_zero, worldZones = [], zoneSectors = [], sectorUpdateSet = [],
     forceDeleteObjs = [], objs = [], nextObjectId = 1, playerStats = [], netSessions = [],
     chatJobs = [], outbox = [], worldNow = 0, worldMs = 0, rndSource = (0, 0, 0), parseErrors = []\<rparr>"

definition GameServer_start :: "'v json_api \<Rightarrow> zone_info \<Rightarrow> file_system \<Rightarrow> world option" where
  "GameServer_start js zone0 fs = do {
     w \<leftarrow> world_Init js zone0 fs world_empty;
     st \<leftarrow> stat_Init js fs;
     Some (w\<lparr>playerStats := st\<rparr>) }"

definition GameServer_stop :: "world \<Rightarrow> world" where
  "GameServer_stop w = (world_Shutdown w)\<lparr>playerStats := stat_Shutdown (playerStats w)\<rparr>"

section \<open>The frame thread\<close>

text \<open>UpdatePlayerVisible gets the sessions that SessionManager::GetActiveSessions gives.\<close>

fun UpdatePlayerVisible :: "u64 list \<Rightarrow> world \<Rightarrow> world option" where
  "UpdatePlayerVisible [] w = Some w"
| "UpdatePlayerVisible (sid # sids) w = do {
     s \<leftarrow> map_of (netSessions w) sid;
     (case playerClass s of
        None \<Rightarrow> UpdatePlayerVisible sids w
      | Some oid \<Rightarrow> do {
          p \<leftarrow> find_obj w oid;
          (if \<not> IsValid w p then UpdatePlayerVisible sids w
           else do {
             currentVisible \<leftarrow> GetVisibleObjectsInSectors w (vectorPos p) False;
             w1 \<leftarrow> UpdateVision oid currentVisible w;
             UpdatePlayerVisible sids w1 }) }) }"

text \<open>One frame; objects are freed where the last shared pointer goes.\<close>

definition SectorUpdateWorkerThread :: "u64 list \<Rightarrow> world \<Rightarrow> world option" where
  "SectorUpdateWorkerThread sids w = do {
     w1 \<leftarrow> DeleteObjSector w;
     w2 \<leftarrow> UpdateSector (reclaim w1);
     UpdatePlayerVisible sids (ClearAllEmptySector (reclaim w2)) }"

text \<open>The worker of the social group runs the first chat job and drops it.\<close>

definition chat_turn :: "string \<Rightarrow> world \<Rightarrow> world option" where
  "chat_turn currentTime w =
     (case chatJobs w of
        [] \<Rightarrow> Some w
      | j # js \<Rightarrow> do {
          w1 \<leftarrow> run_chat_job currentTime j w;
          Some (reclaim (w1\<lparr>chatJobs := js\<rparr>)) })"

section \<open>Handlers\<close>

text \<open>Running a function of the world for the session that called.\<close>

definition in_world :: "(world \<Rightarrow> world option) \<Rightarrow> session \<Rightarrow> world \<Rightarrow> (session \<times> world) option" where
  "in_world f s w = do {
     w1 \<leftarrow> f (put_session s w);
     s1 \<leftarrow> map_of (netSessions w1) (sessionID s);
     Some (s1, w1) }"

definition enter_game :: "int \<Rightarrow> u64 \<Rightarrow> world \<Rightarrow> world option" where
  "enter_game ptype sid w = do {
     let (p, w1) = new_player sid ptype (worldNow w) w;
     s \<leftarrow> net_session w1 sid;
     EnterGame (rndSource w) (objectId p) Town (put_session (SetPlayer (objectId p) s) w1) }"

definition Handle_CS_PLAYER_ENTER_GAME :: "session \<Rightarrow> int \<Rightarrow> world \<Rightarrow> (session \<times> world) option" where
  "Handle_CS_PLAYER_ENTER_GAME s packet w = in_world (enter_game packet (sessionID s)) s w"

text \<open>The two handlers that need a valid player.\<close>

definition for_player :: "(u64 \<Rightarrow> world \<Rightarrow> world option) \<Rightarrow> u64 \<Rightarrow> world \<Rightarrow> world option" where
  "for_player f sid w = do {
     s \<leftarrow> map_of (netSessions w) sid;
     (case playerClass s of
        None \<Rightarrow> Some w
      | Some oid \<Rightarrow> do {
          p \<leftarrow> find_obj w oid;
          (if \<not> IsValid w p then Some w else f oid w) }) }"

definition Handle_CS_PLAYER_MOVE :: "session \<Rightarrow> move_packet \<Rightarrow> world \<Rightarrow> (session \<times> world) option" where
  "Handle_CS_PLAYER_MOVE s packet w =
     in_world (for_player (\<lambda>oid w. Move (worldNow w) oid packet w) (sessionID s)) s w"

definition Handle_CS_CHAT_MSG :: "session \<Rightarrow> msg_type \<times> string \<Rightarrow> world \<Rightarrow> (session \<times> world) option" where
  "Handle_CS_CHAT_MSG s packet w =
     in_world (for_player (\<lambda>oid w. ChatMessage oid (fst packet) (snd packet) w) (sessionID s)) s w"

definition Handle_pong :: "session \<Rightarrow> int \<Rightarrow> world \<Rightarrow> (session \<times> world) option" where
  "Handle_pong s packet w = Some (Handle_CS_SYSTEM_PONG (worldMs w) packet s, w)"

section \<open>The service\<close>

record server_messages =
  ser_ping :: "int \<Rightarrow> u8 list"
  parse_pong :: "u8 list \<Rightarrow> bool \<times> int"
  parse_enter :: "u8 list \<Rightarrow> bool \<times> int"
  parse_move :: "u8 list \<Rightarrow> bool \<times> move_packet"
  parse_chat :: "u8 list \<Rightarrow> bool \<times> msg_type \<times> string"

definition log_parse :: "u16 \<Rightarrow> world \<Rightarrow> world" where
  "log_parse len w = w\<lparr>parseErrors := parseErrors w @ [len]\<rparr>"

definition server_handlers :: "server_messages \<Rightarrow> world handlers" where
  "server_handlers m =
     (let t1 = RegisterPacket (parse_pong m) log_parse CS_SYSTEM_PONG Handle_pong no_handlers;
          t2 = RegisterPacket (parse_enter m) log_parse CS_PLAYER_ENTER_GAME Handle_CS_PLAYER_ENTER_GAME t1;
          t3 = RegisterPacket (parse_move m) log_parse CS_PLAYER_MOVE Handle_CS_PLAYER_MOVE t2
      in RegisterPacket (parse_chat m) log_parse CS_CHAT_MSG Handle_CS_CHAT_MSG t3)"

definition server_OnConnected :: "session \<Rightarrow> world \<Rightarrow> (session \<times> world) option" where
  "server_OnConnected s w = Some (s, put_session s w)"

definition server_OnRecv :: "server_messages \<Rightarrow> u8 list \<Rightarrow> session \<Rightarrow> world \<Rightarrow> (session \<times> world) option" where
  "server_OnRecv m buf s w = HandlePacket (server_handlers m) buf (of_nat (length buf)) s w"

definition server_OnSend :: "int \<Rightarrow> session \<Rightarrow> world \<Rightarrow> (session \<times> world) option" where
  "server_OnSend len s w = Some (s, w)"

definition server_service :: "os_calls \<Rightarrow> server_messages \<Rightarrow> world core_service" where
  "server_service os m = \<lparr>OnConnected = server_OnConnected, OnDisconnected = server_OnDisconnected,
     OnRecv = server_OnRecv m, OnSend = server_OnSend,
     OnHeartbeat = server_OnHeartbeat os server_OnDisconnected (\<lambda>w. ser_ping m (worldMs w))\<rparr>"

section \<open>The service meets the contract\<close>

lemma in_world_step:
  assumes "in_world f s w = Some (s', w')" and "\<And>w w'. f w = Some w' \<Longrightarrow> net_step w w'"
  shows "session_step s s'"
proof -
  from assms(1) have "f (put_session s w) = Some w'" "map_of (netSessions w') (sessionID s) = Some s'"
    by (auto simp: in_world_def bind_eq_Some_conv)
  moreover from this(1) have "net_step (put_session s w) w'" by (rule assms(2))
  moreover have "map_of (netSessions (put_session s w)) (sessionID s) = Some s"
    by (simp add: world_simps)
  ultimately show ?thesis unfolding net_step_def by (metis option.inject)
qed

lemma enter_game_net: "enter_game ptype sid w = Some w' \<Longrightarrow> net_step w w'"
proof -
  assume "enter_game ptype sid w = Some w'"
  then obtain p w1 s where n: "new_player sid ptype (worldNow w) w = (p, w1)"
    and s: "map_of (netSessions w1) sid = Some s" "sessionID s = sid"
    and e: "EnterGame (rndSource w) (objectId p) Town (put_session (SetPlayer (objectId p) s) w1) = Some w'"
    by (auto simp: enter_game_def net_session_def bind_eq_Some_conv split: prod.splits option.splits if_splits)
  have "net_step w w1" using n by (intro net_step_same) (auto simp: new_player_def Let_def set_obj_def)
  also have "net_step w1 (put_session (SetPlayer (objectId p) s) w1)"
    using s SetPlayer_step by (intro net_step_put) (simp_all add: SetPlayer_def)
  also have "net_step \<dots> w'" by (rule quiet_net_step [OF EnterGame_quiet [OF e]])
  finally show ?thesis .
qed

lemma for_player_net:
  assumes "for_player f sid w = Some w'" and "\<And>oid w w'. f oid w = Some w' \<Longrightarrow> net_step w w'"
  shows "net_step w w'"
  using assms by (auto simp: for_player_def bind_eq_Some_conv intro: net_step_same
      split: option.splits if_splits)

lemma ChatMessage_net: "ChatMessage oid t msg w = Some w' \<Longrightarrow> net_step w w'"
  by (rule net_step_same)
     (auto simp: ChatMessage_def BroadcastChatAsync_def bind_eq_Some_conv split: msg_type.splits)

lemma pong_step: "session_step s (Handle_CS_SYSTEM_PONG t c s)"
  by (simp add: session_step_def session_inv_def Handle_CS_SYSTEM_PONG_def updateRoundTripTime_def
      IncreasePongCount_def Let_def)

lemma ping_count_step: "session_step s (IncreasePingCount s)"
  by (simp add: session_step_def session_inv_def IncreasePingCount_def)

lemma server_handlers_step:
  assumes "server_handlers m pid = Some f" and "f buf len s w = Some (s', w')"
  shows "session_step s s'"
proof -
  have "session_step s s'" if "in_world (for_player g sid) s w = Some (s', w')"
    and "\<And>oid w w'. g oid w = Some w' \<Longrightarrow> net_step w w'" for g sid w
    using that by (blast intro: in_world_step for_player_net)
  moreover have "session_step s s'" if "in_world (enter_game t sid) s w = Some (s', w')" for t sid w
    using that by (blast intro: in_world_step enter_game_net)
  ultimately show ?thesis
    using assms Move_net ChatMessage_net pong_step
    by (auto simp: server_handlers_def RegisterPacket_def HandlePacketAs_def no_handlers_def Let_def
        Handle_CS_PLAYER_ENTER_GAME_def Handle_CS_PLAYER_MOVE_def Handle_CS_CHAT_MSG_def Handle_pong_def
        split: if_splits prod.splits)
qed

interpretation gs: quiet_service "server_service os m"
proof unfold_locales
  fix s w s' w' p n
  show "OnDisconnected (server_service os m) s w = Some (s', w') \<Longrightarrow> session_step s s'"
    by (simp add: server_service_def sv_disc.disc_step)
  show "OnConnected (server_service os m) s w = Some (s', w') \<Longrightarrow> session_step s s'"
    by (auto simp: server_service_def server_OnConnected_def)
  show "OnRecv (server_service os m) p s w = Some (s', w') \<Longrightarrow> session_step s s'"
    by (auto simp: server_service_def server_OnRecv_def elim!: HandlePacket_cases intro: server_handlers_step)
  show "OnSend (server_service os m) n s w = Some (s', w') \<Longrightarrow> session_step s s'"
    by (simp add: server_service_def server_OnSend_def)
  show "OnHeartbeat (server_service os m) s w = Some (s', w') \<Longrightarrow> session_step s s'"
    by (auto simp: server_service_def server_OnHeartbeat_def bind_eq_Some_conv
        intro: session_step_trans [OF sv_disc.SendPacket_step ping_count_step])
  show "OnSend (server_service os m) n s w = Some (s, w)"
    by (simp add: server_service_def server_OnSend_def)
qed

end
