(* ===== verification/World_Sectors.thy ===== *)
theory World_Sectors
  imports World_Laws
begin

text \<open>
  The sectors as a registry: which cells an object is registered in. The locale registry is the
  interface that the frame thread's UpdateSector uses; moving a batch of objects is proved in it
  once. The model's AddObjectToSector and RemoveObjectToSector interpret it.
\<close>

section \<open>Registries\<close>

fun reg_moves :: "('o \<Rightarrow> 'c \<Rightarrow> 'w \<Rightarrow> 'w option) \<Rightarrow> ('o \<Rightarrow> 'c \<Rightarrow> 'w \<Rightarrow> 'w option) \<Rightarrow>
    ('o \<times> 'c \<times> 'c) list \<Rightarrow> 'w \<Rightarrow> 'w option" where
  "reg_moves del add [] w = Some w"
| "reg_moves del add ((ob, a, b) # ms) w = do { w1 \<leftarrow> del ob a w; w2 \<leftarrow> add ob b w1; reg_moves del add ms w2 }"

locale registry =
  fixes reg :: "'w \<Rightarrow> 'o \<Rightarrow> 'k set"
    and key :: "'c \<Rightarrow> 'k"
    and usable :: "'w \<Rightarrow> 'c \<Rightarrow> bool"
    and add :: "'o \<Rightarrow> 'c \<Rightarrow> 'w \<Rightarrow> 'w option"
    and del :: "'o \<Rightarrow> 'c \<Rightarrow> 'w \<Rightarrow> 'w option"
  assumes add_total: "usable w c \<Longrightarrow> \<exists>w'. add ob c w = Some w'"
    and add_reg: "usable w c \<Longrightarrow> add ob c w = Some w' \<Longrightarrow>
          reg w' x = (if x = ob then insert (key c) (reg w x) else reg w x)"
    and add_usable: "add ob c w = Some w' \<Longrightarrow> usable w' = usable w"
    and del_total: "usable w c \<Longrightarrow> \<exists>w'. del ob c w = Some w'"
    and del_reg: "usable w c \<Longrightarrow> del ob c w = Some w' \<Longrightarrow>
          reg w' x = (if x = ob then reg w x - {key c} else reg w x)"
    and del_usable: "del ob c w = Some w' \<Longrightarrow> usable w' = usable w"
begin

text \<open>An object that is registered in its old cell at most is afterwards in its new cell only.\<close>

lemma move_one:
  assumes "usable w a" and "usable w b"
  shows "\<exists>w1 w2. del ob a w = Some w1 \<and> add ob b w1 = Some w2 \<and> usable w2 = usable w \<and>
    (\<forall>x. reg w2 x = (if x = ob then insert (key b) (reg w x - {key a}) else reg w x))"
proof -
  obtain w1 where w1: "del ob a w = Some w1" using del_total [OF assms(1)] by blast
  then have u: "usable w1 = usable w" by (rule del_usable)
  obtain w2 where w2: "add ob b w1 = Some w2" using add_total [of w1 b] assms(2) u by auto
  have "reg w2 x = (if x = ob then insert (key b) (reg w x - {key a}) else reg w x)" for x
    using add_reg [OF _ w2, of x] del_reg [OF assms(1) w1, of x] assms(2) u by auto
  with w1 w2 u add_usable [OF w2] show ?thesis by auto
qed

lemma moves_registered:
  assumes "distinct (map fst ms)"
    and "\<forall>(ob, a, b) \<in> set ms. usable w a \<and> usable w b \<and> reg w ob \<subseteq> {key a}"
  shows "\<exists>w'. reg_moves del add ms w = Some w' \<and>
    (\<forall>(ob, a, b) \<in> set ms. reg w' ob = {key b}) \<and> (\<forall>x. x \<notin> fst ` set ms \<longrightarrow> reg w' x = reg w x)"
  using assms
proof (induction ms arbitrary: w)
  case (Cons m ms)
  obtain ob a b where m: "m = (ob, a, b)" by (cases m)
  with Cons.prems have ab: "usable w a" "usable w b" "reg w ob \<subseteq> {key a}" "ob \<notin> fst ` set ms" by auto
  obtain w1 w2 where w: "del ob a w = Some w1" "add ob b w1 = Some w2" "usable w2 = usable w"
    "\<And>x. reg w2 x = (if x = ob then insert (key b) (reg w x - {key a}) else reg w x)"
    using move_one [OF ab(1,2), of ob] by blast
  have "\<forall>(ob', a', b') \<in> set ms. usable w2 a' \<and> usable w2 b' \<and> reg w2 ob' \<subseteq> {key a'}"
  proof clarify
    fix ob' a' b' assume in_ms: "(ob', a', b') \<in> set ms"
    then have "ob' \<noteq> ob" using ab(4) by force
    with in_ms Cons.prems(2) w(3,4) show "usable w2 a' \<and> usable w2 b' \<and> reg w2 ob' \<subseteq> {key a'}" by auto
  qed
  moreover have "distinct (map fst ms)" using Cons.prems(1) by simp
  ultimately obtain w' where w': "reg_moves del add ms w2 = Some w'"
    "\<forall>(ob, a, b) \<in> set ms. reg w' ob = {key b}" "\<forall>x. x \<notin> fst ` set ms \<longrightarrow> reg w' x = reg w2 x"
    using Cons.IH by blast
  have "reg w2 ob = {key b}" using w(4) [of ob] ab(3) by auto
  with w' ab(4) have "reg w' ob = {key b}" by simp
  moreover have "\<forall>x. x \<notin> fst ` set (m # ms) \<longrightarrow> reg w' x = reg w x" using w'(3) w(4) m by auto
  ultimately show ?case using w w'(1,2) m by auto
qed simp

end

section \<open>The cells of an object\<close>

definition cells :: "world \<Rightarrow> u64 \<Rightarrow> (zone_type \<times> u64) set" where
  "cells w oid = {(zt, sid). \<exists>s. FindSector w zt = Some s \<and> oid \<in> set (sector_objects s sid)}"

definition cell_key :: "zone_type \<times> grid_index \<Rightarrow> zone_type \<times> u64" where
  "cell_key c = (fst c, SectorId (snd c))"

definition cell_usable :: "world \<Rightarrow> zone_type \<times> grid_index \<Rightarrow> bool" where
  "cell_usable w c \<longleftrightarrow> FindSector w (fst c) \<noteq> None \<and> IsValidGridIndex (mapData w) (snd c)"

text \<open>A step that changes nothing but the sectors, and keeps the zones.\<close>

definition sector_step :: "world \<Rightarrow> world \<Rightarrow> bool" where
  "sector_step w w' \<longleftrightarrow> (\<exists>zs. w' = w\<lparr>zoneSectors := zs\<rparr> \<and> dom (map_of zs) = dom (map_of (zoneSectors w)))"

lemma sector_step_refl [simp]: "sector_step w w"
  unfolding sector_step_def by (rule exI [of _ "zoneSectors w"]) simp

lemma sector_step_trans [trans]: "sector_step w w' \<Longrightarrow> sector_step w' w'' \<Longrightarrow> sector_step w w''"
  unfolding sector_step_def by auto

lemma sector_stepD:
  assumes "sector_step w w'"
  shows "mapData w' = mapData w" "objs w' = objs w" "sectorUpdateSet w' = sectorUpdateSet w"
    "netSessions w' = netSessions w" "chatJobs w' = chatJobs w" "forceDeleteObjs w' = forceDeleteObjs w"
    "find_obj w' oid = find_obj w oid"
  using assms by (auto simp: sector_step_def find_obj_def)

lemma sector_step_zone:
  assumes "sector_step w w'"
  shows "FindSector w' zt = None \<longleftrightarrow> FindSector w zt = None"
proof -
  from assms obtain zs where "w' = w\<lparr>zoneSectors := zs\<rparr>" "dom (map_of zs) = dom (map_of (zoneSectors w))"
    unfolding sector_step_def by blast
  then have "dom (map_of (zoneSectors w')) = dom (map_of (zoneSectors w))" by simp
  then have "zt \<in> dom (map_of (zoneSectors w')) \<longleftrightarrow> zt \<in> dom (map_of (zoneSectors w))" by simp
  then show ?thesis unfolding FindSector_def domIff by blast
qed

lemma sector_step_usable: "sector_step w w' \<Longrightarrow> cell_usable w' = cell_usable w"
  by (rule ext) (simp add: cell_usable_def sector_stepD sector_step_zone)

lemma sector_assign_step:
  "FindSector w zt = Some s \<Longrightarrow> sector_step w (w\<lparr>zoneSectors := hm_assign zt s1 (zoneSectors w)\<rparr>)"
  unfolding sector_step_def by (rule exI [of _ "hm_assign zt s1 (zoneSectors w)"])
     (auto simp: FindSector_def map_of_hm_assign)

lemma AddObjectToSector_step: "AddObjectToSector oid zt g w = Some w' \<Longrightarrow> sector_step w w'"
  by (auto simp: AddObjectToSector_def bind_eq_Some_conv Let_def sector_assign_step split: if_splits)

lemma RemoveObjectToSector_step: "RemoveObjectToSector oid zt g w = Some w' \<Longrightarrow> sector_step w w'"
  by (auto simp: RemoveObjectToSector_def bind_eq_Some_conv Let_def sector_assign_step
      split: if_splits option.splits)

lemma sector_objects_assign [world_simps]:
  "sector_objects (hm_assign sid oids s) sid' = (if sid' = sid then oids else sector_objects s sid')"
  by (simp add: sector_objects_def map_of_hm_assign)

lemma sector_objects_erase [world_simps]:
  "sector_objects (hm_erase sid s) sid' = (if sid' = sid then [] else sector_objects s sid')"
  by (simp add: sector_objects_def map_of_hm_erase)

lemma cells_assign:
  assumes "FindSector w zt = Some s"
  shows "(z, sid) \<in> cells (w\<lparr>zoneSectors := hm_assign zt s1 (zoneSectors w)\<rparr>) x \<longleftrightarrow>
    (if z = zt then x \<in> set (sector_objects s1 sid) else (z, sid) \<in> cells w x)"
  by (simp add: cells_def FindSector_def map_of_hm_assign)

lemma cells_here: "FindSector w zt = Some s \<Longrightarrow> (zt, sid) \<in> cells w x \<longleftrightarrow> x \<in> set (sector_objects s sid)"
  by (simp add: cells_def)

lemma set_set_add [simp]: "set (set_add x xs) = insert x (set xs)"
  by (auto simp: set_add_def)

lemma Add_cells:
  assumes "cell_usable w (zt, g)" and "AddObjectToSector oid zt g w = Some w'"
  shows "cells w' x = (if x = oid then insert (zt, SectorId g) (cells w x) else cells w x)"
proof -
  obtain s where s: "FindSector w zt = Some s" using assms(1) by (auto simp: cell_usable_def)
  let ?s1 = "hm_assign (SectorId g) (set_add oid (sector_objects s (SectorId g))) s"
  have "w' = w\<lparr>zoneSectors := hm_assign zt ?s1 (zoneSectors w)\<rparr>"
    using assms s by (simp add: AddObjectToSector_def Let_def cell_usable_def)
  then have "c \<in> cells w' x \<longleftrightarrow> c \<in> (if x = oid then insert (zt, SectorId g) (cells w x) else cells w x)" for c
    by (cases c) (auto simp: cells_assign [OF s] cells_here [OF s] world_simps)
  then show ?thesis by blast
qed

lemma Remove_cells:
  assumes "cell_usable w (zt, g)" and "RemoveObjectToSector oid zt g w = Some w'"
  shows "cells w' x = (if x = oid then cells w x - {(zt, SectorId g)} else cells w x)"
proof -
  obtain s where s: "FindSector w zt = Some s" using assms(1) by (auto simp: cell_usable_def)
  show ?thesis
  proof (cases "map_of s (SectorId g)")
    case None
    then have "(zt, SectorId g) \<notin> cells w x" using s by (auto simp: cells_def sector_objects_def)
    moreover have "w' = w" using assms s None by (simp add: RemoveObjectToSector_def cell_usable_def)
    ultimately show ?thesis by auto
  next
    case (Some oids)
    let ?oids1 = "removeAll oid oids"
    let ?s1 = "if ?oids1 = [] then hm_erase (SectorId g) s else hm_assign (SectorId g) ?oids1 s"
    have so: "sector_objects s (SectorId g) = oids" using Some by (simp add: sector_objects_def)
    have s1: "sector_objects ?s1 sid = (if sid = SectorId g then ?oids1 else sector_objects s sid)" for sid
      by (simp add: world_simps)
    have "w' = w\<lparr>zoneSectors := hm_assign zt ?s1 (zoneSectors w)\<rparr>"
      using assms s Some by (simp add: RemoveObjectToSector_def Let_def cell_usable_def)
    then have "(z, sid) \<in> cells w' x \<longleftrightarrow> (if z = zt then x \<in> set (if sid = SectorId g then ?oids1 else sector_objects s sid)
        else (z, sid) \<in> cells w x)" for z sid by (simp only: cells_assign [OF s] s1)
    then have "c \<in> cells w' x \<longleftrightarrow> c \<in> (if x = oid then cells w x - {(zt, SectorId g)} else cells w x)" for c
      by (cases c) (auto simp: cells_here [OF s] so)
    then show ?thesis by blast
  qed
qed

interpretation rg: registry cells cell_key cell_usable
  "\<lambda>oid c. AddObjectToSector oid (fst c) (snd c)" "\<lambda>oid c. RemoveObjectToSector oid (fst c) (snd c)"
proof unfold_locales
  fix w c ob w' x
  show "cell_usable w c \<Longrightarrow> \<exists>w'. AddObjectToSector ob (fst c) (snd c) w = Some w'"
    by (auto simp: cell_usable_def AddObjectToSector_def Let_def)
  show "cell_usable w c \<Longrightarrow> \<exists>w'. RemoveObjectToSector ob (fst c) (snd c) w = Some w'"
    by (auto simp: cell_usable_def RemoveObjectToSector_def Let_def split: option.split)
  show "cell_usable w c \<Longrightarrow> AddObjectToSector ob (fst c) (snd c) w = Some w' \<Longrightarrow>
      cells w' x = (if x = ob then insert (cell_key c) (cells w x) else cells w x)"
    using Add_cells [of w "fst c" "snd c" ob w' x] by (simp add: cell_key_def)
  show "cell_usable w c \<Longrightarrow> RemoveObjectToSector ob (fst c) (snd c) w = Some w' \<Longrightarrow>
      cells w' x = (if x = ob then cells w x - {cell_key c} else cells w x)"
    using Remove_cells [of w "fst c" "snd c" ob w' x] by (simp add: cell_key_def)
qed (auto intro!: sector_step_usable dest: AddObjectToSector_step RemoveObjectToSector_step)


section \<open>UpdateSector is a batch of moves\<close>

definition prev_cell :: "player \<Rightarrow> zone_type \<times> grid_index" where
  "prev_cell p = (prevZoneType p, prevGridIndex p)"

definition cur_cell :: "player \<Rightarrow> zone_type \<times> grid_index" where
  "cur_cell p = (objZone p, gridIndex p)"

abbreviation reg_add :: "u64 \<Rightarrow> zone_type \<times> grid_index \<Rightarrow> world \<Rightarrow> world option" where
  "reg_add oid c \<equiv> AddObjectToSector oid (fst c) (snd c)"

abbreviation reg_del :: "u64 \<Rightarrow> zone_type \<times> grid_index \<Rightarrow> world \<Rightarrow> world option" where
  "reg_del oid c \<equiv> RemoveObjectToSector oid (fst c) (snd c)"

abbreviation obj_move :: "world \<Rightarrow> u64 \<Rightarrow> u64 \<times> (zone_type \<times> grid_index) \<times> zone_type \<times> grid_index" where
  "obj_move w oid \<equiv> (oid, prev_cell (the (find_obj w oid)), cur_cell (the (find_obj w oid)))"

lemma needs_update_cells: "needs_update p \<longleftrightarrow> prev_cell p \<noteq> cur_cell p"
  by (auto simp: needs_update_def prev_cell_def cur_cell_def)

lemma update_objs_moves:
  assumes "\<forall>oid \<in> set oids. oid \<in> alive w" and "\<forall>oid. find_obj w' oid = find_obj w oid"
  shows "update_objs oids w' = reg_moves reg_del reg_add (map (obj_move w) oids) w'"
  using assms
proof (induction oids arbitrary: w')
  case (Cons oid oids)
  from Cons.prems obtain p where p: "find_obj w oid = Some p" by (auto simp: alive_iff)
  have ih: "update_objs oids w'' = reg_moves reg_del reg_add (map (obj_move w) oids) w''"
    if "\<forall>oid. find_obj w'' oid = find_obj w oid" for w''
    using that Cons.prems(1) by (intro Cons.IH) auto
  have keep: "\<forall>x. find_obj w2 x = find_obj w x"
    if "reg_del oid (prev_cell p) w' = Some w1" "reg_add oid (cur_cell p) w1 = Some w2" for w1 w2
    using RemoveObjectToSector_step [OF that(1)] AddObjectToSector_step [OF that(2)] Cons.prems(2)
    by (metis sector_stepD(7))
  have "update_objs (oid # oids) w' = Option.bind (reg_del oid (prev_cell p) w') (\<lambda>w1.
      Option.bind (reg_add oid (cur_cell p) w1) (update_objs oids))"
    using Cons.prems(2) p by (simp add: prev_cell_def cur_cell_def)
  also have "\<dots> = Option.bind (reg_del oid (prev_cell p) w') (\<lambda>w1.
      Option.bind (reg_add oid (cur_cell p) w1) (reg_moves reg_del reg_add (map (obj_move w) oids)))"
    using ih keep by (auto split: bind_splits)
  finally show ?case using p by simp
qed simp

lemma moved_objs_filter:
  "\<forall>oid \<in> set oids. oid \<in> alive w \<Longrightarrow>
    moved_objs w oids = Some (filter (\<lambda>oid. needs_update (the (find_obj w oid))) oids)"
  by (induction oids) (auto simp: alive_iff)

lemma cells_pending [simp]: "cells (w\<lparr>sectorUpdateSet := us\<rparr>) x = cells w x"
  by (simp add: cells_def FindSector_def)

lemma usable_pending [simp]: "cell_usable (w\<lparr>sectorUpdateSet := us\<rparr>) c = cell_usable w c"
  by (simp add: cell_usable_def FindSector_def)

text \<open>
  Every object is registered in one cell at most: its previous cell while an update is pending,
  its current cell otherwise.
\<close>

definition tracked :: "world \<Rightarrow> bool" where
  "tracked w \<longleftrightarrow> distinct (sectorUpdateSet w) \<and> set (sectorUpdateSet w) \<subseteq> alive w \<and>
     (\<forall>oid p. find_obj w oid = Some p \<longrightarrow>
        cell_usable w (prev_cell p) \<and> cell_usable w (cur_cell p) \<and>
        cells w oid \<subseteq> {cell_key (if oid \<in> set (sectorUpdateSet w) then prev_cell p else cur_cell p)})"

lemma moves_step:
  assumes "reg_moves reg_del reg_add ms w = Some w'"
  shows "sector_step w w'"
  using assms
proof (induction ms arbitrary: w)
  case (Cons m ms)
  obtain ob a b where m: "m = (ob, a, b)" by (cases m)
  with Cons.prems obtain w1 w2 where w: "reg_del ob a w = Some w1" "reg_add ob b w1 = Some w2"
    "reg_moves reg_del reg_add ms w2 = Some w'"
    by (auto simp: bind_eq_Some_conv)
  have "sector_step w w1" by (rule RemoveObjectToSector_step [OF w(1)])
  also have "sector_step w1 w2" by (rule AddObjectToSector_step [OF w(2)])
  also have "sector_step w2 w'" by (rule Cons.IH [OF w(3)])
  finally show ?case .
qed simp

text \<open>UpdateSector when every pending object that moved is registered in its previous cell at most.\<close>

lemma UpdateSector_moves:
  assumes dist: "distinct (sectorUpdateSet w)" and live: "set (sectorUpdateSet w) \<subseteq> alive w"
    and moved: "\<forall>oid \<in> set (sectorUpdateSet w). \<forall>p. find_obj w oid = Some p \<longrightarrow> needs_update p \<longrightarrow>
      cell_usable w (prev_cell p) \<and> cell_usable w (cur_cell p) \<and> cells w oid \<subseteq> {cell_key (prev_cell p)}"
  shows "\<exists>w'. UpdateSector w = Some w' \<and> sector_step (w\<lparr>sectorUpdateSet := []\<rparr>) w' \<and>
    (\<forall>oid p. find_obj w oid = Some p \<longrightarrow> cells w' oid =
       (if oid \<in> set (sectorUpdateSet w) \<and> needs_update p then {cell_key (cur_cell p)} else cells w oid))"
proof -
  let ?w = "w\<lparr>sectorUpdateSet := []\<rparr>"
  let ?oids = "filter (\<lambda>oid. needs_update (the (find_obj w oid))) (sectorUpdateSet w)"
  let ?ms = "map (obj_move w) ?oids"
  have sub: "\<forall>oid \<in> set (sectorUpdateSet w). oid \<in> alive w" "\<forall>oid \<in> set ?oids. oid \<in> alive w"
    using live by auto
  have same: "\<forall>oid. find_obj ?w oid = find_obj w oid" by (simp add: find_obj_def)
  have fsts: "map fst ?ms = ?oids" by (simp add: map_idI)
  have "\<exists>w'. reg_moves reg_del reg_add ?ms ?w = Some w' \<and>
      (\<forall>(ob, a, b) \<in> set ?ms. cells w' ob = {cell_key b}) \<and> (\<forall>x. x \<notin> fst ` set ?ms \<longrightarrow> cells w' x = cells ?w x)"
  proof (rule rg.moves_registered)
    show "distinct (map fst ?ms)" unfolding fsts using dist by simp
    show "\<forall>(ob, a, b) \<in> set ?ms. cell_usable ?w a \<and> cell_usable ?w b \<and> cells ?w ob \<subseteq> {cell_key a}"
    proof clarify
      fix ob a a' b b' assume "(ob, (a, a'), (b, b')) \<in> set ?ms"
      then have ob: "ob \<in> set (sectorUpdateSet w)" "needs_update (the (find_obj w ob))"
        "(a, a') = prev_cell (the (find_obj w ob))" "(b, b') = cur_cell (the (find_obj w ob))" by auto
      have "ob \<in> alive w" using live ob(1) by blast
      then obtain p where p: "find_obj w ob = Some p" unfolding alive_iff by blast
      have "cell_usable w (prev_cell p) \<and> cell_usable w (cur_cell p) \<and> cells w ob \<subseteq> {cell_key (prev_cell p)}"
        using moved ob(1,2) p by simp
      then show "cell_usable ?w (a, a') \<and> cell_usable ?w (b, b') \<and> cells ?w ob \<subseteq> {cell_key (a, a')}"
        using ob(3,4) p by simp
    qed
  qed
  then obtain w' where w': "reg_moves reg_del reg_add ?ms ?w = Some w'"
    "\<forall>(ob, a, b) \<in> set ?ms. cells w' ob = {cell_key b}" "\<forall>x. x \<notin> fst ` set ?ms \<longrightarrow> cells w' x = cells w x"
    by auto
  have "UpdateSector w = Some w'"
    using w'(1) update_objs_moves [OF sub(2) same]
    by (simp add: UpdateSector_def moved_objs_filter [OF sub(1)])
  moreover have "sector_step ?w w'" by (rule moves_step [OF w'(1)])
  moreover have "cells w' oid =
      (if oid \<in> set (sectorUpdateSet w) \<and> needs_update p then {cell_key (cur_cell p)} else cells w oid)"
    if "find_obj w oid = Some p" for oid p
    using w'(2,3) that by (force simp: image_iff)
  ultimately show ?thesis by blast
qed

end
