(* ===== verification/World_Ticks.thy ===== *)
theory World_Ticks
  imports World_Sectors Game_Server
begin

text \<open>
  The sectors over time: how moves, frames and disconnects change where objects are registered,
  and which objects are freed.
\<close>

section \<open>A small world\<close>

text \<open>One zone of 60 x 60 cells of 100 units, which is 3 x 3 sectors; one player with a session.\<close>

definition small_map :: map_data where
  "small_map = map_zero\<lparr>gridSize := 100, gridX := 60, gridY := 60, worldMaxX := 6000, worldMaxY := 6000,
     zones := [\<lparr>zoneType = Town, worldPos = \<lparr>minX = 0, minY = 0, maxX = 6000, maxY = 6000\<rparr>,
                zoneGridSize = 100, zoneName = ''Town''\<rparr>],
     mapGrid := replicate 60 (replicate 60 True)\<rparr>"

definition small_player :: player where
  "small_player = (Player 1 7 0 0)\<lparr>isEntered := True, vectorPos := Vector2 50 50, obj_pos := PosInfo 50 50 0 0,
     statInfo := stat_zero\<lparr>moveSpeed := 300\<rparr>\<rparr>"

definition small_session :: session where
  "small_session = SetPlayer 1 (PreInit 9 0 (Session 7 0))"

definition small_world :: world where
  "small_world = world_empty\<lparr>mapData := small_map,
     worldZones := InitZones small_map (zones small_map) [],
     zoneSectors := [(Town, [(0, [1])])], objs := [(1, small_player)], nextObjectId := 2,
     netSessions := [(7, small_session)]\<rparr>"

lemma small_coord [simp]:
  "grid_coord 50 0 100 = 0" "grid_coord 2550 0 100 = 25" "grid_coord 4550 0 100 = 45"
  by (simp_all add: grid_coord_def float_to_int32_def floor_eq_iff)

lemma small_fields [simp]:
  "mapData small_world = small_map" "sectorUpdateSet small_world = []" "forceDeleteObjs small_world = []"
  "chatJobs small_world = []" "objs small_world = [(1, small_player)]" "find_obj small_world 1 = Some small_player"
  "netSessions small_world = [(7, small_session)]" "zoneSectors small_world = [(Town, [(0, [1])])]"
  by (simp_all add: small_world_def find_obj_def world_empty_def)

lemma small_map_fields [simp]:
  "gridSize small_map = 100" "gridX small_map = 60" "gridY small_map = 60" "worldMinX small_map = 0"
  "worldMinY small_map = 0" "worldMaxX small_map = 6000" "worldMaxY small_map = 6000"
  by (simp_all add: small_map_def map_zero_def)

lemma small_player_fields [simp]:
  "objectId small_player = 1" "gridIndex small_player = GridIndex 0 0" "objZone small_player = Town"
  "prevGridIndex small_player = GridIndex 0 0" "prevZoneType small_player = Town"
  "pl_session small_player = Some 7" "isValid small_player" "isEntered small_player"
  "visibleObjects small_player = []" "obj_pos small_player = PosInfo 50 50 0 0"
  "vectorPos small_player = Vector2 50 50" "lastMoveTime small_player = 0"
  "moveSpeed (statInfo small_player) = 300" "objectType small_player = OBJECT_TYPE_PLAYER"
  by (simp_all add: small_player_def Player_def GameObject_def game_object.defs player.defs)

lemma small_zone [simp]: "GetZoneByPosition small_map v = Town"
  by (simp add: GetZoneByPosition_def small_map_def Town_def)

lemma small_sector_id [simp]:
  "SectorId (GridIndex 0 0) = 0" "SectorId (GridIndex 25 0) = 0x100000000" "SectorId (GridIndex 45 0) = 0x200000000"
  by (simp_all add: SectorId_def sector_id_def SECTOR_SIZE_def push_bit_eq_mult)

lemma small_cells: "cells small_world oid = (if oid = 1 then {(Town, 0)} else {})"
  by (auto simp: cells_def FindSector_def sector_objects_def split: if_splits option.splits)

lemma small_heap [simp]: "heap_ok small_world" "alive small_world = {1}"
  by (simp_all add: heap_ok_def alive_def)

lemma small_usable: "cell_usable small_world (Town, g) \<longleftrightarrow> IsValidGridIndex small_map g"
  by (simp add: cell_usable_def FindSector_def)

lemma small_tracked: "tracked small_world"
  by (auto simp: tracked_def small_cells find_obj_def prev_cell_def cur_cell_def small_usable
      IsValidGridIndex_def cell_key_def)

section \<open>Moves and frames\<close>

lemma cells_fields [simp]:
  "cells (set_obj p w) x = cells w x" "cells (RequestSectorUpdate oid w) x = cells w x"
  "cells (put_session s w) x = cells w x" "cells (w\<lparr>objs := os\<rparr>) x = cells w x"
  "cells (w\<lparr>forceDeleteObjs := ds\<rparr>) x = cells w x" "cells (w\<lparr>outbox := out\<rparr>) x = cells w x"
  by (simp_all add: cells_def FindSector_def set_obj_def RequestSectorUpdate_def put_session_def)

lemma usable_fields [simp]:
  "cell_usable (set_obj p w) c = cell_usable w c" "cell_usable (RequestSectorUpdate oid w) c = cell_usable w c"
  "cell_usable (put_session s w) c = cell_usable w c" "cell_usable (w\<lparr>objs := os\<rparr>) c = cell_usable w c"
  "cell_usable (w\<lparr>forceDeleteObjs := ds\<rparr>) c = cell_usable w c" "cell_usable (w\<lparr>outbox := out\<rparr>) c = cell_usable w c"
  by (simp_all add: cell_usable_def FindSector_def set_obj_def RequestSectorUpdate_def put_session_def)

text \<open>The cell of a position.\<close>

definition pos_cell :: "world \<Rightarrow> pos_info \<Rightarrow> zone_type \<times> grid_index" where
  "pos_cell w posInfo = (let v = UpdatePosition posInfo (Vector2 0 0) in
     (GetZoneByPosition (mapData w) v, MakeGridIndex (mapData w) v))"

text \<open>What SetWorldPosition does to the object, to the requests and to everything else.\<close>

lemma SetWorldPosition_spec:
  assumes "objectId p = oid"
  shows "\<exists>p'. find_obj (SetWorldPosition_pos posInfo p w) oid = Some p' \<and> objectId p' = oid \<and>
      prev_cell p' = cur_cell p \<and> cur_cell p' = pos_cell w posInfo \<and> obj_pos p' = posInfo \<and>
      pl_session p' = pl_session p \<and> visibleObjects p' = visibleObjects p \<and> isEntered p' = isEntered p \<and>
      isValid p' = isValid p \<and> lastMoveTime p' = lastMoveTime p \<and> statInfo p' = statInfo p \<and>
      objectType p' = objectType p" (is ?obj)
    and "sectorUpdateSet (SetWorldPosition_pos posInfo p w) =
      (if cur_cell p = pos_cell w posInfo then sectorUpdateSet w else set_add oid (sectorUpdateSet w))" (is ?set)
    and "x \<noteq> oid \<Longrightarrow> find_obj (SetWorldPosition_pos posInfo p w) x = find_obj w x"
    and "alive (SetWorldPosition_pos posInfo p w) = insert oid (alive w)"
    and "cells (SetWorldPosition_pos posInfo p w) x = cells w x"
    and "cell_usable (SetWorldPosition_pos posInfo p w) c = cell_usable w c"
    and "mapData (SetWorldPosition_pos posInfo p w) = mapData w"
proof -
  let ?v = "UpdatePosition posInfo (Vector2 0 0)"
  let ?p1 = "p\<lparr>prevZoneType := objZone p, prevGridIndex := gridIndex p, vectorPos := ?v, obj_pos := posInfo,
      objZone := GetZoneByPosition (mapData w) ?v, gridIndex := MakeGridIndex (mapData w) ?v\<rparr>"
  have eq: "SetWorldPosition_pos posInfo p w = (if cur_cell p = pos_cell w posInfo then set_obj ?p1 w
      else RequestSectorUpdate oid (set_obj ?p1 w))"
    using assms by (auto simp: SetWorldPosition_pos_def SetWorldPosition2_def Let_def cur_cell_def pos_cell_def)
  have find: "find_obj (SetWorldPosition_pos posInfo p w) y = (if y = oid then Some ?p1 else find_obj w y)" for y
    unfolding eq using assms by (simp add: find_obj_def RequestSectorUpdate_def set_obj_def map_of_hm_assign)
  then show ?obj using assms by (simp add: prev_cell_def cur_cell_def pos_cell_def Let_def)
  show ?set unfolding eq by (simp add: RequestSectorUpdate_def set_obj_def)
  show "x \<noteq> oid \<Longrightarrow> find_obj (SetWorldPosition_pos posInfo p w) x = find_obj w x" by (simp add: find)
  show "alive (SetWorldPosition_pos posInfo p w) = insert oid (alive w)"
    unfolding eq using assms by (simp add: alive_def RequestSectorUpdate_def set_obj_def map_of_hm_assign)
  show "cells (SetWorldPosition_pos posInfo p w) x = cells w x" unfolding eq by simp
  show "cell_usable (SetWorldPosition_pos posInfo p w) c = cell_usable w c" unfolding eq by simp
  show "mapData (SetWorldPosition_pos posInfo p w) = mapData w" unfolding eq
    by (simp add: RequestSectorUpdate_def set_obj_def)
qed

lemma distinct_set_add [simp]: "distinct xs \<Longrightarrow> distinct (set_add x xs)"
  by (simp add: set_add_def)

lemma trackedD:
  assumes "tracked w" and "find_obj w oid = Some p"
  shows "cell_usable w (prev_cell p)" "cell_usable w (cur_cell p)"
    "cells w oid \<subseteq> {cell_key (if oid \<in> set (sectorUpdateSet w) then prev_cell p else cur_cell p)}"
  using assms unfolding tracked_def by blast+

lemma move_tracked:
  assumes w: "heap_ok w" "tracked w" and p: "find_obj w oid = Some p" and new: "oid \<notin> set (sectorUpdateSet w)"
    and ok: "cell_usable w (pos_cell w posInfo)"
  shows "tracked (SetWorldPosition_pos posInfo p w)"
proof -
  have id: "objectId p = oid" by (rule find_objectId [OF w(1) p])
  note spec = SetWorldPosition_spec [OF id, where posInfo = posInfo and w = w]
  let ?w = "SetWorldPosition_pos posInfo p w"
  obtain p' :: player where p': "find_obj ?w oid = Some p'" "prev_cell p' = cur_cell p" "cur_cell p' = pos_cell w posInfo"
    using spec(1) by blast
  have here: "cell_usable ?w (prev_cell p') \<and> cell_usable ?w (cur_cell p') \<and>
      cells ?w oid \<subseteq> {cell_key (if oid \<in> set (sectorUpdateSet ?w) then prev_cell p' else cur_cell p')}"
  proof (cases "cur_cell p = pos_cell w posInfo")
    case True
    with trackedD [OF w(2) p] new ok show ?thesis by (simp add: p' spec(2,5,6))
  next
    case False
    with trackedD [OF w(2) p] new ok show ?thesis by (simp add: p' spec(2,5,6) set_add_def)
  qed
  have there: "cell_usable ?w (prev_cell q) \<and> cell_usable ?w (cur_cell q) \<and>
      cells ?w x \<subseteq> {cell_key (if x \<in> set (sectorUpdateSet ?w) then prev_cell q else cur_cell q)}"
    if "x \<noteq> oid" "find_obj w x = Some q" for x q
    using trackedD [OF w(2) that(2)] that(1) by (simp add: spec(2,5,6) set_add_def split: if_splits)
  have "distinct (sectorUpdateSet ?w)" "set (sectorUpdateSet ?w) \<subseteq> alive ?w"
    using w(2) unfolding spec(2,4) by (auto simp: tracked_def)
  moreover have "cell_usable ?w (prev_cell q) \<and> cell_usable ?w (cur_cell q) \<and>
      cells ?w x \<subseteq> {cell_key (if x \<in> set (sectorUpdateSet ?w) then prev_cell q else cur_cell q)}"
    if "find_obj ?w x = Some q" for x q
    using that here there p'(1) spec(3) by (cases "x = oid") auto
  ultimately show ?thesis unfolding tracked_def by blast
qed

lemma UpdateSector_tracked:
  assumes "tracked w"
  shows "\<exists>w'. UpdateSector w = Some w' \<and> tracked w' \<and> sectorUpdateSet w' = [] \<and> objs w' = objs w \<and>
    (\<forall>oid p. find_obj w oid = Some p \<longrightarrow> cells w' oid =
       (if oid \<in> set (sectorUpdateSet w) \<and> needs_update p then {cell_key (cur_cell p)} else cells w oid))"
proof -
  have 1: "distinct (sectorUpdateSet w)" "set (sectorUpdateSet w) \<subseteq> alive w"
    using assms by (simp_all add: tracked_def)
  have "\<forall>oid \<in> set (sectorUpdateSet w). \<forall>p. find_obj w oid = Some p \<longrightarrow> needs_update p \<longrightarrow>
      cell_usable w (prev_cell p) \<and> cell_usable w (cur_cell p) \<and> cells w oid \<subseteq> {cell_key (prev_cell p)}"
  proof (intro ballI allI impI)
    fix oid and p :: player
    assume "oid \<in> set (sectorUpdateSet w)" "find_obj w oid = Some p"
    with trackedD [OF assms this(2)] show "cell_usable w (prev_cell p) \<and> cell_usable w (cur_cell p) \<and>
        cells w oid \<subseteq> {cell_key (prev_cell p)}" by simp
  qed
  from UpdateSector_moves [OF 1 this] obtain w' where w': "UpdateSector w = Some w'"
    "sector_step (w\<lparr>sectorUpdateSet := []\<rparr>) w'"
    "\<And>oid p. find_obj w oid = Some p \<Longrightarrow> cells w' oid =
       (if oid \<in> set (sectorUpdateSet w) \<and> needs_update p then {cell_key (cur_cell p)} else cells w oid)"
    by blast
  have frame: "sectorUpdateSet w' = []" "objs w' = objs w" "cell_usable w' = cell_usable w"
    using sector_stepD(2,3) [OF w'(2)] sector_step_usable [OF w'(2)] by (simp_all add: fun_eq_iff)
  have find: "find_obj w' x = find_obj w x" for x by (simp add: find_obj_def frame(2))
  have "cell_usable w' (prev_cell p) \<and> cell_usable w' (cur_cell p) \<and> cells w' oid \<subseteq> {cell_key (cur_cell p)}"
    if "find_obj w oid = Some p" for oid p
    using trackedD [OF assms that] needs_update_cells [of p]
    by (auto simp: w'(3) [OF that] frame(3) split: if_splits)
  then have "tracked w'" unfolding tracked_def by (simp add: frame(1) find)
  with w'(1,3) frame(1,2) show ?thesis by blast
qed



section \<open>Two moves between two frames\<close>

text \<open>UpdateSector when one object is pending.\<close>

lemma UpdateSector_one:
  assumes "sectorUpdateSet w = [oid]" and "find_obj w oid = Some p"
    and "needs_update p \<Longrightarrow> cell_usable w (prev_cell p) \<and> cell_usable w (cur_cell p)"
  shows "\<exists>w'. UpdateSector w = Some w' \<and> sector_step (w\<lparr>sectorUpdateSet := []\<rparr>) w' \<and>
    cells w' oid = (if needs_update p then insert (cell_key (cur_cell p)) (cells w oid - {cell_key (prev_cell p)})
                    else cells w oid)"
proof (cases "needs_update p")
  case False
  with assms show ?thesis by (simp add: UpdateSector_def)
next
  case True
  let ?w = "w\<lparr>sectorUpdateSet := []\<rparr>"
  obtain w1 w2 where w2: "reg_del oid (prev_cell p) ?w = Some w1" "reg_add oid (cur_cell p) w1 = Some w2"
    "\<forall>x. cells w2 x = (if x = oid then insert (cell_key (cur_cell p)) (cells ?w x - {cell_key (prev_cell p)}) else cells ?w x)"
    using rg.move_one [of ?w "prev_cell p" "cur_cell p" oid] assms(3) True by auto
  have "find_obj ?w oid = Some p" using assms(2) by (simp add: find_obj_def)
  with w2(1,2) have "UpdateSector w = Some w2"
    using assms(1,2) True by (simp add: UpdateSector_def prev_cell_def cur_cell_def)
  moreover have "sector_step ?w w2"
    using RemoveObjectToSector_step [OF w2(1)] AddObjectToSector_step [OF w2(2)] by (rule sector_step_trans)
  ultimately show ?thesis using w2(3) True by simp
qed

text \<open>Two position changes of an object between two frames lose the cell it is registered in:
  each call overwrites the previous cell. After the next frame the object is still registered in
  the old sector; when the second change stays in the cell of the first, it is not registered in
  its new one at all.\<close>

theorem two_moves_stale:
  assumes "heap_ok w" and "find_obj w oid = Some p" and "sectorUpdateSet w = []"
    and "cells w oid = {cell_key (cur_cell p)}"
    and "cell_usable w (pos_cell w pos1)" and "cell_usable w (pos_cell w pos2)"
    and "cell_key (pos_cell w pos1) \<noteq> cell_key (cur_cell p)"
    and "w1 = SetWorldPosition_pos pos1 p w" and "find_obj w1 oid = Some p1"
    and "w2 = SetWorldPosition_pos pos2 p1 w1"
  shows "\<exists>w3. UpdateSector w2 = Some w3 \<and> cells w3 oid =
    (if pos_cell w pos2 = pos_cell w pos1 then {cell_key (cur_cell p)}
     else {cell_key (cur_cell p), cell_key (pos_cell w pos2)})"
proof -
  have id: "objectId p = oid" by (rule find_objectId [OF assms(1,2)])
  note spec = SetWorldPosition_spec [OF id, where posInfo = pos1 and w = w, folded assms(8)]
  have p1: "objectId p1 = oid" "prev_cell p1 = cur_cell p" "cur_cell p1 = pos_cell w pos1"
    using spec(1) assms(9) by auto
  have pos: "pos_cell w1 pos2 = pos_cell w pos2" by (simp add: pos_cell_def spec(7))
  note spec2 = SetWorldPosition_spec [OF p1(1), where posInfo = pos2 and w = w1, folded assms(10), unfolded pos]
  have pend1: "sectorUpdateSet w1 = [oid]" using assms(3,7) by (auto simp: spec(2) set_add_def)
  then have pend: "sectorUpdateSet w2 = [oid]" by (simp add: spec2(2) set_add_def)
  obtain p2 :: player where p2: "find_obj w2 oid = Some p2" "prev_cell p2 = pos_cell w pos1" "cur_cell p2 = pos_cell w pos2"
    using spec2(1) p1(3) by auto
  have us: "cell_usable w2 c = cell_usable w c" for c by (simp only: spec2(6) spec(6))
  have "cells w2 oid = {cell_key (cur_cell p)}" using assms(4) by (simp only: spec2(5) spec(5))
  with UpdateSector_one [OF pend p2(1)] show ?thesis
    using assms(5,6,7) by (auto simp: p2(2,3) us needs_update_cells)
qed

lemma two_moves_stale_witness:
  "\<exists>w1 w2 w3 p1. w1 = SetWorldPosition_pos (PosInfo 2550 50 0 0) small_player small_world \<and>
     find_obj w1 1 = Some p1 \<and> w2 = SetWorldPosition_pos (PosInfo 4550 50 0 0) p1 w1 \<and>
     UpdateSector w2 = Some w3 \<and> cells w3 1 = {(Town, 0), (Town, 0x200000000)}"
proof -
  have cell: "pos_cell small_world (PosInfo x 50 0 0) = (Town, GridIndex (grid_coord x 0 100) 0)" for x
    by (simp add: pos_cell_def UpdatePosition_def MakeGridIndex_def Let_def)
  obtain p1 :: player where p1: "find_obj (SetWorldPosition_pos (PosInfo 2550 50 0 0) small_player small_world) 1 = Some p1"
    using SetWorldPosition_spec(1) [OF small_player_fields(1)] by blast
  have "\<exists>w3. UpdateSector (SetWorldPosition_pos (PosInfo 4550 50 0 0) p1
      (SetWorldPosition_pos (PosInfo 2550 50 0 0) small_player small_world)) = Some w3 \<and> cells w3 1 =
      (if pos_cell small_world (PosInfo 4550 50 0 0) = pos_cell small_world (PosInfo 2550 50 0 0)
       then {cell_key (cur_cell small_player)}
       else {cell_key (cur_cell small_player), cell_key (pos_cell small_world (PosInfo 4550 50 0 0))})"
    by (rule two_moves_stale [OF _ _ _ _ _ _ _ refl p1 refl])
       (simp_all add: cell small_cells small_usable IsValidGridIndex_def cell_key_def cur_cell_def)
  with p1 show ?thesis by (auto simp: cell cell_key_def cur_cell_def)
qed

end
