(* ===== verification/World_Vision.thy ===== *)
theory World_Vision
  imports World_Ticks
begin

text \<open>
  What the vision queries and the broadcasts give in a world whose shared pointers lead to objects:
  they do not crash, the queries find exactly the objects they should, and each packet goes out
  once to each of them.
\<close>

section \<open>Queries as filters\<close>

definition world_ok :: "world \<Rightarrow> bool" where
  "world_ok w \<longleftrightarrow> heap_ok w \<and> set (held_list w) \<subseteq> alive w"

abbreviation obj :: "world \<Rightarrow> u64 \<Rightarrow> player" where
  "obj w oid \<equiv> the (find_obj w oid)"

lemma sector_objects_held:
  assumes "FindSector w zt = Some s" and "x \<in> set (sector_objects s sid)"
  shows "x \<in> set (held_list w)"
proof -
  from assms(2) obtain oids where "map_of s sid = Some oids" "x \<in> set oids"
    by (cases "map_of s sid") (auto simp: sector_objects_def)
  then have "(sid, oids) \<in> set s" "x \<in> set oids" by (auto dest: map_of_SomeD)
  moreover have "(zt, s) \<in> set (zoneSectors w)" using assms(1) by (simp add: FindSector_def map_of_SomeD)
  ultimately show ?thesis by (force simp: held_list_def)
qed

lemma sector_list_held:
  assumes "FindSector w zt = Some s"
  shows "set (concat (map snd s)) \<subseteq> set (held_list w)"
proof -
  have "(zt, s) \<in> set (zoneSectors w)" using assms by (simp add: FindSector_def map_of_SomeD)
  then show ?thesis by (force simp: held_list_def)
qed

lemma obj_find: "oid \<in> alive w \<Longrightarrow> find_obj w oid = Some (obj w oid)"
  by (auto simp: alive_iff)

lemma obj_id: "heap_ok w \<Longrightarrow> oid \<in> alive w \<Longrightarrow> objectId (obj w oid) = oid"
  using find_objectId obj_find by blast

lemma lookup_objs_alive: "set oids \<subseteq> alive w \<Longrightarrow> lookup_objs w oids = Some (map (obj w) oids)"
  by (induction oids) (auto simp: alive_iff)

lemma shown_ids:
  assumes "heap_ok w" and "set oids \<subseteq> alive w"
  shows "map objectId (filter P (map (obj w) oids)) = filter (P \<circ> obj w) oids"
proof -
  have "map objectId (filter P (map (obj w) oids)) = map (objectId \<circ> obj w) (filter (P \<circ> obj w) oids)"
    by (simp add: filter_map)
  also have "\<dots> = filter (P \<circ> obj w) oids" using assms by (intro map_idI) (auto simp: obj_id)
  finally show ?thesis .
qed

text \<open>The ids that a query looks at.\<close>

definition seen_ids :: "world \<Rightarrow> zone_type \<Rightarrow> grid_index \<Rightarrow> u64 list" where
  "seen_ids w zt g = (case FindSector w zt of None \<Rightarrow> []
     | Some s \<Rightarrow> concat (map (sector_objects s) (GetVisibleSectorIds (mapData w) g)))"

lemma seen_ids_alive:
  assumes "world_ok w"
  shows "set (seen_ids w zt g) \<subseteq> alive w"
proof (cases "FindSector w zt")
  case (Some s)
  then have "set (seen_ids w zt g) \<subseteq> set (held_list w)"
    using sector_objects_held [OF Some] by (auto simp: seen_ids_def)
  with assms show ?thesis by (auto simp: world_ok_def)
qed (simp add: seen_ids_def)

lemma visible_in_sector:
  assumes "world_ok w" and "FindSector w zt \<noteq> None"
  shows "GetVisibleObjectsInSector w zt position b =
    Some (filter (shown w b (MakeGridIndex (mapData w) position) \<circ> obj w)
      (seen_ids w zt (MakeGridIndex (mapData w) position)))"
proof -
  from assms(2) obtain s where s: "FindSector w zt = Some s" by blast
  have "seen_ids w zt g = concat (map (sector_objects s) (GetVisibleSectorIds (mapData w) g))" for g
    using s by (simp add: seen_ids_def)
  note eq = this [symmetric]
  show ?thesis
    using seen_ids_alive [OF assms(1)] assms(1) s
    by (simp add: GetVisibleObjectsInSector_def Let_def eq lookup_objs_alive shown_ids world_ok_def)
qed

lemma visible_in_zone:
  assumes "world_ok w" and "FindSector w zt = Some s"
  shows "GetVisibleObjectsInZone w zt =
    Some (filter ((\<lambda>p. IsPlayer p \<and> IsValid w p) \<circ> obj w) (concat (map snd s)))"
proof -
  have "set (concat (map snd s)) \<subseteq> alive w"
    using sector_list_held [OF assms(2)] assms(1) by (auto simp: world_ok_def)
  with assms show ?thesis
    by (simp add: GetVisibleObjectsInZone_def lookup_objs_alive shown_ids world_ok_def del: set_concat)
qed

section \<open>Broadcasts as lists of packets\<close>

definition unicast :: "world \<Rightarrow> player \<Rightarrow> server_packet \<Rightarrow> (u64 \<times> server_packet) list" where
  "unicast w p pkt = (case pl_session p of None \<Rightarrow> [] | Some sid \<Rightarrow> if session_closed w sid then [] else [(sid, pkt)])"

lemma SendUnicast_eq: "SendUnicast p pkt w = w\<lparr>outbox := outbox w @ unicast w p pkt\<rparr>"
  by (simp add: SendUnicast_def unicast_def send_packet_def split: option.split)

lemma find_obj_outbox [simp]: "find_obj (w\<lparr>outbox := out\<rparr>) = find_obj w"
  by (simp add: find_obj_def fun_eq_iff)

lemma session_closed_outbox [simp]: "session_closed (w\<lparr>outbox := out\<rparr>) = session_closed w"
  by (simp add: session_closed_def fun_eq_iff split: option.split)

lemma unicast_outbox [simp]: "unicast (w\<lparr>outbox := out\<rparr>) = unicast w"
  by (simp add: unicast_def fun_eq_iff split: option.split)

lemma alive_outbox [simp]: "alive (w\<lparr>outbox := out\<rparr>) = alive w" "heap_ok (w\<lparr>outbox := out\<rparr>) = heap_ok w"
  by (simp_all add: alive_def heap_ok_def)

lemma SendBroadcast_eq:
  assumes "heap_ok w" and "set oids \<subseteq> alive w"
  shows "SendBroadcast oids pkt e w =
    Some (w\<lparr>outbox := outbox w @ concat (map (\<lambda>oid. unicast w (obj w oid) pkt) (removeAll e oids))\<rparr>)"
  using assms
proof (induction oids arbitrary: w)
  case (Cons oid oids)
  obtain p where p: "find_obj w oid = Some p" using Cons.prems(2) by (auto simp: alive_iff)
  have "objectId p = oid" by (rule find_objectId [OF Cons.prems(1) p])
  with Cons p show ?case by (cases "oid = e") (simp_all add: SendUnicast_eq)
qed simp

section \<open>What a player sees\<close>

lemma sdiv_20_nonneg: "0 \<le> (n :: int) \<Longrightarrow> 0 \<le> n sdiv 20"
  by (simp add: pos_imp_zdiv_nonneg_iff)

lemma sdiv_20_less: "(n :: int) < 2 ^ 31 \<Longrightarrow> n sdiv 20 < 2 ^ 31"
proof (cases "0 \<le> n")
  case False
  then have "n sdiv 20 = - (- n div 20)" by (simp add: signed_divide_int_def)
  moreover have "0 \<le> - n div 20" using False by (simp add: pos_imp_zdiv_nonneg_iff)
  ultimately show ?thesis by simp
qed auto

lemma distinct_concat_map:
  assumes "distinct ks" and "\<And>k. k \<in> set ks \<Longrightarrow> distinct (f k)"
    and "\<And>i j x. i \<in> set ks \<Longrightarrow> j \<in> set ks \<Longrightarrow> x \<in> set (f i) \<Longrightarrow> x \<in> set (f j) \<Longrightarrow> i = j"
  shows "distinct (concat (map f ks))"
  using assms
proof (induction ks)
  case (Cons k ks)
  then have "distinct (concat (map f ks))" by simp
  moreover have "set (f k) \<inter> set (concat (map f ks)) = {}" using Cons.prems(1,3) by fastforce
  ultimately show ?case using Cons.prems(2) by simp
qed simp

lemma GetVisibleSectorIds_distinct:
  assumes "map_ok md"
  shows "distinct (GetVisibleSectorIds md g)"
proof -
  let ?ys = "[max 0 (gy g - 20) sdiv 20..min (gridY md) (gy g + 20) sdiv 20]"
  let ?xs = "[max 0 (gx g - 20) sdiv 20..min (gridX md) (gx g + 20) sdiv 20]"
  have small: "0 \<le> n \<and> n < 2 ^ 31" if "max 0 a sdiv 20 \<le> n" "n \<le> min c b sdiv 20" "c < 2 ^ 31" for a b c n :: int
  proof -
    have "0 \<le> max 0 a sdiv 20" "min c b sdiv 20 < 2 ^ 31"
      using that(3) sdiv_20_nonneg [of "max 0 a"] sdiv_20_less [of "min c b"] by simp_all
    with that show ?thesis by linarith
  qed
  have bounds: "gridX md < 2 ^ 31" "gridY md < 2 ^ 31" using assms by (simp_all add: map_ok_def)
  have xs: "0 \<le> x \<and> x < 2 ^ 31" if "x \<in> set ?xs" for x
    using that unfolding set_upto atLeastAtMost_iff by (elim conjE) (rule small [OF _ _ bounds(1)])
  have ys: "0 \<le> y \<and> y < 2 ^ 31" if "y \<in> set ?ys" for y
    using that unfolding set_upto atLeastAtMost_iff by (elim conjE) (rule small [OF _ _ bounds(2)])
  have inj: "sector_id x y = sector_id x' y' \<longleftrightarrow> x = x' \<and> y = y'"
    if "x \<in> set ?xs" "y \<in> set ?ys" "x' \<in> set ?xs" "y' \<in> set ?ys" for x y x' y'
    by (rule sector_id_eq_iff) (use xs ys that in blast)+
  have "distinct (concat (map (\<lambda>y. map (\<lambda>x. sector_id x y) ?xs) ?ys))"
  proof (rule distinct_concat_map)
    fix y assume "y \<in> set ?ys"
    then have "inj_on (\<lambda>x. sector_id x y) (set ?xs)" using inj by (blast intro: inj_onI)
    then show "distinct (map (\<lambda>x. sector_id x y) ?xs)" by (simp only: distinct_map distinct_upto simp_thms)
  next
    fix y y' k assume y: "y \<in> set ?ys" "y' \<in> set ?ys" and "k \<in> set (map (\<lambda>x. sector_id x y) ?xs)"
      "k \<in> set (map (\<lambda>x. sector_id x y') ?xs)"
    then obtain x x' where "x \<in> set ?xs" "x' \<in> set ?xs" "sector_id x y = sector_id x' y'"
      unfolding set_map by blast
    with inj y show "y = y'" by blast
  qed (rule distinct_upto)
  then show ?thesis
    by (simp add: GetVisibleSectorIds_def Let_def playerVisibleRange_20 SECTOR_SIZE_def)
qed

text \<open>
  Every object that is registered is registered in its own cell; the lists of a sector stand for
  maps, and have no entry twice.
\<close>

definition all_registered :: "world \<Rightarrow> bool" where
  "all_registered w \<longleftrightarrow> world_ok w \<and> map_ok (mapData w) \<and>
     (\<forall>zt s. FindSector w zt = Some s \<longrightarrow> distinct (map fst s) \<and> (\<forall>sid. distinct (sector_objects s sid))) \<and>
     (\<forall>oid c. c \<in> cells w oid \<longrightarrow>
        c = cell_key (cur_cell (obj w oid)) \<and> IsValidGridIndex (mapData w) (gridIndex (obj w oid)))"

lemma registeredD:
  assumes "all_registered w" and "(zt, sid) \<in> cells w oid"
  shows "sid = SectorId (gridIndex (obj w oid))" "zt = objZone (obj w oid)"
    "IsValidGridIndex (mapData w) (gridIndex (obj w oid))" "find_obj w oid = Some (obj w oid)"
proof -
  have 1: "(zt, sid) = cell_key (cur_cell (obj w oid)) \<and> IsValidGridIndex (mapData w) (gridIndex (obj w oid))"
    using assms unfolding all_registered_def by blast
  then show "sid = SectorId (gridIndex (obj w oid))" "zt = objZone (obj w oid)"
    "IsValidGridIndex (mapData w) (gridIndex (obj w oid))" by (simp_all add: cell_key_def cur_cell_def)
  from assms(2) obtain s where "FindSector w zt = Some s" "oid \<in> set (sector_objects s sid)"
    by (auto simp: cells_def)
  then have "oid \<in> set (held_list w)" by (rule sector_objects_held)
  then have "oid \<in> alive w" using assms(1) by (auto simp: all_registered_def world_ok_def)
  then show "find_obj w oid = Some (obj w oid)" by (rule obj_find)
qed

lemma seen_ids_cells:
  assumes "FindSector w zt = Some s"
  shows "x \<in> set (seen_ids w zt g) \<longleftrightarrow> (\<exists>sid \<in> set (GetVisibleSectorIds (mapData w) g). (zt, sid) \<in> cells w x)"
  using assms by (auto simp: seen_ids_def cells_def)

lemma seen_ids_distinct:
  assumes "all_registered w"
  shows "distinct (seen_ids w zt g)"
proof (cases "FindSector w zt")
  case (Some s)
  have "distinct (concat (map (sector_objects s) (GetVisibleSectorIds (mapData w) g)))"
  proof (rule distinct_concat_map)
    fix i j x assume "x \<in> set (sector_objects s i)" "x \<in> set (sector_objects s j)"
    then have "(zt, i) \<in> cells w x" "(zt, j) \<in> cells w x" using Some by (simp_all add: cells_def)
    then show "i = j" using registeredD(1) [OF assms] by blast
  qed (use assms Some in \<open>auto simp: all_registered_def GetVisibleSectorIds_distinct\<close>)
  then show ?thesis using Some by (simp add: seen_ids_def)
qed (simp add: seen_ids_def)

lemma seen_in_range:
  assumes "all_registered w" and "IsValidGridIndex (mapData w) g" and "FindSector w zt = Some s"
    and "IsInGridRange g (gridIndex (obj w x))"
  shows "x \<in> set (seen_ids w zt g) \<longleftrightarrow> (zt, SectorId (gridIndex (obj w x))) \<in> cells w x"
  unfolding seen_ids_cells [OF assms(3)]
proof
  assume "\<exists>sid \<in> set (GetVisibleSectorIds (mapData w) g). (zt, sid) \<in> cells w x"
  then show "(zt, SectorId (gridIndex (obj w x))) \<in> cells w x" using registeredD(1) [OF assms(1)] by blast
next
  assume c: "(zt, SectorId (gridIndex (obj w x))) \<in> cells w x"
  have "SectorId (gridIndex (obj w x)) \<in> set (GetVisibleSectorIds (mapData w) g)"
    using assms(1,2,4) registeredD(3) [OF assms(1) c] by (intro visible_sector) (simp_all add: all_registered_def)
  with c show "\<exists>sid \<in> set (GetVisibleSectorIds (mapData w) g). (zt, sid) \<in> cells w x" by blast
qed

text \<open>C11: In a world where every registered object is registered in its own cell, the vision query
  of a zone from a position inside the map never crashes and gives each object of that zone exactly
  once: the valid players (and, when asked for, the other objects) that are registered there at
  most 20 cells away along both axes. No such object is missed by looking only at the sectors
  around the position.\<close>

theorem visible_exact:
  assumes "all_registered w" and "FindSector w zt \<noteq> None"
    and "g = MakeGridIndex (mapData w) position" and "IsValidGridIndex (mapData w) g"
  shows "\<exists>ids. GetVisibleObjectsInSector w zt position onlyPlayer = Some ids \<and> distinct ids \<and>
    (\<forall>oid. oid \<in> set ids \<longleftrightarrow> (\<exists>p. find_obj w oid = Some p \<and> (zt, SectorId (gridIndex p)) \<in> cells w oid \<and>
       \<bar>gx g - gx (gridIndex p)\<bar> \<le> 20 \<and> \<bar>gy g - gy (gridIndex p)\<bar> \<le> 20 \<and>
       (if objectType p = OBJECT_TYPE_PLAYER then IsValid w p else \<not> onlyPlayer)))"
  (is "\<exists>ids. _ \<and> _ \<and> (\<forall>oid. _ \<longleftrightarrow> ?P oid)")
proof -
  from assms(2) obtain s where s: "FindSector w zt = Some s" by blast
  have ok: "world_ok w" using assms(1) by (simp add: all_registered_def)
  let ?ids = "filter (shown w onlyPlayer g \<circ> obj w) (seen_ids w zt g)"
  have "GetVisibleObjectsInSector w zt position onlyPlayer = Some ?ids"
    using visible_in_sector [OF ok assms(2)] assms(3) by simp
  moreover have "distinct ?ids" by (simp add: seen_ids_distinct [OF assms(1)])
  moreover have "oid \<in> set ?ids \<longleftrightarrow> ?P oid" for oid
  proof
    assume "oid \<in> set ?ids"
    then have in_range: "IsInGridRange g (gridIndex (obj w oid))" and "oid \<in> set (seen_ids w zt g)"
      and sh: "shown w onlyPlayer g (obj w oid)" by (simp_all add: shown_def)
    then have c: "(zt, SectorId (gridIndex (obj w oid))) \<in> cells w oid"
      using seen_in_range [OF assms(1,4) s in_range] by blast
    show "?P oid"
      using registeredD(4) [OF assms(1) c] c sh
      by (intro exI [of _ "obj w oid"]) (simp add: shown_def IsInGridRange_def playerVisibleRange_20 IsPlayer_def)
  next
    assume "?P oid"
    then have "(zt, SectorId (gridIndex (obj w oid))) \<in> cells w oid" and sh: "shown w onlyPlayer g (obj w oid)"
      by (auto simp: shown_def IsInGridRange_def playerVisibleRange_20 IsPlayer_def)
    then show "oid \<in> set ?ids" using seen_in_range [OF assms(1,4) s, of oid] by (simp add: shown_def)
  qed
  ultimately show ?thesis by blast
qed

lemma small_world_ok: "world_ok small_world"
  by (simp add: world_ok_def held_list_def)

lemma small_map_ok: "map_ok small_map"
  by (simp add: map_ok_def) (simp add: small_map_def)

lemma small_sector: "FindSector small_world zt = (if zt = Town then Some [(0, [1])] else None)"
  by (simp add: FindSector_def)

lemma small_registered: "all_registered small_world"
proof -
  have "distinct (sector_objects [(0, [1])] sid)" for sid :: u64 by (simp add: sector_objects_def)
  then show ?thesis
    by (simp add: all_registered_def small_world_ok small_map_ok small_sector small_cells cell_key_def cur_cell_def
        IsValidGridIndex_def)
qed

lemma visible_exact_witness:
  "\<exists>ids. GetVisibleObjectsInSector small_world Town (Vector2 50 50) True = Some ids \<and> set ids = {1}"
proof -
  have g: "MakeGridIndex (mapData small_world) (Vector2 50 50) = GridIndex 0 0"
    by (simp add: MakeGridIndex_def Vector2_def)
  obtain ids where ids: "GetVisibleObjectsInSector small_world Town (Vector2 50 50) True = Some ids"
    "\<forall>oid. oid \<in> set ids \<longleftrightarrow> (\<exists>p. find_obj small_world oid = Some p \<and> (Town, SectorId (gridIndex p)) \<in> cells small_world oid \<and>
       \<bar>gx (GridIndex 0 0) - gx (gridIndex p)\<bar> \<le> 20 \<and> \<bar>gy (GridIndex 0 0) - gy (gridIndex p)\<bar> \<le> 20 \<and>
       (if objectType p = OBJECT_TYPE_PLAYER then IsValid small_world p else \<not> True))"
    using visible_exact [OF small_registered _ g [symmetric], of Town True]
    by (auto simp: small_sector IsValidGridIndex_def)
  have "IsValid small_world small_player"
    by (simp add: IsValid_def session_closed_def small_session_def SetPlayer_def PreInit_def Session_def)
  with ids have "oid \<in> set ids \<longleftrightarrow> oid = 1" for oid by (auto simp: small_cells)
  with ids(1) show ?thesis by blast
qed

section \<open>Spawns and despawns\<close>

text \<open>What a client that follows the packets shows.\<close>

fun client_sees :: "server_packet \<Rightarrow> u64 set \<Rightarrow> u64 set" where
  "client_sees (SpawnPkt info) view = insert (info_id info) view"
| "client_sees (DespawnPkt oid) view = view - {oid}"
| "client_sees pkt view = view"

lemma fold_spawn: "fold client_sees (map (\<lambda>x. SpawnPkt (f x)) xs) view = (info_id \<circ> f) ` set xs \<union> view"
  by (induction xs arbitrary: view) auto

lemma fold_despawn: "fold client_sees (map DespawnPkt xs) view = view - set xs"
  by (induction xs arbitrary: view) auto

lemma SendSpawnPacket_eq:
  assumes "heap_ok w" and "set xs \<subseteq> alive w"
  shows "SendSpawnPacket p xs w = Some (w\<lparr>outbox := outbox w @
    concat (map (\<lambda>x. unicast w p (SpawnPkt (MakeObjectInfo (obj w x))))
      (filter (\<lambda>x. x \<noteq> objectId p \<and> x \<notin> set (visibleObjects p)) xs))\<rparr>)"
  using assms
proof (induction xs arbitrary: w)
  case (Cons x xs)
  obtain q where q: "find_obj w x = Some q" using Cons.prems(2) by (auto simp: alive_iff)
  have "objectId q = x" by (rule find_objectId [OF Cons.prems(1) q])
  with Cons q show ?case by (auto simp: SendUnicast_eq)
qed simp

lemma SendDespawnPacket_eq:
  "SendDespawnPacket p xs nv w = w\<lparr>outbox := outbox w @
    concat (map (\<lambda>x. unicast w p (DespawnPkt x)) (filter (\<lambda>x. x \<notin> set nv) xs))\<rparr>"
  by (induction xs arbitrary: w) (auto simp: SendUnicast_eq)

lemma new_visible_eq:
  assumes "heap_ok w" and "set xs \<subseteq> alive w" and "distinct acc"
  shows "\<exists>nv. new_visible w oid xs acc = Some nv \<and> set nv = set acc \<union> (set xs - {oid}) \<and> distinct nv"
  using assms
proof (induction xs arbitrary: acc)
  case (Cons x xs)
  obtain q where q: "find_obj w x = Some q" using Cons.prems(2) by (auto simp: alive_iff)
  have "objectId q = x" by (rule find_objectId [OF Cons.prems(1) q])
  moreover have "distinct (if x \<noteq> oid then set_add x acc else acc)" using Cons.prems(3) by simp
  with Cons.prems obtain nv where "new_visible w oid xs (if x \<noteq> oid then set_add x acc else acc) = Some nv"
    "set nv = set (if x \<noteq> oid then set_add x acc else acc) \<union> (set xs - {oid})" "distinct nv"
    using Cons.IH [of "if x \<noteq> oid then set_add x acc else acc"] by auto
  ultimately show ?case using q by (auto split: if_splits)
qed simp

lemma concat_singles: "concat (map (\<lambda>x. [f x]) xs) = map f xs"
  by (induction xs) auto

text \<open>C12: UpdateVision of an entered player with an open session sends one spawn packet for each
  object that came into view and one despawn packet for each that left it, and nothing else. A
  client that follows these packets shows exactly what the server then holds as visible: the
  objects in view without the player itself.\<close>

theorem vision_in_step:
  assumes "heap_ok w" and "set vis \<subseteq> alive w" and "find_obj w oid = Some p" and "isEntered p"
    and "pl_session p = Some sid" and "\<not> session_closed w sid"
  shows "\<exists>w' p' pkts. UpdateVision oid vis w = Some w' \<and> find_obj w' oid = Some p' \<and>
    outbox w' = outbox w @ map (Pair sid) pkts \<and>
    pkts = map (\<lambda>x. SpawnPkt (MakeObjectInfo (obj w x))) (filter (\<lambda>x. x \<noteq> oid \<and> x \<notin> set (visibleObjects p)) vis)
         @ map DespawnPkt (filter (\<lambda>x. x = oid \<or> x \<notin> set vis) (visibleObjects p)) \<and>
    set (visibleObjects p') = set vis - {oid} \<and>
    fold client_sees pkts (set (visibleObjects p)) = set (visibleObjects p')"
proof (cases "vis = [] \<and> visibleObjects p = []")
  case True
  with assms(3,4) show ?thesis by (simp add: UpdateVision_def)
next
  case False
  have id: "objectId p = oid" by (rule find_objectId [OF assms(1,3)])
  let ?spawn = "filter (\<lambda>x. x \<noteq> oid \<and> x \<notin> set (visibleObjects p)) vis"
  let ?gone = "filter (\<lambda>x. x = oid \<or> x \<notin> set vis) (visibleObjects p)"
  let ?pkts = "map (\<lambda>x. SpawnPkt (MakeObjectInfo (obj w x))) ?spawn @ map DespawnPkt ?gone"
  obtain nv where nv: "new_visible w oid vis [] = Some nv" "set nv = set vis - {oid}"
    using new_visible_eq [OF assms(1,2), of "[]" oid] by auto
  have uni: "unicast w p pkt = [(sid, pkt)]" for pkt using assms(5,6) by (simp add: unicast_def)
  have gone: "filter (\<lambda>x. x \<notin> set nv) (visibleObjects p) = ?gone" by (auto simp: nv(2) intro: filter_cong)
  let ?w' = "set_obj (p\<lparr>visibleObjects := nv\<rparr>) (w\<lparr>outbox := outbox w @ map (Pair sid) ?pkts\<rparr>)"
  have "UpdateVision oid vis w = Some ?w'"
    using assms(3,4) nv(1) gone
    by (simp add: UpdateVision_def Let_def SendSpawnPacket_eq [OF assms(1,2)] SendDespawnPacket_eq uni
        concat_singles id o_def) (use False in blast)
  moreover have "find_obj ?w' oid = Some (p\<lparr>visibleObjects := nv\<rparr>)" by (simp add: world_simps id)
  moreover have "outbox ?w' = outbox w @ map (Pair sid) ?pkts" by (simp add: set_obj_def)
  moreover have "fold client_sees ?pkts (set (visibleObjects p)) = set vis - {oid}"
  proof -
    have "info_id (MakeObjectInfo (obj w x)) = x" if "x \<in> set ?spawn" for x
      using that assms(1,2) by (auto simp: MakeObjectInfo_def obj_id)
    then have "(info_id \<circ> (\<lambda>x. MakeObjectInfo (obj w x))) ` set ?spawn = set ?spawn" by force
    moreover have "set ?spawn \<union> set (visibleObjects p) - set ?gone = set vis - {oid}" by auto
    ultimately show ?thesis by (simp only: fold_append comp_apply fold_spawn fold_despawn)
  qed
  moreover have "visibleObjects (p\<lparr>visibleObjects := nv\<rparr>) = nv" by simp
  ultimately show ?thesis
    by (intro exI [of _ ?w'] exI [of _ "p\<lparr>visibleObjects := nv\<rparr>"] exI [of _ ?pkts] conjI) (simp_all only: nv(2))
qed

lemma vision_in_step_witness:
  "\<exists>w' p'. UpdateVision 1 [1, 2] (small_world\<lparr>objs := [(1, small_player), (2, small_player\<lparr>objectId := 2\<rparr>)]\<rparr>) = Some w' \<and>
     find_obj w' 1 = Some p' \<and> set (visibleObjects p') = {2} \<and>
     outbox w' = outbox small_world @ [(7, SpawnPkt (MakeObjectInfo (small_player\<lparr>objectId := 2\<rparr>)))]"
proof -
  let ?w = "small_world\<lparr>objs := [(1, small_player), (2, small_player\<lparr>objectId := 2\<rparr>)]\<rparr>"
  have "heap_ok ?w" "set [1, 2] \<subseteq> alive ?w" "find_obj ?w 1 = Some small_player"
    by (auto simp: heap_ok_def alive_def find_obj_def)
  moreover have "\<not> session_closed ?w 7"
    by (simp add: session_closed_def small_session_def SetPlayer_def PreInit_def Session_def)
  ultimately obtain w' p' where w': "UpdateVision 1 [1, 2] ?w = Some w'" "find_obj w' 1 = Some p'"
    "set (visibleObjects p') = {2}" "outbox w' = outbox ?w @ [(7, SpawnPkt (MakeObjectInfo (obj ?w 2)))]"
    using vision_in_step [of ?w "[1, 2]" 1 small_player 7] by auto
  moreover have "obj ?w 2 = small_player\<lparr>objectId := 2\<rparr>" by (simp add: find_obj_def)
  ultimately show ?thesis by auto
qed

section \<open>Chat\<close>

lemma valid_unicast: "IsValid w q \<Longrightarrow> unicast w q pkt = [(the (pl_session q), pkt)]"
  by (auto simp: IsValid_def unicast_def split: option.splits)

text \<open>A broadcast with the sender to a list of valid players.\<close>

lemma broadcast_valid:
  assumes "heap_ok w" and "set ids \<subseteq> alive w" and "- 1 \<notin> alive w" and "\<forall>x \<in> set ids. IsValid w (obj w x)"
  shows "SendBroadcast ids pkt (- 1) w =
    Some (w\<lparr>outbox := outbox w @ map (\<lambda>x. (the (pl_session (obj w x)), pkt)) ids\<rparr>)"
proof -
  have "removeAll (- 1) ids = ids" using assms(2,3) by (intro removeAll_id) auto
  moreover have "concat (map (\<lambda>x. unicast w (obj w x) pkt) ids) = map (\<lambda>x. (the (pl_session (obj w x)), pkt)) ids"
    using assms(4) by (induction ids) (simp_all add: valid_unicast)
  ultimately show ?thesis using assms(1,2) by (simp add: SendBroadcast_eq)
qed

text \<open>The entries of a zone's sectors.\<close>

lemma zone_entries:
  assumes "all_registered w" and "FindSector w zt = Some s"
  shows "distinct (concat (map snd s))"
    and "x \<in> set (concat (map snd s)) \<longleftrightarrow> (\<exists>sid. (zt, sid) \<in> cells w x)"
proof -
  have keys: "distinct (map fst s)" and lists: "distinct (sector_objects s sid)" for sid
    using assms by (auto simp: all_registered_def)
  have entry: "sector_objects s (fst e) = snd e" if "e \<in> set s" for e
    using map_of_is_SomeI [OF keys, of "fst e" "snd e"] that by (simp add: sector_objects_def)
  have cell: "(zt, sid) \<in> cells w x \<longleftrightarrow> x \<in> set (sector_objects s sid)" for sid x
    using assms(2) by (simp add: cells_def)
  show "distinct (concat (map snd s))"
  proof (rule distinct_concat_map)
    show "distinct s" using keys by (simp add: distinct_map)
    show "distinct (snd e)" if "e \<in> set s" for e using lists [of "fst e"] entry [OF that] by simp
    fix a b x assume e: "a \<in> set s" "b \<in> set s" "x \<in> set (snd a)" "x \<in> set (snd b)"
    then have "(zt, fst a) \<in> cells w x" "(zt, fst b) \<in> cells w x" by (simp_all add: cell entry)
    then have "fst a = fst b" using registeredD(1) [OF assms(1)] by metis
    with e(1,2) keys show "a = b" by (simp add: distinct_map inj_on_def)
  qed
  show "x \<in> set (concat (map snd s)) \<longleftrightarrow> (\<exists>sid. (zt, sid) \<in> cells w x)"
  proof
    assume "x \<in> set (concat (map snd s))"
    then obtain e where "e \<in> set s" "x \<in> set (snd e)" by auto
    then have "(zt, fst e) \<in> cells w x" by (simp add: cell entry)
    then show "\<exists>sid. (zt, sid) \<in> cells w x" by blast
  next
    assume "\<exists>sid. (zt, sid) \<in> cells w x"
    then obtain sid oids where "map_of s sid = Some oids" "x \<in> set oids"
      unfolding cell by (auto simp: sector_objects_def split: option.splits) (metis option.exhaust_sel)
    then show "x \<in> set (concat (map snd s))" by (force dest: map_of_SomeD)
  qed
qed

text \<open>A chat job is a broadcast to what its query gives.\<close>

definition chat_pkt :: "string \<Rightarrow> chat_job \<Rightarrow> server_packet" where
  "chat_pkt time j = ChatPkt (MakeMessage time (chat_msg j) (chat_name j) (chat_type j)) (chat_type j)"

lemma run_chat_query:
  assumes "find_obj w (chat_self j) = Some p"
    and "(if chat_type j = MSG_TYPE_Local then GetVisibleObjectsInZone w (objZone p)
          else GetVisibleObjectsInSector w (objZone p) (vectorPos p) True) = Some ids"
  shows "run_chat_job time j w = SendBroadcast ids (chat_pkt time j) (- 1) w"
  using assms
  by (simp add: run_chat_job_def chat_pkt_def SendBroadcastToZonePlayers_def SendBroadcastToVisiblePlayers_def
      GetAllObjectPosition_def split: if_splits)

text \<open>Who hears a chat message.\<close>

definition hears :: "world \<Rightarrow> player \<Rightarrow> msg_type \<Rightarrow> u64 \<Rightarrow> player \<Rightarrow> bool" where
  "hears w p t x q \<longleftrightarrow> IsPlayer q \<and> IsValid w q \<and>
     (if t = MSG_TYPE_Local then \<exists>sid. (objZone p, sid) \<in> cells w x
      else (objZone p, SectorId (gridIndex q)) \<in> cells w x \<and> IsInGridRange (gridIndex p) (gridIndex q))"


lemma small_valid: "IsValid small_world small_player"
  by (simp add: IsValid_def session_closed_def small_session_def SetPlayer_def PreInit_def Session_def)


lemma held_list_frame:
  assumes "world_frame w w'"
  shows "set (held_list w') \<subseteq> set (held_list w) \<union> set (sectorUpdateSet w')"
  using world_frameD(3,8) [OF assms] by (auto simp: held_list_def)

lemma quiet_world_ok:
  assumes q: "quiet_step w w'" and ok: "world_ok w"
  shows "world_ok w'"
proof -
  have h: "set (held_list w) \<subseteq> alive w" using ok by (simp add: world_ok_def)
  have 1: "heap_ok w'" "alive w' = alive w" "set (sectorUpdateSet w') \<subseteq> set (sectorUpdateSet w) \<union> alive w"
    using q ok by (simp_all add: quiet_step_def world_ok_def)
  have "set (sectorUpdateSet w) \<subseteq> set (held_list w)" by (auto simp: held_list_def)
  then have "set (sectorUpdateSet w) \<subseteq> alive w" using h by (rule subset_trans)
  with 1(3) have "set (sectorUpdateSet w') \<subseteq> alive w" by blast
  moreover have "set (held_list w') \<subseteq> set (held_list w) \<union> set (sectorUpdateSet w')"
    using q by (intro held_list_frame) (simp add: quiet_step_def)
  ultimately have "set (held_list w') \<subseteq> alive w" using h by blast
  then show ?thesis using 1(1,2) by (simp add: world_ok_def)
qed

lemma FindSector_frame: "world_frame w w' \<Longrightarrow> FindSector w' = FindSector w"
  by (simp add: FindSector_def fun_eq_iff world_frameD(3))

end
