(* ===== verification/World_Moves.thy ===== *)
theory World_Moves
  imports World_Vision
begin

text \<open>
  What a move packet may do to a player: the server accepts a position only when the speed allows
  it, and sends the old position back otherwise.
\<close>

text \<open>The time since the last move, with half a round trip; and the bound on the distance.\<close>

definition elapsed_time :: "int \<Rightarrow> player \<Rightarrow> session \<Rightarrow> rat" where
  "elapsed_time now p s = of_int (now - lastMoveTime p) / 10 ^ 9 + of_int (GetRttAvg s sdiv 2) / 1000"

definition move_allowed :: "int \<Rightarrow> player \<Rightarrow> session \<Rightarrow> pos_info \<Rightarrow> bool" where
  "move_allowed now p s posInfo \<longleftrightarrow>
     \<not> too_far (pos_x posInfo - pos_x (obj_pos p)) (pos_y posInfo - pos_y (obj_pos p))
         (of_int (sint (moveSpeed (statInfo p))) * elapsed_time now p s * MOVE_ALLOW_RANGE)"

definition ordered_map :: "map_data \<Rightarrow> bool" where
  "ordered_map md \<longleftrightarrow> worldMinX md \<le> worldMaxX md \<and> worldMinY md \<le> worldMaxY md"

lemma MoveSimulate_cases:
  assumes "MoveSimulate now oid packet w = Some w'" and "find_obj w oid = Some p"
  obtains (rejected) sid s where "pl_session p = Some sid" "map_of (netSessions w) sid = Some s"
      "\<not> move_allowed now p s (mv_pos packet)" "w' = SendUnicast p (MovePkt oid (obj_pos p)) w"
  | (accepted) sid s w2 p2 where "pl_session p = Some sid" "map_of (netSessions w) sid = Some s"
      "move_allowed now p s (mv_pos packet)" "sends_only (SetWorldPosition_pos (mv_pos packet) p w) w2"
      "find_obj w2 oid = Some p2" "w' = set_obj (p2\<lparr>lastMoveTime := now\<rparr>) w2"
proof -
  from assms obtain sid s where s: "pl_session p = Some sid" "map_of (netSessions w) sid = Some s"
    by (auto simp: MoveSimulate_def bind_eq_Some_conv Let_def)
  let ?far = "too_far (pos_x (mv_pos packet) - pos_x (obj_pos p)) (pos_y (mv_pos packet) - pos_y (obj_pos p))
    (of_int (sint (moveSpeed (statInfo p))) * elapsed_time now p s * MOVE_ALLOW_RANGE)"
  have ma: "move_allowed now p s (mv_pos packet) \<longleftrightarrow> \<not> ?far" by (simp add: move_allowed_def)
  show thesis
  proof (cases ?far)
    case True
    then have "w' = SendUnicast p (MovePkt oid (obj_pos p)) w"
      using assms s by (simp add: MoveSimulate_def Let_def elapsed_time_def)
    with rejected s ma True show thesis by blast
  next
    case False
    with assms s obtain w2 p2 where "PredicateMove oid packet (of_int (GetRttAvg s sdiv 2) / 1000)
        (SetWorldPosition_pos (mv_pos packet) p w) = Some w2" "find_obj w2 oid = Some p2"
        "w' = set_obj (p2\<lparr>lastMoveTime := now\<rparr>) w2"
      by (auto simp: MoveSimulate_def Let_def elapsed_time_def bind_eq_Some_conv)
    with accepted s ma False PredicateMove_only show thesis by blast
  qed
qed

lemma Move_cases:
  assumes "Move now oid packet w = Some w'" and "ordered_map (mapData w)" and "find_obj w oid = Some p"
  obtains (blocked) "CanGo (mapData w) (pos_x (mv_pos packet)) (pos_y (mv_pos packet)) = Some False"
      "w' = SendUnicast p (MovePkt oid (obj_pos p)) w"
  | (rejected) sid s where "pl_session p = Some sid" "map_of (netSessions w) sid = Some s"
      "CanGo (mapData w) (pos_x (mv_pos packet)) (pos_y (mv_pos packet)) = Some True"
      "\<not> move_allowed now p s (mv_pos packet)" "w' = SendUnicast p (MovePkt oid (obj_pos p)) w"
  | (accepted) sid s w2 p2 where "pl_session p = Some sid" "map_of (netSessions w) sid = Some s"
      "CanGo (mapData w) (pos_x (mv_pos packet)) (pos_y (mv_pos packet)) = Some True"
      "move_allowed now p s (mv_pos packet)" "sends_only (SetWorldPosition_pos (mv_pos packet) p w) w2"
      "find_obj w2 oid = Some p2" "w' = set_obj (p2\<lparr>lastMoveTime := now\<rparr>) w2"
proof -
  have "IsValidWorldPosition (mapData w) (mv_pos packet)"
    using assms(2) by (intro IsValidWorldPosition_True) (simp_all add: ordered_map_def)
  then have eq: "Move now oid packet w = Option.bind (CanGo (mapData w) (pos_x (mv_pos packet)) (pos_y (mv_pos packet)))
      (\<lambda>go. if \<not> go then do { _ \<leftarrow> pl_session p; Some (SendUnicast p (MovePkt oid (obj_pos p)) w) }
        else MoveSimulate now oid packet w)"
    using assms(3) by (simp add: Move_def Let_def cong: if_cong)
  obtain go where go: "CanGo (mapData w) (pos_x (mv_pos packet)) (pos_y (mv_pos packet)) = Some go"
    and rest: "(if \<not> go then do { _ \<leftarrow> pl_session p; Some (SendUnicast p (MovePkt oid (obj_pos p)) w) }
      else MoveSimulate now oid packet w) = Some w'"
    using assms(1) unfolding eq bind_eq_Some_conv by blast
  show thesis
  proof (cases go)
    case True
    with rest have "MoveSimulate now oid packet w = Some w'" by simp
    then show thesis using assms(3)
      by (cases rule: MoveSimulate_cases) (use go True accepted rejected in auto)
  next
    case False
    with rest go blocked show thesis by (auto simp: bind_eq_Some_conv)
  qed
qed

text \<open>The player after an accepted move.\<close>

lemma accepted_move:
  assumes id: "objectId p = oid" and p: "find_obj w oid = Some p" and so: "sends_only (SetWorldPosition_pos posInfo p w) w2"
    and p2: "find_obj w2 oid = Some p2" and w': "w' = set_obj (p2\<lparr>lastMoveTime := now\<rparr>) w2"
  shows "\<exists>p'. find_obj w' oid = Some p' \<and> prev_cell p' = cur_cell p \<and> cur_cell p' = pos_cell w posInfo \<and>
      obj_pos p' = posInfo \<and> lastMoveTime p' = now \<and> pl_session p' = pl_session p \<and> isValid p' = isValid p"
    and "sectorUpdateSet w' = (if cur_cell p = pos_cell w posInfo then sectorUpdateSet w else set_add oid (sectorUpdateSet w))"
    and "cells w' x = cells w x" and "x \<noteq> oid \<Longrightarrow> find_obj w' x = find_obj w x"
    and "world_frame w w'"
proof -
  from so obtain out where w2: "w2 = (SetWorldPosition_pos posInfo p w)\<lparr>outbox := out\<rparr>"
    by (auto simp: sends_only_def)
  note spec = SetWorldPosition_spec [OF id, where posInfo = posInfo and w = w]
  from spec(1) obtain p1 :: player where p1: "find_obj (SetWorldPosition_pos posInfo p w) oid = Some p1"
    "objectId p1 = oid" "prev_cell p1 = cur_cell p" "cur_cell p1 = pos_cell w posInfo" "obj_pos p1 = posInfo"
    "pl_session p1 = pl_session p" "isValid p1 = isValid p" by blast
  then have "p2 = p1" using p2 by (simp add: w2 find_obj_def)
  then show "\<exists>p'. find_obj w' oid = Some p' \<and> prev_cell p' = cur_cell p \<and> cur_cell p' = pos_cell w posInfo \<and>
      obj_pos p' = posInfo \<and> lastMoveTime p' = now \<and> pl_session p' = pl_session p \<and> isValid p' = isValid p"
    using p1 by (intro exI [of _ "p1\<lparr>lastMoveTime := now\<rparr>"]) (simp add: w' world_simps prev_cell_def cur_cell_def)
  show "sectorUpdateSet w' = (if cur_cell p = pos_cell w posInfo then sectorUpdateSet w else set_add oid (sectorUpdateSet w))"
    using spec(2) by (simp add: w' w2 set_obj_def)
  show "cells w' x = cells w x" using spec(5) by (simp add: w' w2)
  show "x \<noteq> oid \<Longrightarrow> find_obj w' x = find_obj w x"
    using spec(3) \<open>p2 = p1\<close> p1(2) by (simp add: w' w2 world_simps)
  have "world_frame w (SetWorldPosition_pos posInfo p w)"
    using SetWorldPosition_pos_quiet [OF p] by (simp add: quiet_step_def)
  also have "world_frame (SetWorldPosition_pos posInfo p w) w2"
    using sends_only_quiet [OF so] by (simp add: quiet_step_def)
  also have "world_frame w2 w'" unfolding w' by (rule set_obj_frame)
  finally show "world_frame w w'" .
qed

text \<open>A move never crashes while the player has a session and its new zone has a sector.\<close>

lemma PredicateMove_total:
  assumes "world_ok w" and "find_obj w oid = Some p" and "FindSector w (objZone p) \<noteq> None"
  shows "\<exists>w'. PredicateMove oid packet h w = Some w'"
proof -
  have "set (filter (shown w True g \<circ> obj w) (seen_ids w zt g)) \<subseteq> alive w" for zt g
    using seen_ids_alive [OF assms(1)] by auto
  moreover have "heap_ok w" using assms(1) by (simp add: world_ok_def)
  ultimately show ?thesis using assms(2)
    by (simp add: PredicateMove_def Let_def SendBroadcastToVisiblePlayers_def GetAllObjectPosition_def
        visible_in_sector [OF assms(1,3)] SendBroadcast_eq del: set_filter)
qed

lemma Move_total:
  assumes ok: "world_ok w" and md: "ordered_map (mapData w)" "map_ok (mapData w)" and p: "find_obj w oid = Some p"
    and s: "pl_session p = Some sid" "map_of (netSessions w) sid = Some s"
    and zone: "FindSector w (fst (pos_cell w (mv_pos packet))) \<noteq> None"
  shows "\<exists>w'. Move now oid packet w = Some w'"
proof -
  have "IsValidWorldPosition (mapData w) (mv_pos packet)"
    using md(1) by (intro IsValidWorldPosition_True) (simp_all add: ordered_map_def)
  moreover obtain go where "CanGo (mapData w) (pos_x (mv_pos packet)) (pos_y (mv_pos packet)) = Some go"
    using CanGo_total [OF md(2)] by blast
  moreover have "\<exists>w'. MoveSimulate now oid packet w = Some w'"
  proof -
    let ?w = "SetWorldPosition_pos (mv_pos packet) p w"
    have id: "objectId p = oid" using ok p by (intro find_objectId [of w]) (simp_all add: world_ok_def)
    obtain p1 :: player where p1: "find_obj ?w oid = Some p1" "cur_cell p1 = pos_cell w (mv_pos packet)"
      using SetWorldPosition_spec(1) [OF id] by blast
    have q: "quiet_step w ?w" by (rule SetWorldPosition_pos_quiet [OF p])
    have "objZone p1 = fst (pos_cell w (mv_pos packet))" using p1(2) by (metis cur_cell_def fst_conv)
    then have "FindSector ?w (objZone p1) \<noteq> None"
      using FindSector_frame [of w ?w] q zone by (simp add: quiet_step_def)
    from PredicateMove_total [OF quiet_world_ok [OF q ok] p1(1) this]
    obtain w2 where w2: "PredicateMove oid packet (of_int (GetRttAvg s sdiv 2) / 1000) ?w = Some w2" by blast
    moreover have "find_obj w2 oid = Some p1"
      using PredicateMove_only [OF w2] p1(1) by (auto simp: sends_only_def)
    ultimately show ?thesis using p s by (simp add: MoveSimulate_def Let_def)
  qed
  ultimately show ?thesis using p s by (auto simp: Move_def Let_def)
qed

text \<open>C14: A move packet changes the position of its own player only, and only to a position on
  a walkable cell that the player can have reached: the distance from the old position is at most
  1.2 times what the speed allows in the time since the last accepted move plus half a round trip.
  Otherwise the player stays where it was and the old position is sent back.\<close>

theorem move_bounded:
  assumes "heap_ok w" and "ordered_map (mapData w)" and "find_obj w oid = Some p"
    and "Move now oid packet w = Some w'"
  shows "(\<forall>x. x \<noteq> oid \<longrightarrow> find_obj w' x = find_obj w x) \<and>
    (w' = SendUnicast p (MovePkt oid (obj_pos p)) w \<or>
     (\<exists>p' sid s bound. find_obj w' oid = Some p' \<and> obj_pos p' = mv_pos packet \<and> lastMoveTime p' = now \<and>
        CanGo (mapData w) (pos_x (mv_pos packet)) (pos_y (mv_pos packet)) = Some True \<and>
        pl_session p = Some sid \<and> map_of (netSessions w) sid = Some s \<and>
        bound = of_int (sint (moveSpeed (statInfo p))) *
          (of_int (now - lastMoveTime p) / 10 ^ 9 + of_int (GetRttAvg s sdiv 2) / 1000) * (12 / 10) \<and>
        0 \<le> bound \<and>
        (pos_x (mv_pos packet) - pos_x (obj_pos p)) ^ 2 + (pos_y (mv_pos packet) - pos_y (obj_pos p)) ^ 2 \<le> bound ^ 2))"
  using assms(4,2,3)
proof (cases rule: Move_cases)
  case blocked
  then show ?thesis by (simp add: SendUnicast_def send_packet_def find_obj_def split: option.split)
next
  case (rejected sid s)
  then show ?thesis by (simp add: SendUnicast_def send_packet_def find_obj_def split: option.split)
next
  case (accepted sid s w2 p2)
  have id: "objectId p = oid" by (rule find_objectId [OF assms(1,3)])
  note acc = accepted_move [OF id assms(3) accepted(5,6,7)]
  let ?bound = "of_int (sint (moveSpeed (statInfo p))) * elapsed_time now p s * (12 / 10)"
  have "0 \<le> ?bound" and "(pos_x (mv_pos packet) - pos_x (obj_pos p)) ^ 2 +
      (pos_y (mv_pos packet) - pos_y (obj_pos p)) ^ 2 \<le> ?bound ^ 2"
    using accepted(4) by (simp_all add: move_allowed_def too_far_def MOVE_ALLOW_RANGE_def power2_eq_square not_less not_le)
  with acc(1,4) accepted(1-3) show ?thesis unfolding elapsed_time_def by blast
qed

text \<open>The player of the small world moves 200 units in a second.\<close>

definition small_packet :: "rat \<Rightarrow> move_packet" where
  "small_packet x = \<lparr>mv_pos = PosInfo x 50 0 0, mv_vec = (1, 0)\<rparr>"

lemma grid_coord_60 [simp]: "grid_coord 60 0 100 = 0" "grid_coord 250 0 100 = 2"
  by (simp_all add: grid_coord_def float_to_int32_def floor_eq_iff)

lemma small_CanGo [simp]: "CanGo small_map 250 50 = Some True" "CanGo small_map 60 50 = Some True"
  by (simp_all add: CanGo_def MakeGridIndex_def Vector2_def IsValidGridIndex_def map_cell_def Let_def
      small_map_def map_zero_def)

lemma small_ordered: "ordered_map small_map"
  by (simp add: ordered_map_def)

lemma small_move:
  assumes "pos = small_packet x"
  shows "\<exists>w'. Move now 1 pos small_world = Some w'"
  using small_world_ok small_ordered small_map_ok
  by (intro Move_total [where s = small_session and sid = 7 and p = small_player]) (simp_all add: pos_cell_def Let_def small_sector)

lemma move_bounded_witness:
  "\<exists>w' p'. Move (10 ^ 9) 1 (small_packet 250) small_world = Some w' \<and>
     (w' = SendUnicast small_player (MovePkt 1 (PosInfo 50 50 0 0)) small_world \<or>
      find_obj w' 1 = Some p' \<and> obj_pos p' = PosInfo 250 50 0 0)"
proof -
  obtain w' where w': "Move (10 ^ 9) 1 (small_packet 250) small_world = Some w'" using small_move by blast
  show ?thesis
    using move_bounded [OF small_heap(1) _ small_fields(6) w'] w' small_ordered by (auto simp: small_packet_def)
qed

end
