(* ===== verification/World_Frames.thy ===== *)
theory World_Frames
  imports World_Moves
begin

text \<open>
  Whole frames of the frame thread: deleting, moving, freeing, clearing and showing; and two ways
  in which a frame goes wrong, a player that is freed under its session and a player that stays in
  a sector after it has left.
\<close>

section \<open>Freeing and clearing\<close>

lemma reclaim_fields [simp]:
  "mapData (reclaim w) = mapData w" "zoneSectors (reclaim w) = zoneSectors w"
  "sectorUpdateSet (reclaim w) = sectorUpdateSet w" "forceDeleteObjs (reclaim w) = forceDeleteObjs w"
  "chatJobs (reclaim w) = chatJobs w" "netSessions (reclaim w) = netSessions w"
  "held_list (reclaim w) = held_list w"
  by (simp_all add: reclaim_def held_list_def)

lemma find_reclaim: "find_obj (reclaim w) x = (if x \<in> set (held_list w) then find_obj w x else None)"
proof -
  have "map_of (filter (\<lambda>(k, p). P k) xs) x = (if P x then map_of xs x else None)" for P and xs :: "(u64 \<times> player) list"
    by (induction xs) auto
  from this [of "\<lambda>k. k \<in> set (held_list w)" "objs w"] show ?thesis
    by (simp add: reclaim_def find_obj_def)
qed

lemma cells_reclaim [simp]: "cells (reclaim w) x = cells w x"
  by (simp add: cells_def FindSector_def)

lemma usable_reclaim [simp]: "cell_usable (reclaim w) c = cell_usable w c"
  by (simp add: cell_usable_def FindSector_def)

lemma cells_held: "cells w x \<noteq> {} \<Longrightarrow> x \<in> set (held_list w)"
  by (auto simp: cells_def intro: sector_objects_held)

lemma Clear_fields [simp]:
  "objs (ClearAllEmptySector w) = objs w" "netSessions (ClearAllEmptySector w) = netSessions w"
  "sectorUpdateSet (ClearAllEmptySector w) = sectorUpdateSet w"
  "forceDeleteObjs (ClearAllEmptySector w) = forceDeleteObjs w" "mapData (ClearAllEmptySector w) = mapData w"
  "find_obj (ClearAllEmptySector w) x = find_obj w x"
  by (simp_all add: ClearAllEmptySector_def find_obj_def)

text \<open>The ids of the cells of a sector are keys.\<close>

definition sectors_wf :: "world \<Rightarrow> bool" where
  "sectors_wf w \<longleftrightarrow> (\<forall>zt s. FindSector w zt = Some s \<longrightarrow> distinct (map fst s))"

lemma FindSector_Clear:
  "FindSector (ClearAllEmptySector w) zt = map_option (filter (\<lambda>(sid, oids). oids \<noteq> [])) (FindSector w zt)"
proof -
  have "map_of (map (\<lambda>(zt, s). (zt, f s)) xs) zt = map_option f (map_of xs zt)" for f :: "sector \<Rightarrow> sector" and xs
    by (induction xs) auto
  then show ?thesis by (simp add: FindSector_def ClearAllEmptySector_def)
qed

lemma sector_objects_clear:
  "distinct (map fst s) \<Longrightarrow> sector_objects (filter (\<lambda>(sid, oids). oids \<noteq> []) s) sid = sector_objects s sid"
proof (induction s)
  case (Cons e s)
  obtain k oids where e: "e = (k, oids)" by (cases e)
  have "map_of s k = None" using Cons.prems e by (simp add: map_of_eq_None_iff)
  then have "sector_objects s k = []" by (simp add: sector_objects_def)
  with Cons e show ?case by (auto simp: sector_objects_def)
qed simp

lemma cells_Clear [simp]: "sectors_wf w \<Longrightarrow> cells (ClearAllEmptySector w) x = cells w x"
  by (force simp: cells_def FindSector_Clear sectors_wf_def sector_objects_clear)

lemma wf_Clear: "sectors_wf w \<Longrightarrow> sectors_wf (ClearAllEmptySector w)"
  by (auto simp: sectors_wf_def FindSector_Clear intro: distinct_map_filter)

lemma wf_fields [simp]:
  "sectors_wf (reclaim w) = sectors_wf w" "sectors_wf (w\<lparr>sectorUpdateSet := us\<rparr>) = sectors_wf w"
  "sectors_wf (w\<lparr>forceDeleteObjs := ds\<rparr>) = sectors_wf w" "sectors_wf (set_obj p w) = sectors_wf w"
  "sectors_wf (put_session s w) = sectors_wf w" "sectors_wf (w\<lparr>outbox := out\<rparr>) = sectors_wf w"
  by (simp_all add: sectors_wf_def FindSector_def set_obj_def put_session_def)

lemma wf_assign:
  "sectors_wf w \<Longrightarrow> distinct (map fst s) \<Longrightarrow> sectors_wf (w\<lparr>zoneSectors := hm_assign zt s (zoneSectors w)\<rparr>)"
  by (simp add: sectors_wf_def FindSector_def map_of_hm_assign)

lemma Add_wf: "AddObjectToSector oid zt g w = Some w' \<Longrightarrow> sectors_wf w \<Longrightarrow> sectors_wf w'"
  by (auto simp: AddObjectToSector_def bind_eq_Some_conv Let_def intro!: wf_assign distinct_update
      split: if_splits) (simp add: sectors_wf_def)

lemma Remove_wf: "RemoveObjectToSector oid zt g w = Some w' \<Longrightarrow> sectors_wf w \<Longrightarrow> sectors_wf w'"
  by (auto simp: RemoveObjectToSector_def bind_eq_Some_conv Let_def intro!: wf_assign distinct_update distinct_delete
      split: if_splits option.splits) (simp_all add: sectors_wf_def)

section \<open>Showing\<close>

text \<open>UpdatePlayerVisible changes only what players see.\<close>

definition vision_frame :: "world \<Rightarrow> world \<Rightarrow> bool" where
  "vision_frame w w' \<longleftrightarrow> world_frame w w' \<and> sectorUpdateSet w' = sectorUpdateSet w \<and>
     (\<forall>x. map_option (visibleObjects_update (\<lambda>_. [])) (find_obj w' x) =
          map_option (visibleObjects_update (\<lambda>_. [])) (find_obj w x))"

lemma vision_frame_refl [simp]: "vision_frame w w"
  by (simp add: vision_frame_def world_frame_refl)

lemma vision_frame_trans [trans]: "vision_frame w w' \<Longrightarrow> vision_frame w' w'' \<Longrightarrow> vision_frame w w''"
  unfolding vision_frame_def using world_frame_trans by auto

lemma sends_only_vision: "sends_only w w' \<Longrightarrow> vision_frame w w'"
  using sends_only_quiet [of w w'] by (auto simp: vision_frame_def quiet_step_def) (auto simp: sends_only_def)

lemma UpdateVision_frame:
  assumes "heap_ok w" and "UpdateVision oid vis w = Some w'"
  shows "vision_frame w w'"
proof -
  from assms(2) obtain p where p: "find_obj w oid = Some p" by (auto simp: UpdateVision_def bind_eq_Some_conv)
  have id: "objectId p = oid" by (rule find_objectId [OF assms(1) p])
  show ?thesis
  proof (cases "\<not> isEntered p \<or> vis = [] \<and> visibleObjects p = []")
    case True
    with assms(2) p show ?thesis by (auto simp: UpdateVision_def split: if_splits)
  next
    case False
    with assms(2) p obtain nv w1 where w1: "SendSpawnPacket p vis w = Some w1"
      "w' = set_obj (p\<lparr>visibleObjects := nv\<rparr>) (SendDespawnPacket p (visibleObjects p) nv w1)"
      by (auto simp: UpdateVision_def bind_eq_Some_conv Let_def)
    let ?w2 = "SendDespawnPacket p (visibleObjects p) nv w1"
    have 2: "sends_only w ?w2"
      using SendSpawnPacket_only [OF w1(1)] SendDespawnPacket_only by (rule sends_only_trans)
    then have f: "find_obj ?w2 oid = Some p" using p by (auto simp: sends_only_def)
    have "vision_frame w ?w2" by (rule sends_only_vision [OF 2])
    also have "vision_frame ?w2 w'" unfolding vision_frame_def w1(2)
      using set_obj_frame f id by (auto simp: world_simps) (simp add: set_obj_def)
    finally show ?thesis .
  qed
qed

lemma UpdatePlayerVisible_frame:
  assumes "heap_ok w" and "UpdatePlayerVisible sids w = Some w'"
  shows "vision_frame w w' \<and> heap_ok w'"
  using assms
proof (induction sids arbitrary: w)
  case (Cons sid sids)
  then obtain s where s: "map_of (netSessions w) sid = Some s" by (auto simp: bind_eq_Some_conv)
  consider "UpdatePlayerVisible sids w = Some w'"
    | vis oid w1 where "UpdateVision oid vis w = Some w1" "UpdatePlayerVisible sids w1 = Some w'"
    using Cons.prems(2) s by (auto simp: bind_eq_Some_conv split: option.splits if_splits)
  then show ?case
  proof cases
    case 1
    with Cons show ?thesis by blast
  next
    case 2
    have "heap_ok w1" using UpdateVision_quiet [OF 2(1)] Cons.prems(1) by (simp add: quiet_step_def)
    from Cons.IH [OF this 2(2)] UpdateVision_frame [OF Cons.prems(1) 2(1)] show ?thesis
      using vision_frame_trans by blast
  qed
qed simp

section \<open>Frames\<close>

primrec run_frames :: "u64 list list \<Rightarrow> world \<Rightarrow> world option" where
  "run_frames [] w = Some w"
| "run_frames (sids # rest) w = do { w1 \<leftarrow> SectorUpdateWorkerThread sids w; run_frames rest w1 }"

lemma frame_cases:
  assumes "SectorUpdateWorkerThread sids w = Some w'"
  obtains w1 w2 where "DeleteObjSector w = Some w1" "UpdateSector (reclaim w1) = Some w2"
    "UpdatePlayerVisible sids (ClearAllEmptySector (reclaim w2)) = Some w'"
  using assms by (auto simp: SectorUpdateWorkerThread_def bind_eq_Some_conv)

lemma heap_ok_reclaim: "heap_ok w \<Longrightarrow> heap_ok (reclaim w)"
  by (auto simp: heap_ok_def reclaim_def intro: distinct_map_filter)

lemma heap_ok_objs: "objs w' = objs w \<Longrightarrow> heap_ok w' = heap_ok w"
  by (simp add: heap_ok_def)

lemma sector_step_heap: "sector_step w w' \<Longrightarrow> heap_ok w' = heap_ok w"
  by (rule heap_ok_objs) (rule sector_stepD(2))

text \<open>
  The end of a frame: the objects that are registered or wait for a chat message are kept, the
  sectors stay as they are.
\<close>

lemma frame_end:
  assumes "UpdatePlayerVisible sids (ClearAllEmptySector (reclaim w)) = Some w'"
    and "heap_ok w" and "sectors_wf w"
  shows "heap_ok w'" "sectors_wf w'" "cells w' x = cells w x" "sectorUpdateSet w' = sectorUpdateSet w"
    "forceDeleteObjs w' = forceDeleteObjs w" "netSessions w' = netSessions w"
    "x \<in> set (held_list w) \<Longrightarrow> map_option (visibleObjects_update (\<lambda>_. [])) (find_obj w' x) =
       map_option (visibleObjects_update (\<lambda>_. [])) (find_obj w x)"
proof -
  let ?w = "ClearAllEmptySector (reclaim w)"
  have heap: "heap_ok ?w" using heap_ok_reclaim [OF assms(2)] by (simp add: heap_ok_def)
  have v: "vision_frame ?w w'" and h: "heap_ok w'" using UpdatePlayerVisible_frame [OF heap assms(1)] by auto
  then have fr: "world_frame ?w w'" by (simp add: vision_frame_def)
  have wf: "sectors_wf ?w" using assms(3) by (intro wf_Clear) simp
  show "heap_ok w'" by (rule h)
  show "sectors_wf w'" using wf by (simp add: sectors_wf_def FindSector_frame [OF fr])
  have "cells w' x = cells ?w x" by (simp add: cells_def FindSector_frame [OF fr])
  then show "cells w' x = cells w x" using assms(3) by simp
  show "sectorUpdateSet w' = sectorUpdateSet w" using v by (simp add: vision_frame_def)
  show "forceDeleteObjs w' = forceDeleteObjs w" "netSessions w' = netSessions w"
    using world_frameD(4,7) [OF fr] by simp_all
  show "x \<in> set (held_list w) \<Longrightarrow> map_option (visibleObjects_update (\<lambda>_. [])) (find_obj w' x) =
       map_option (visibleObjects_update (\<lambda>_. [])) (find_obj w x)"
    using v by (simp add: vision_frame_def find_reclaim)
qed

section \<open>A player that stays after it has left\<close>

text \<open>An object without a session that is registered in a cell and that no request mentions.\<close>

definition ghost :: "u64 \<Rightarrow> zone_type \<times> u64 \<Rightarrow> world \<Rightarrow> bool" where
  "ghost oid c w \<longleftrightarrow> heap_ok w \<and> sectors_wf w \<and> sectorUpdateSet w = [] \<and> forceDeleteObjs w = [] \<and>
     cells w oid = {c} \<and> (\<exists>p. find_obj w oid = Some p \<and> \<not> isValid p \<and> pl_session p = None)"

lemma ghost_visible:
  assumes "map_option (visibleObjects_update (\<lambda>_. [])) (find_obj w' x) =
      map_option (visibleObjects_update (\<lambda>_. [])) (find_obj w x)"
    and "find_obj w x = Some p" and "\<not> isValid p" and "pl_session p = None"
  shows "\<exists>p'. find_obj w' x = Some p' \<and> \<not> isValid p' \<and> pl_session p' = None"
proof -
  from assms(1,2) obtain p' where p': "find_obj w' x = Some p'"
    "visibleObjects_update (\<lambda>_. []) p' = visibleObjects_update (\<lambda>_. []) p"
    by (cases "find_obj w' x") auto
  have "isValid (visibleObjects_update (\<lambda>_. []) p') = isValid p'"
    "pl_session (visibleObjects_update (\<lambda>_. []) p') = pl_session p'" by simp_all
  then have "isValid p' = isValid p" "pl_session p' = pl_session p" unfolding p'(2) by simp_all
  with p'(1) assms(3,4) show ?thesis by auto
qed

lemma ghost_frame:
  assumes "ghost oid c w" and "SectorUpdateWorkerThread sids w = Some w'"
  shows "ghost oid c w'"
proof -
  from assms(1) obtain p where g: "heap_ok w" "sectors_wf w" "sectorUpdateSet w = []" "forceDeleteObjs w = []"
    "cells w oid = {c}" "find_obj w oid = Some p" "\<not> isValid p" "pl_session p = None"
    unfolding ghost_def by blast
  from assms(2) obtain w1 w2 where f: "DeleteObjSector w = Some w1" "UpdateSector (reclaim w1) = Some w2"
    "UpdatePlayerVisible sids (ClearAllEmptySector (reclaim w2)) = Some w'" by (rule frame_cases)
  have w2: "w2 = reclaim (w\<lparr>forceDeleteObjs := []\<rparr>)\<lparr>sectorUpdateSet := []\<rparr>"
  proof -
    have w1: "w1 = w\<lparr>forceDeleteObjs := []\<rparr>" using f(1) g(4) by (simp add: DeleteObjSector_def)
    show ?thesis using f(2) g(3) unfolding w1 by (simp add: UpdateSector_def)
  qed
  have held: "held_list (w\<lparr>forceDeleteObjs := []\<rparr>) = held_list w" "held_list w2 = held_list w"
    using g(3) by (simp_all add: w2 held_list_def)
  have keep: "oid \<in> set (held_list w)" using g(5) by (intro cells_held) simp
  have f2: "find_obj w2 oid = Some p"
  proof -
    have "find_obj w2 oid = find_obj (reclaim (w\<lparr>forceDeleteObjs := []\<rparr>)) oid" by (simp add: w2 find_obj_def)
    also have "\<dots> = find_obj (w\<lparr>forceDeleteObjs := []\<rparr>) oid" using keep held(1) by (simp add: find_reclaim)
    finally show ?thesis using g(6) by (simp add: find_obj_def)
  qed
  have "heap_ok (w\<lparr>forceDeleteObjs := []\<rparr>)" using g(1) by (simp add: heap_ok_def)
  then have "heap_ok (reclaim (w\<lparr>forceDeleteObjs := []\<rparr>))" by (rule heap_ok_reclaim)
  then have heap: "heap_ok w2" by (simp add: w2 heap_ok_def)
  have wf: "sectors_wf w2" using g(2) by (simp add: w2)
  have cells2: "cells w2 oid = {c}" "sectorUpdateSet w2 = []" "forceDeleteObjs w2 = []"
    using g(5) by (simp_all add: w2)
  note e = frame_end [OF f(3) heap wf]
  have "\<exists>p'. find_obj w' oid = Some p' \<and> \<not> isValid p' \<and> pl_session p' = None"
    using e(7) [of oid] keep held(2) f2 g(7,8) by (intro ghost_visible) simp_all
  then show ?thesis using e cells2 by (simp add: ghost_def)
qed

lemma moves_wf:
  assumes "reg_moves reg_del reg_add ms w = Some w'" and "sectors_wf w"
  shows "sectors_wf w'"
  using assms
proof (induction ms arbitrary: w)
  case (Cons m ms)
  obtain ob a b where m: "m = (ob, a, b)" by (cases m)
  with Cons.prems obtain w1 w2 where w: "reg_del ob a w = Some w1" "reg_add ob b w1 = Some w2"
    "reg_moves reg_del reg_add ms w2 = Some w'"
    by (auto simp: bind_eq_Some_conv)
  show ?case by (rule Cons.IH [OF w(3) Add_wf [OF w(2) Remove_wf [OF w(1) Cons.prems(2)]]])
qed simp

lemma UpdateSector_wf:
  assumes "UpdateSector w = Some w'" and "set (sectorUpdateSet w) \<subseteq> alive w" and "sectors_wf w"
  shows "sectors_wf w'"
proof -
  let ?oids = "filter (\<lambda>oid. needs_update (the (find_obj w oid))) (sectorUpdateSet w)"
  have live: "\<forall>oid \<in> set (sectorUpdateSet w). oid \<in> alive w" "\<forall>oid \<in> set ?oids. oid \<in> alive w"
    using assms(2) by auto
  have "\<forall>oid. find_obj (w\<lparr>sectorUpdateSet := []\<rparr>) oid = find_obj w oid" by (simp add: find_obj_def)
  from update_objs_moves [OF live(2) this] assms(1)
  have "reg_moves reg_del reg_add (map (obj_move w) ?oids) (w\<lparr>sectorUpdateSet := []\<rparr>) = Some w'"
    by (simp add: UpdateSector_def moved_objs_filter [OF live(1)])
  then show ?thesis by (rule moves_wf) (simp add: assms(3))
qed

lemma ghost_update:
  assumes w: "heap_ok w" "sectors_wf w" and p: "find_obj w oid = Some p"
    and req: "sectorUpdateSet w = [oid]" "forceDeleteObjs w = [(oid, cur_cell p)]"
    and reg: "cells w oid = {cell_key (prev_cell p)}" "cell_key (prev_cell p) \<noteq> cell_key (cur_cell p)"
    and usable: "cell_usable w (prev_cell p)" "cell_usable w (cur_cell p)"
  shows "\<exists>w1 w2. DeleteObjSector w = Some w1 \<and> UpdateSector (reclaim w1) = Some w2 \<and> heap_ok w2 \<and> sectors_wf w2 \<and>
    find_obj w2 oid = Some p \<and> cells w2 oid = {cell_key (cur_cell p)} \<and>
    sectorUpdateSet w2 = [] \<and> forceDeleteObjs w2 = []"
proof -
  let ?w = "w\<lparr>forceDeleteObjs := []\<rparr>"
  have u: "cell_usable ?w (fst (cur_cell p), snd (cur_cell p))" using usable(2) by simp
  then obtain w1 where del: "reg_del oid (cur_cell p) ?w = Some w1" using rg.del_total [of ?w "cur_cell p" oid] by auto
  then have d: "DeleteObjSector w = Some w1" using req(2) by (simp add: DeleteObjSector_def cur_cell_def)
  have st: "sector_step ?w w1" by (rule RemoveObjectToSector_step [OF del])
  have "cells w1 oid = cells w oid - {cell_key (cur_cell p)}"
    using Remove_cells [OF u del, of oid] by (simp add: cell_key_def)
  also have "\<dots> = {cell_key (prev_cell p)}"
    unfolding reg(1) using reg(2) by (simp only: insert_Diff_if empty_Diff singleton_iff if_False)
  finally have w1: "cells w1 oid = {cell_key (prev_cell p)}" "sectorUpdateSet w1 = [oid]" "forceDeleteObjs w1 = []"
    "find_obj w1 oid = Some p" "heap_ok w1" "cell_usable w1 = cell_usable w" "sectors_wf w1"
    using sector_stepD [OF st] req(1) p w(1) sector_step_heap [OF st]
      sector_step_usable [OF st] Remove_wf [OF del] w(2)
    by (simp_all add: find_obj_def heap_ok_def fun_eq_iff)
  let ?w1 = "reclaim w1"
  have keep: "oid \<in> set (held_list w1)" by (rule cells_held) (simp add: w1(1))
  have r: "sectorUpdateSet ?w1 = [oid]" "find_obj ?w1 oid = Some p" "heap_ok ?w1"
    using w1 keep by (simp_all add: find_reclaim heap_ok_reclaim)
  have ru: "cell_usable ?w1 (prev_cell p) \<and> cell_usable ?w1 (cur_cell p)" using usable by (simp add: w1(6))
  have "needs_update p" using reg(2) by (auto simp: needs_update_cells)
  with UpdateSector_one [OF r(1,2) ru] w1(1) obtain w2 where up: "UpdateSector ?w1 = Some w2"
    "sector_step (?w1\<lparr>sectorUpdateSet := []\<rparr>) w2" "cells w2 oid = {cell_key (cur_cell p)}" by auto
  have w2: "heap_ok w2" "find_obj w2 oid = Some p" "sectorUpdateSet w2 = []" "forceDeleteObjs w2 = []"
    using sector_step_heap [OF up(2)] sector_stepD [OF up(2)] r w1(3) by (simp_all add: find_obj_def heap_ok_def)
  have "set (sectorUpdateSet ?w1) \<subseteq> alive ?w1" unfolding r(1) using alive_find [OF r(2)] by simp
  moreover have "sectors_wf ?w1" using w1(7) by simp
  ultimately have "sectors_wf w2" by (rule UpdateSector_wf [OF up(1)])
  with d up w2 show ?thesis by blast
qed

lemma first_ghost_frame:
  assumes w: "heap_ok w" "sectors_wf w" and p: "find_obj w oid = Some p" "\<not> isValid p" "pl_session p = None"
    and req: "sectorUpdateSet w = [oid]" "forceDeleteObjs w = [(oid, cur_cell p)]"
    and reg: "cells w oid = {cell_key (prev_cell p)}" "cell_key (prev_cell p) \<noteq> cell_key (cur_cell p)"
    and usable: "cell_usable w (prev_cell p)" "cell_usable w (cur_cell p)"
  shows "\<exists>w'. SectorUpdateWorkerThread [] w = Some w'"
    and "SectorUpdateWorkerThread sids w = Some w' \<Longrightarrow> ghost oid (cell_key (cur_cell p)) w'"
proof -
  from ghost_update [OF w p(1) req reg usable] obtain w1 w2 where
    f: "DeleteObjSector w = Some w1" "UpdateSector (reclaim w1) = Some w2" and
    w2: "heap_ok w2" "sectors_wf w2" "find_obj w2 oid = Some p" "cells w2 oid = {cell_key (cur_cell p)}"
      "sectorUpdateSet w2 = []" "forceDeleteObjs w2 = []" by blast
  show "\<exists>w'. SectorUpdateWorkerThread [] w = Some w'" using f by (simp add: SectorUpdateWorkerThread_def)
  assume "SectorUpdateWorkerThread sids w = Some w'"
  then have "UpdatePlayerVisible sids (ClearAllEmptySector (reclaim w2)) = Some w'"
    using f by (simp add: SectorUpdateWorkerThread_def)
  note e = frame_end [OF this w2(1,2)]
  have "oid \<in> set (held_list w2)" by (rule cells_held) (simp add: w2(4))
  then have "\<exists>p'. find_obj w' oid = Some p' \<and> \<not> isValid p' \<and> pl_session p' = None"
    using e(7) [of oid] w2(3) p(2,3) by (intro ghost_visible) simp_all
  then show "ghost oid (cell_key (cur_cell p)) w'" using e w2(4-6) by (simp add: ghost_def)
qed

text \<open>The world after the server's callback.\<close>

lemma disconnected_player:
  assumes "server_OnDisconnected s w = Some (s1, w1)" and "playerClass s = Some oid" and "heap_ok w"
    and "find_obj w oid = Some p"
  shows "playerClass s1 = None"
    and "\<exists>p1. find_obj w1 oid = Some p1 \<and> \<not> isValid p1 \<and> pl_session p1 = None \<and>
       prev_cell p1 = prev_cell p \<and> cur_cell p1 = cur_cell p"
    and "sectorUpdateSet w1 = sectorUpdateSet w" and "forceDeleteObjs w1 = forceDeleteObjs w @ [(oid, cur_cell p)]"
    and "heap_ok w1" and "cells w1 x = cells w x" and "cell_usable w1 c = cell_usable w c"
    and "sectors_wf w1 = sectors_wf w"
proof -
  from assms(1,2,4) have 1: "s1 = DetachPlayer s"
    "LeaveGame (objectId p) (objZone p) (vectorPos p) (gridIndex p) (put_session s1 (DetachSession p (put_session s w))) = Some w1"
    by (auto elim: server_disc_cases)
  have id: "objectId p = oid" by (rule find_objectId [OF assms(3,4)])
  let ?p1 = "p\<lparr>isValid := False, pl_session := None\<rparr>"
  let ?v = "put_session s1 (set_obj ?p1 (put_session s w))"
  from LeaveGame_frame [OF 1(2)] obtain out where
    w1: "w1 = ?v\<lparr>forceDeleteObjs := forceDeleteObjs w @ [(oid, cur_cell p)], outbox := out\<rparr>"
    by (auto simp: sends_only_def RequestSectorDelete_def DetachSession_def id cur_cell_def put_session_def set_obj_def)
  have heap: "heap_ok (put_session s' w') = heap_ok w'" for s' w' by (simp add: heap_ok_def put_session_def)
  have v: "find_obj ?v oid = Some ?p1"
    using id by (simp add: find_obj_def put_session_def set_obj_def map_of_hm_assign)
  have hv: "heap_ok ?v" using assms(3) by (simp add: heap heap_ok_set_obj)
  show "playerClass s1 = None" using 1(1) by (simp add: DetachPlayer_def)
  show "\<exists>p1. find_obj w1 oid = Some p1 \<and> \<not> isValid p1 \<and> pl_session p1 = None \<and>
       prev_cell p1 = prev_cell p \<and> cur_cell p1 = cur_cell p"
    using v by (intro exI [of _ ?p1]) (simp add: w1 find_obj_def prev_cell_def cur_cell_def)
  show "heap_ok w1" using hv by (simp add: w1 heap_ok_def)
  show "sectorUpdateSet w1 = sectorUpdateSet w" "forceDeleteObjs w1 = forceDeleteObjs w @ [(oid, cur_cell p)]"
    "cells w1 x = cells w x" "cell_usable w1 c = cell_usable w c" "sectors_wf w1 = sectors_wf w"
    by (simp_all add: w1) (simp_all add: put_session_def set_obj_def)
qed

text \<open>C38: A player that disconnects while its last move waits for the frame thread stays in the world
  for ever. The callback asks for its removal from its current cell, the next frame carries that
  out first and then moves the player from its previous cell into the current one. From then on it
  is registered there without a session, nothing asks for its removal any more, and no later frame
  takes it out.\<close>

theorem departed_ghost:
  assumes "heap_ok w" and "sectors_wf w" and "find_obj w oid = Some p" and "playerClass s = Some oid"
    and "sectorUpdateSet w = [oid]" and "forceDeleteObjs w = []" and "cells w oid = {cell_key (prev_cell p)}"
    and "cell_key (prev_cell p) \<noteq> cell_key (cur_cell p)"
    and "cell_usable w (prev_cell p)" and "cell_usable w (cur_cell p)"
    and "server_OnDisconnected s w = Some (s1, w1)" and "run_frames (sids # rest) w1 = Some w2"
  shows "playerClass s1 = None \<and> cells w2 oid = {cell_key (cur_cell p)} \<and>
    sectorUpdateSet w2 = [] \<and> forceDeleteObjs w2 = [] \<and>
    (\<exists>p2. find_obj w2 oid = Some p2 \<and> \<not> isValid p2 \<and> pl_session p2 = None)"
proof -
  note d = disconnected_player [OF assms(11,4,1,3)]
  from d(2) obtain p1 :: player where p1: "find_obj w1 oid = Some p1" "\<not> isValid p1" "pl_session p1 = None"
    "prev_cell p1 = prev_cell p" "cur_cell p1 = cur_cell p" by blast
  from assms(12) obtain w' where w': "SectorUpdateWorkerThread sids w1 = Some w'" "run_frames rest w' = Some w2"
    by (auto simp: bind_eq_Some_conv)
  have "ghost oid (cell_key (cur_cell p1)) w'"
    by (rule first_ghost_frame(2) [OF d(5) _ p1(1-3) _ _ _ _ _ _ w'(1)])
       (simp_all only: p1(4,5) d(3,4,6,7,8) assms append_Nil simp_thms)
  moreover have "ghost oid c w' \<Longrightarrow> run_frames rest w' = Some w2 \<Longrightarrow> ghost oid c w2" for c
    by (induction rest arbitrary: w') (auto simp: bind_eq_Some_conv dest: ghost_frame)
  ultimately have "ghost oid (cell_key (cur_cell p)) w2" using w'(2) p1(5) by simp
  then show ?thesis using d(1) by (simp add: ghost_def)
qed

text \<open>
  The small world after a move into cell 25. The callback and two frames run there.
\<close>

definition small_moved :: world where
  "small_moved = SetWorldPosition_pos (PosInfo 2550 50 0 0) small_player small_world"

lemma leave_notify_total:
  assumes "set xs \<subseteq> alive w"
  shows "\<exists>w'. leave_notify xs pkt w = Some w'"
  using assms
proof (induction xs arbitrary: w)
  case (Cons x xs)
  then obtain p where p: "find_obj w x = Some p" by (auto simp: alive_iff)
  let ?w = "case GetSession w p of None \<Rightarrow> w | Some sid \<Rightarrow> send_packet sid pkt w"
  have "alive ?w = alive w" by (simp add: send_packet_def split: option.split)
  with Cons p show ?case by simp
qed simp

lemma visible_in_zones_total:
  assumes "world_ok w" and "\<forall>zt \<in> set zts. FindSector w zt \<noteq> None"
  shows "\<exists>ids. visible_in_zones w zts position b = Some ids \<and> set ids \<subseteq> alive w"
  using assms(2)
proof (induction zts)
  case (Cons zt zts)
  then obtain ids where ids: "visible_in_zones w zts position b = Some ids" "set ids \<subseteq> alive w" by auto
  let ?ids = "filter (shown w b (MakeGridIndex (mapData w) position) \<circ> obj w)
      (seen_ids w zt (MakeGridIndex (mapData w) position))"
  have "GetVisibleObjectsInSector w zt position b = Some ?ids"
    using Cons.prems by (intro visible_in_sector [OF assms(1)]) simp
  moreover have "set ?ids \<subseteq> alive w" using seen_ids_alive [OF assms(1)] by auto
  ultimately show ?case using ids by auto
qed simp

text \<open>Every zone that can be asked for has a sector.\<close>

definition zones_ok :: "world \<Rightarrow> bool" where
  "zones_ok w \<longleftrightarrow> FindSector w Town \<noteq> None \<and> (\<forall>z \<in> set (zones (mapData w)). FindSector w (zoneType z) \<noteq> None)"

lemma first_zone_ok: "zones_ok w \<Longrightarrow> FindSector w (GetZoneByPosition (mapData w) v) \<noteq> None"
proof -
  have "first_zone v zs = Town \<or> (\<exists>z \<in> set zs. first_zone v zs = zoneType z)" for zs
    by (induction zs) auto
  then show "zones_ok w \<Longrightarrow> FindSector w (GetZoneByPosition (mapData w) v) \<noteq> None"
    unfolding zones_ok_def GetZoneByPosition_def by metis
qed

lemma GetVisible_total:
  assumes "world_ok w" and "zones_ok w"
  shows "\<exists>ids. GetVisibleObjectsInSectors w position b = Some ids \<and> set ids \<subseteq> alive w"
proof -
  have "\<forall>zt \<in> set (GetVisibleZones (mapData w) position). FindSector w zt \<noteq> None"
    using first_zone_ok [OF assms(2), of position] assms(2) by (auto simp: GetVisibleZones_def Let_def zones_ok_def)
  then show ?thesis unfolding GetVisibleObjectsInSectors_def by (rule visible_in_zones_total [OF assms(1)])
qed

text \<open>The disconnect callback does not crash while the player is alive.\<close>

lemma server_OnDisconnected_total:
  assumes "world_ok w" and "zones_ok w" and "\<forall>oid. playerClass s = Some oid \<longrightarrow> oid \<in> alive w"
  shows "\<exists>s1 w1. server_OnDisconnected s w = Some (s1, w1)"
proof (cases "playerClass s")
  case (Some oid)
  then obtain p where p: "find_obj w oid = Some p" using assms(3) by (auto simp: alive_iff)
  have id: "objectId p = oid" using assms(1) p by (auto simp: world_ok_def intro: find_objectId)
  let ?w = "RequestSectorDelete oid (objZone p) (gridIndex p) (put_session (DetachPlayer s) (DetachSession p (put_session s w)))"
  have "heap_ok w" "alive ?w = alive w" "held_list ?w = held_list w"
    using assms(1) p id
    by (auto simp: world_ok_def RequestSectorDelete_def DetachSession_def put_session_def alive_def set_obj_def
        held_list_def map_of_hm_assign find_obj_def)
  moreover have "heap_ok ?w = heap_ok (set_obj (p\<lparr>isValid := False, pl_session := None\<rparr>) w)"
    by (simp add: heap_ok_def RequestSectorDelete_def DetachSession_def put_session_def set_obj_def)
  ultimately have ok: "world_ok ?w" using assms(1) by (simp add: world_ok_def heap_ok_set_obj)
  have zs: "zones_ok ?w" using assms(2)
    by (simp add: zones_ok_def FindSector_def RequestSectorDelete_def DetachSession_def put_session_def set_obj_def)
  obtain ids where ids: "GetVisibleObjectsInSectors ?w (vectorPos p) True = Some ids" "set ids \<subseteq> alive ?w"
    using GetVisible_total [OF ok zs] by blast
  obtain w1 where "leave_notify ids (DespawnPkt oid) ?w = Some w1" using leave_notify_total [OF ids(2)] by blast
  moreover have "find_obj (put_session s w) oid = Some p" using p by (simp add: find_obj_def put_session_def)
  ultimately show ?thesis using Some ids(1) id
    by (simp add: server_OnDisconnected_def Let_def LeaveGame_def GetAllObjectPosition_def)
qed (simp add: server_OnDisconnected_def Let_def)

lemma ghost_runs: "ghost oid c w \<Longrightarrow> \<exists>w'. SectorUpdateWorkerThread [] w = Some w'"
  by (simp add: ghost_def SectorUpdateWorkerThread_def DeleteObjSector_def UpdateSector_def)

lemma small_moved_facts:
  "heap_ok small_moved" "sectors_wf small_moved" "world_ok small_moved" "zones_ok small_moved"
  "sectorUpdateSet small_moved = [1]" "forceDeleteObjs small_moved = []" "cells small_moved x = cells small_world x"
  "cell_usable small_moved c = cell_usable small_world c"
  "\<exists>p. find_obj small_moved 1 = Some p \<and> prev_cell p = (Town, GridIndex 0 0) \<and> cur_cell p = (Town, GridIndex 25 0)"
proof -
  have q: "quiet_step small_world small_moved" unfolding small_moved_def
    by (rule SetWorldPosition_pos_quiet [where oid = 1]) simp
  then have fr: "world_frame small_world small_moved" by (simp add: quiet_step_def)
  have cell: "pos_cell small_world (PosInfo 2550 50 0 0) = (Town, GridIndex 25 0)"
    by (simp add: pos_cell_def UpdatePosition_def MakeGridIndex_def Let_def)
  note spec = SetWorldPosition_spec [OF small_player_fields(1), where w = small_world and posInfo = "PosInfo 2550 50 0 0",
      folded small_moved_def, unfolded cell]
  show "heap_ok small_moved" using q by (simp add: quiet_step_def)
  have "distinct (map fst s)" if "FindSector small_world zt = Some s" for zt s
    using that by (auto simp: small_sector split: if_splits)
  then show "sectors_wf small_moved" by (simp add: sectors_wf_def FindSector_frame [OF fr])
  show "world_ok small_moved" by (rule quiet_world_ok [OF q small_world_ok])
  have "zoneType ` set (zones small_map) = {Town}" by (simp add: small_map_def)
  then show "zones_ok small_moved" using world_frameD(1) [OF fr]
    by (auto simp: zones_ok_def FindSector_frame [OF fr] small_sector)
  show "sectorUpdateSet small_moved = [1]" using spec(2) by (simp add: cur_cell_def set_add_def)
  show "forceDeleteObjs small_moved = []" using world_frameD(4) [OF fr] by simp
  show "cells small_moved x = cells small_world x" by (rule spec(5))
  show "cell_usable small_moved c = cell_usable small_world c" by (rule spec(6))
  show "\<exists>p. find_obj small_moved 1 = Some p \<and> prev_cell p = (Town, GridIndex 0 0) \<and> cur_cell p = (Town, GridIndex 25 0)"
    using spec(1) by (auto simp: cur_cell_def)
qed

lemma departed_ghost_witness:
  "\<exists>s1 w1 w2. server_OnDisconnected small_session small_moved = Some (s1, w1) \<and>
     run_frames [[], []] w1 = Some w2 \<and> cells w2 1 = {(Town, 0x100000000)}"
proof -
  obtain p where p: "find_obj small_moved 1 = Some p" "prev_cell p = (Town, GridIndex 0 0)" "cur_cell p = (Town, GridIndex 25 0)"
    using small_moved_facts(9) by blast
  have pc: "playerClass small_session = Some 1" by (simp add: small_session_def SetPlayer_def)
  then obtain s1 w1 where d: "server_OnDisconnected small_session small_moved = Some (s1, w1)"
    using server_OnDisconnected_total [OF small_moved_facts(3,4), of small_session] alive_find [OF p(1)] by auto
  have c: "cells small_moved 1 = {cell_key (prev_cell p)}" "cell_key (prev_cell p) \<noteq> cell_key (cur_cell p)"
    "cell_usable small_moved (prev_cell p)" "cell_usable small_moved (cur_cell p)"
    by (simp_all add: small_moved_facts(7,8) small_cells p cell_key_def small_usable IsValidGridIndex_def)
  note dp = disconnected_player [OF d pc small_moved_facts(1) p(1)]
  from dp(2) obtain p1 :: player where p1: "find_obj w1 1 = Some p1" "\<not> isValid p1" "pl_session p1 = None"
    "prev_cell p1 = prev_cell p" "cur_cell p1 = cur_cell p" by blast
  have g: "sectorUpdateSet w1 = [1]" "forceDeleteObjs w1 = [(1, cur_cell p1)]" "cells w1 1 = {cell_key (prev_cell p1)}"
    "cell_key (prev_cell p1) \<noteq> cell_key (cur_cell p1)" "cell_usable w1 (prev_cell p1)" "cell_usable w1 (cur_cell p1)"
    "sectors_wf w1"
    using c by (simp_all only: p1(4,5) dp small_moved_facts append_Nil simp_thms)
  note first = first_ghost_frame [OF dp(5) g(7) p1(1-3) g(1-6)]
  obtain w' where w': "SectorUpdateWorkerThread [] w1 = Some w'" using first(1) by blast
  obtain w2 where "SectorUpdateWorkerThread [] w' = Some w2" using ghost_runs [OF first(2) [OF w']] by blast
  with w' have run: "run_frames [[], []] w1 = Some w2" by simp
  have "cells w2 1 = {cell_key (cur_cell p)}"
    using departed_ghost [OF small_moved_facts(1,2) p(1) pc small_moved_facts(5,6) c d run] by blast
  then show ?thesis using d run p(3) by (auto simp: cell_key_def)
qed

end
