(* ===== verification/World_Lifecycle.thy ===== *)
theory World_Lifecycle
  imports World_Frames
begin

text \<open>
  The life of a player: entering the game, and the frame that registers it, or frees it when it
  has moved before.
\<close>

section \<open>Entering\<close>

lemma SetWorldPosition_vec_pos: "SetWorldPosition_vec v p w = SetWorldPosition_pos (MakePosInfo v) p w"
  by (simp add: SetWorldPosition_vec_def SetWorldPosition_pos_def)

definition spawn_pos :: "int \<times> int \<times> rat \<Rightarrow> pos_info" where
  "spawn_pos rnd = (case rnd of (rx, ry, ryaw) \<Rightarrow> PosInfo (of_int rx) (of_int ry) 180 ryaw)"

lemma spawn_vector:
  "MakePosInfo (case rnd of (rx, ry, ryaw) \<Rightarrow> GetRandomSpawnPosition rx ry ryaw z) = spawn_pos rnd"
  by (simp add: spawn_pos_def GetRandomSpawnPosition_def MakePosInfo_def split: prod.split)

text \<open>What an entered player looks like.\<close>

definition spawned :: "int \<times> int \<times> rat \<Rightarrow> player \<Rightarrow> world \<Rightarrow> player \<Rightarrow> bool" where
  "spawned rnd p w p' \<longleftrightarrow> objectId p' = objectId p \<and> prev_cell p' = cur_cell p \<and>
     cur_cell p' = pos_cell w (spawn_pos rnd) \<and> obj_pos p' = spawn_pos rnd \<and> pl_session p' = pl_session p \<and>
     isValid p' = isValid p \<and> lastMoveTime p' = lastMoveTime p \<and>
     statInfo p' = GetPlayerStat (playerStats w) (playerType p')"

lemma set_add_twice [simp]: "set_add x (set_add x xs) = set_add x xs"
  by (simp add: set_add_def)

lemma SetWorldPosition_type:
  "objectId p = oid \<Longrightarrow> find_obj (SetWorldPosition_pos posInfo p w) oid = Some p' \<Longrightarrow> playerType p' = playerType p"
  by (auto simp: SetWorldPosition_pos_def SetWorldPosition2_def Let_def RequestSectorUpdate_def set_obj_def
      find_obj_def map_of_hm_assign split: if_splits)

lemma SendEnterGamePkt_run:
  assumes p: "find_obj w oid = Some p" "objectId p = oid" and z: "FindZone w zt = Some zone"
    and s: "pl_session p = Some sid"
  shows "\<exists>w1 p1. SendEnterGamePkt rnd oid zt w = Some w1 \<and> find_obj w1 oid = Some p1 \<and> spawned rnd p w p1 \<and>
    playerType p1 = playerType p \<and> sectorUpdateSet w1 = set_add oid (sectorUpdateSet w)"
proof -
  let ?v = "case rnd of (rx, ry, ryaw) \<Rightarrow> GetRandomSpawnPosition rx ry ryaw zone"
  let ?wa = "SetWorldPosition_vec ?v p w"
  have wa: "?wa = SetWorldPosition_pos (spawn_pos rnd) p w" by (simp only: SetWorldPosition_vec_pos spawn_vector)
  note spec = SetWorldPosition_spec [OF p(2), where posInfo = "spawn_pos rnd" and w = w]
  from spec(1) obtain pa :: player where pa: "find_obj ?wa oid = Some pa" "objectId pa = oid" "prev_cell pa = cur_cell p"
    "cur_cell pa = pos_cell w (spawn_pos rnd)" "obj_pos pa = spawn_pos rnd" "pl_session pa = pl_session p"
    "isValid pa = isValid p" "lastMoveTime pa = lastMoveTime p" unfolding wa by blast
  have ty: "playerType pa = playerType p" using SetWorldPosition_type [OF p(2)] pa(1) wa by simp
  let ?pb = "pa\<lparr>statInfo := GetPlayerStat (playerStats ?wa) (playerType pa)\<rparr>"
  let ?wb = "InitStatInfo pa ?wa"
  have stats: "playerStats ?wa = playerStats w"
    using SetWorldPosition_vec_quiet [OF p(1)] world_frameD(6) by (auto simp: quiet_step_def)
  have b: "find_obj ?wb oid = Some ?pb" using pa(2) by (simp add: InitStatInfo_def world_simps)
  let ?w1 = "RequestSectorUpdate oid (send_packet sid (EnterGamePkt (MakeObjectInfo ?pb)) ?wb)"
  have "SendEnterGamePkt rnd oid zt w = Some ?w1"
    using p z s pa b by (simp add: SendEnterGamePkt_def Let_def)
  moreover have "find_obj ?w1 oid = Some ?pb"
    using b by (simp add: find_obj_def RequestSectorUpdate_def send_packet_def)
  moreover have "spawned rnd p w ?pb"
    using pa p(2) stats by (simp add: spawned_def prev_cell_def cur_cell_def)
  moreover have "sectorUpdateSet ?w1 = set_add oid (sectorUpdateSet w)"
    using spec(2) wa by (simp add: RequestSectorUpdate_def send_packet_def InitStatInfo_def set_obj_def)
  ultimately show ?thesis using ty by (intro exI [of _ ?w1] exI [of _ ?pb]) simp
qed

text \<open>The objects in view are added to what the player sees.\<close>

lemma view_frame:
  assumes "find_obj w oid = Some p" and "objectId p = oid"
  shows "vision_frame w (set_obj (p\<lparr>visibleObjects := xs\<rparr>) w)"
  using assms set_obj_frame by (auto simp: vision_frame_def world_simps) (simp add: set_obj_def)

lemma enter_seen_run:
  assumes "heap_ok w" and "oid \<in> alive w" and "set xs \<subseteq> alive w"
  shows "\<exists>w'. enter_seen oid xs w = Some w' \<and> vision_frame w w' \<and> heap_ok w'"
  using assms
proof (induction xs arbitrary: w)
  case (Cons x xs)
  from Cons.prems obtain q p where q: "find_obj w x = Some q" and p: "find_obj w oid = Some p"
    by (auto simp: alive_iff)
  have id: "objectId p = oid" by (rule find_objectId [OF Cons.prems(1) p])
  show ?case
  proof (cases "objectId q = oid")
    case True
    with Cons q show ?thesis by simp
  next
    case False
    let ?w1 = "set_obj (p\<lparr>visibleObjects := set_add (objectId q) (visibleObjects p)\<rparr>) w"
    let ?w2 = "if IsPlayer q then SendUnicast p (SpawnPkt (MakeObjectInfo q)) ?w1 else ?w1"
    have v: "vision_frame w ?w2"
      using vision_frame_trans [OF view_frame [OF p id] sends_only_vision [OF SendUnicast_only]] view_frame [OF p id]
      by simp
    have a1: "alive ?w1 = alive w" using alive_find [OF p] id by (auto simp: alive_set_obj)
    then have a2: "alive ?w2 = alive w" by (simp add: SendUnicast_eq)
    have "heap_ok ?w2" using heap_ok_set_obj [OF Cons.prems(1)] by (simp add: SendUnicast_eq)
    from Cons.IH [OF this] Cons.prems(2,3) a2 obtain w' where
      "enter_seen oid xs ?w2 = Some w'" "vision_frame ?w2 w'" "heap_ok w'" by auto
    then show ?thesis using q p False vision_frame_trans [OF v] by (auto simp: Let_def)
  qed
qed simp

lemma vision_player:
  assumes "vision_frame w w'" and "find_obj w x = Some p"
  shows "\<exists>p'. find_obj w' x = Some p' \<and> visibleObjects_update (\<lambda>_. []) p' = visibleObjects_update (\<lambda>_. []) p"
proof -
  have "map_option (visibleObjects_update (\<lambda>_. [])) (find_obj w' x) = Some (visibleObjects_update (\<lambda>_. []) p)"
    using assms by (simp add: vision_frame_def)
  then show ?thesis by auto
qed

lemma spawned_view:
  assumes "spawned rnd p w p1" and "visibleObjects_update (\<lambda>_. []) p2 = visibleObjects_update (\<lambda>_. []) p1"
  shows "spawned rnd p w p2" and "playerType p2 = playerType p1"
proof -
  have eq: "f (visibleObjects_update (\<lambda>_. []) p2) = f (visibleObjects_update (\<lambda>_. []) p1)" for f :: "player \<Rightarrow> 'z"
    using assms(2) by simp
  have "objectId p2 = objectId p1" "prev_cell p2 = prev_cell p1" "cur_cell p2 = cur_cell p1" "obj_pos p2 = obj_pos p1"
    "pl_session p2 = pl_session p1" "isValid p2 = isValid p1" "lastMoveTime p2 = lastMoveTime p1"
    "statInfo p2 = statInfo p1" and ty: "playerType p2 = playerType p1"
    using eq [of objectId] eq [of prev_cell] eq [of cur_cell] eq [of obj_pos] eq [of pl_session] eq [of isValid]
      eq [of lastMoveTime] eq [of statInfo] eq [of playerType]
    by (simp_all add: prev_cell_def cur_cell_def)
  with assms(1) show "spawned rnd p w p2" and "playerType p2 = playerType p1" by (simp_all add: spawned_def)
qed

text \<open>Entering never crashes in a sound world, and asks for exactly one registration.\<close>

lemma EnterGame_run:
  assumes ok: "world_ok w" "zones_ok w" and p: "find_obj w oid = Some p" and z: "FindZone w zt \<noteq> None"
    and s: "pl_session p = Some sid"
  shows "\<exists>w' p'. EnterGame rnd oid zt w = Some w' \<and> find_obj w' oid = Some p' \<and> spawned rnd p w p' \<and>
    playerType p' = playerType p \<and> isEntered p' \<and> sectorUpdateSet w' = set_add oid (sectorUpdateSet w)"
proof -
  have id: "objectId p = oid" using ok(1) p by (auto simp: world_ok_def intro: find_objectId)
  from z obtain zone where zone: "FindZone w zt = Some zone" by blast
  from SendEnterGamePkt_run [OF p id zone s, of rnd] obtain w1 p1 where
    1: "SendEnterGamePkt rnd oid zt w = Some w1" "find_obj w1 oid = Some p1" "spawned rnd p w p1"
      "playerType p1 = playerType p" "sectorUpdateSet w1 = set_add oid (sectorUpdateSet w)" by blast
  have q: "quiet_step w w1" by (rule SendEnterGamePkt_quiet [OF 1(1)])
  have ok1: "world_ok w1" by (rule quiet_world_ok [OF q ok(1)])
  have fr: "world_frame w w1" using q by (simp add: quiet_step_def)
  have zs: "zones_ok w1" using ok(2) by (simp add: zones_ok_def FindSector_frame [OF fr] world_frameD(1) [OF fr])
  obtain ids where ids: "GetVisibleObjectsInSectors w1 (vectorPos p1) False = Some ids" "set ids \<subseteq> alive w1"
    using GetVisible_total [OF ok1 zs] by blast
  have heap1: "heap_ok w1" using ok1 by (simp add: world_ok_def)
  obtain w2 where w2: "SendBroadcast ids (SpawnPkt (MakeObjectInfo p1)) (- 1) w1 = Some w2" "vision_frame w1 w2"
    "heap_ok w2" "alive w2 = alive w1"
    using SendBroadcast_eq [OF heap1 ids(2), of "SpawnPkt (MakeObjectInfo p1)" "- 1"] heap1
      sends_only_vision [OF SendBroadcast_only] by fastforce
  obtain w3 where w3: "enter_seen oid ids w2 = Some w3" "vision_frame w2 w3" "heap_ok w3"
    using enter_seen_run [OF w2(3), of oid ids] alive_find [OF 1(2)] ids(2) w2(4) by auto
  have v: "vision_frame w1 w3" by (rule vision_frame_trans [OF w2(2) w3(2)])
  obtain p3 where p3: "find_obj w3 oid = Some p3" "visibleObjects_update (\<lambda>_. []) p3 = visibleObjects_update (\<lambda>_. []) p1"
    using vision_player [OF v 1(2)] by blast
  note sp = spawned_view [OF 1(3) p3(2)]
  let ?p' = "p3\<lparr>isEntered := True\<rparr>"
  have "EnterGame rnd oid zt w = Some (set_obj ?p' w3)"
    using 1(1,2) ids(1) w2(1) w3(1) p3(1) by (simp add: EnterGame_def)
  moreover have "objectId p3 = oid" using sp(1) id by (simp add: spawned_def)
  then have "find_obj (set_obj ?p' w3) oid = Some ?p'" by (simp add: world_simps)
  moreover have "spawned rnd p w ?p'" using sp(1) by (simp add: spawned_def prev_cell_def cur_cell_def)
  moreover have "sectorUpdateSet (set_obj ?p' w3) = set_add oid (sectorUpdateSet w)"
    using v 1(5) by (simp add: vision_frame_def set_obj_def)
  ultimately show ?thesis using sp(2) 1(4) by (intro exI [of _ "set_obj ?p' w3"] exI [of _ ?p']) simp
qed

text \<open>The handler makes a new object and points the session at it.\<close>

lemma held_fields [simp]:
  "held_list (set_obj p w) = held_list w" "held_list (put_session s w) = held_list w"
  "held_list (w\<lparr>nextObjectId := n\<rparr>) = held_list w" "held_list (w\<lparr>outbox := out\<rparr>) = held_list w"
  by (simp_all add: held_list_def set_obj_def put_session_def)

lemma enter_game_run:
  assumes ok: "world_ok w" "zones_ok w" and z: "FindZone w Town \<noteq> None" and s: "net_session w sid = Some s"
  shows "\<exists>w' p'. enter_game ptype sid w = Some w' \<and> find_obj w' (nextObjectId w) = Some p' \<and>
    obj_pos p' = spawn_pos (rndSource w) \<and> cur_cell p' = pos_cell w (spawn_pos (rndSource w)) \<and>
    pl_session p' = Some sid \<and> statInfo p' = GetPlayerStat (playerStats w) ptype \<and> lastMoveTime p' = worldNow w \<and>
    sectorUpdateSet w' = set_add (nextObjectId w) (sectorUpdateSet w) \<and> world_ok w' \<and>
    world_frame (put_session (SetPlayer (nextObjectId w) s) (snd (new_player sid ptype (worldNow w) w))) w'"
proof -
  let ?oid = "nextObjectId w" let ?p = "Player ?oid sid ptype (worldNow w)"
  let ?w1 = "set_obj ?p (w\<lparr>nextObjectId := ?oid + 1\<rparr>)"
  let ?w2 = "put_session (SetPlayer ?oid s) ?w1"
  have pf: "objectId ?p = ?oid" "pl_session ?p = Some sid" "playerType ?p = ptype" "lastMoveTime ?p = worldNow w"
    by (simp_all add: Player_def GameObject_def game_object.defs player.defs)
  have new: "new_player sid ptype (worldNow w) w = (?p, ?w1)" by (simp add: new_player_def Let_def)
  have s1: "net_session ?w1 sid = Some s" using s by (simp add: net_session_def set_obj_def)
  have h: "heap_ok (w\<lparr>nextObjectId := ?oid + 1\<rparr>)" "alive (w\<lparr>nextObjectId := ?oid + 1\<rparr>) = alive w"
    using ok(1) by (simp_all add: world_ok_def heap_ok_def alive_def)
  have "heap_ok ?w2 = heap_ok ?w1" "alive ?w2 = alive ?w1" by (simp_all add: heap_ok_def alive_def put_session_def)
  then have "heap_ok ?w2" "alive ?w2 = insert ?oid (alive w)"
    using heap_ok_set_obj [OF h(1)] h(2) pf(1) by (simp_all add: alive_set_obj)
  moreover have "held_list ?w2 = held_list w" by simp
  ultimately have ok2: "world_ok ?w2" using ok(1) by (auto simp: world_ok_def)
  have zs2: "zones_ok ?w2" "FindZone ?w2 Town \<noteq> None"
    using ok(2) z by (simp_all add: zones_ok_def FindSector_def FindZone_def put_session_def set_obj_def)
  have find2: "find_obj ?w2 ?oid = Some ?p" by (simp add: find_obj_def put_session_def set_obj_def map_of_hm_assign pf(1))
  from EnterGame_run [OF ok2 zs2(1) find2 zs2(2) pf(2), of "rndSource w"] obtain w' p' where
    e: "EnterGame (rndSource w) ?oid Town ?w2 = Some w'" "find_obj w' ?oid = Some p'" "spawned (rndSource w) ?p ?w2 p'"
      "playerType p' = playerType ?p" "sectorUpdateSet w' = set_add ?oid (sectorUpdateSet ?w2)" by blast
  have same: "pos_cell ?w2 x = pos_cell w x" "playerStats ?w2 = playerStats w" "sectorUpdateSet ?w2 = sectorUpdateSet w" for x
    by (simp_all add: pos_cell_def put_session_def set_obj_def)
  have "enter_game ptype sid w = Some w'" using new s1 e(1) pf(1) by (simp add: enter_game_def)
  moreover have "world_frame ?w2 w'" using EnterGame_quiet [OF e(1)] by (simp add: quiet_step_def)
  moreover have "world_ok w'" by (rule quiet_world_ok [OF EnterGame_quiet [OF e(1)] ok2])
  ultimately show ?thesis using e pf new same by (intro exI [of _ w'] exI [of _ p']) (simp add: spawned_def)
qed

section \<open>A player that is freed under its session\<close>

text \<open>A frame drops an object whose only shared pointer is a pending update that moves nothing.\<close>

lemma frame_frees:
  assumes "sectorUpdateSet w = [oid]" and "find_obj w oid = Some p" and "\<not> needs_update p"
    and "forceDeleteObjs w = []" and "oid \<notin> set (held_list (w\<lparr>sectorUpdateSet := []\<rparr>))"
  shows "\<exists>w'. SectorUpdateWorkerThread [] w = Some w' \<and> find_obj w' oid = None \<and> netSessions w' = netSessions w"
    and "map_of (netSessions w) sid = Some s \<Longrightarrow> playerClass s = Some oid \<Longrightarrow> SectorUpdateWorkerThread (sid # sids) w = None"
proof -
  let ?w1 = "reclaim (w\<lparr>forceDeleteObjs := []\<rparr>)"
  let ?w2 = "?w1\<lparr>sectorUpdateSet := []\<rparr>"
  have held: "held_list (w\<lparr>forceDeleteObjs := []\<rparr>) = held_list w" "held_list ?w2 = held_list (w\<lparr>sectorUpdateSet := []\<rparr>)"
    by (simp_all add: held_list_def)
  have "oid \<in> set (held_list w)" using assms(1) by (simp add: held_list_def)
  then have "find_obj ?w1 oid = Some p" using assms(2) by (simp add: find_reclaim held) (simp add: find_obj_def)
  then have run: "DeleteObjSector w = Some (w\<lparr>forceDeleteObjs := []\<rparr>)" "UpdateSector ?w1 = Some ?w2"
    using assms(1,3,4) by (simp_all add: DeleteObjSector_def UpdateSector_def)
  have gone: "find_obj (ClearAllEmptySector (reclaim ?w2)) oid = None"
    using assms(5) by (simp add: find_reclaim held)
  show "\<exists>w'. SectorUpdateWorkerThread [] w = Some w' \<and> find_obj w' oid = None \<and> netSessions w' = netSessions w"
    using run gone by (simp add: SectorUpdateWorkerThread_def)
  show "map_of (netSessions w) sid = Some s \<Longrightarrow> playerClass s = Some oid \<Longrightarrow> SectorUpdateWorkerThread (sid # sids) w = None"
    using run gone by (simp add: SectorUpdateWorkerThread_def)
qed

lemma held_rest:
  assumes "zoneSectors w' = zoneSectors w" and "chatJobs w' = chatJobs w"
  shows "set (held_list (w'\<lparr>sectorUpdateSet := []\<rparr>)) \<subseteq> set (held_list w)"
  using assms by (auto simp: held_list_def)

text \<open>C37: A player that enters the game and has a second position accepted in the cell it spawned
  in before the frame thread runs is lost: the move overwrites its previous cell, the next frame
  sees no change and does not register it, and with the update request its last shared pointer
  goes. The session keeps a raw pointer to the freed object, and the first frame that looks at the
  session's player dereferences it.\<close>

theorem lost_player:
  assumes "world_ok w0" and "zones_ok w0" and "FindZone w0 Town \<noteq> None" and "net_session w0 sid = Some s"
    and "ordered_map (mapData w0)" and "sectorUpdateSet w0 = []" and "forceDeleteObjs w0 = []"
    and "nextObjectId w0 \<notin> set (held_list w0)" and "oid = nextObjectId w0"
    and "enter_game ptype sid w0 = Some w" and "Move now oid packet w = Some w1"
    and "pos_cell w (mv_pos packet) = pos_cell w (spawn_pos (rndSource w0))"
    and "mv_pos packet \<noteq> spawn_pos (rndSource w0)"
    and "find_obj w1 oid = Some p1" and "obj_pos p1 = mv_pos packet"
  shows "(\<exists>w2 s2. SectorUpdateWorkerThread [] w1 = Some w2 \<and> find_obj w2 oid = None \<and>
      map_of (netSessions w2) sid = Some s2 \<and> playerClass s2 = Some oid) \<and>
    SectorUpdateWorkerThread (sid # sids) w1 = None"
proof -
  let ?w00 = "put_session (SetPlayer oid s) (snd (new_player sid ptype (worldNow w0) w0))"
  from enter_game_run [OF assms(1-4), of ptype] assms(10) assms(9) obtain p where
    p: "find_obj w oid = Some p" "obj_pos p = spawn_pos (rndSource w0)" "cur_cell p = pos_cell w0 (spawn_pos (rndSource w0))"
      "pl_session p = Some sid" "sectorUpdateSet w = [oid]" "world_ok w" and fr: "world_frame ?w00 w"
    using assms(6) by (auto simp: set_add_def)
  have w00: "mapData ?w00 = mapData w0" "zoneSectors ?w00 = zoneSectors w0" "chatJobs ?w00 = chatJobs w0"
    "forceDeleteObjs ?w00 = forceDeleteObjs w0" "map_of (netSessions ?w00) sid = Some (SetPlayer oid s)"
    "objectId (fst (new_player sid ptype (worldNow w0) w0)) = oid"
    using assms(4,9) by (simp_all add: new_player_def Let_def put_session_def set_obj_def map_of_hm_assign SetPlayer_def
        net_session_def Player_def GameObject_def game_object.defs player.defs split: option.splits if_splits)
  note frD = world_frameD [OF fr]
  have md: "ordered_map (mapData w)" "pos_cell w = pos_cell w0"
    using assms(5) frD(1) w00(1) by (simp_all add: pos_cell_def fun_eq_iff)
  have heap: "heap_ok w" using p(6) by (simp add: world_ok_def)
  have id: "objectId p = oid" by (rule find_objectId [OF heap p(1)])
  have stay: False if "w1 = SendUnicast p (MovePkt oid (obj_pos p)) w"
  proof -
    have "find_obj w1 oid = Some p"
      using that p(1) by (simp add: SendUnicast_def send_packet_def find_obj_def split: option.split)
    with assms(13-15) p(2) show False by simp
  qed
  from assms(11) md(1) p(1) show ?thesis
  proof (cases rule: Move_cases)
    case (accepted sid' s' w2 p2)
    note acc = accepted_move [OF id p(1) accepted(5-7)]
    from acc(1) have p1: "prev_cell p1 = cur_cell p" "cur_cell p1 = pos_cell w (mv_pos packet)"
      using assms(14) by auto
    have same: "cur_cell p = pos_cell w (mv_pos packet)" using assms(12) md(2) p(3) by simp
    have upd: "sectorUpdateSet w1 = [oid]" using acc(2) p(5) same by simp
    have calm: "\<not> needs_update p1" using p1 same by (simp add: needs_update_cells)
    note f1 = world_frameD [OF acc(5)]
    have rest: "zoneSectors w1 = zoneSectors w0" "chatJobs w1 = chatJobs w0" "forceDeleteObjs w1 = []"
      "map_of (netSessions w1) sid = Some (SetPlayer oid s)"
      using f1 frD w00(2-5) assms(7) by simp_all
    have free: "oid \<notin> set (held_list (w1\<lparr>sectorUpdateSet := []\<rparr>))"
      using held_rest [OF rest(1,2)] assms(8,9) by auto
    have pc: "playerClass (SetPlayer oid s) = Some oid" by (simp add: SetPlayer_def)
    note ff = frame_frees [OF upd assms(14) calm rest(3) free]
    from ff(1) rest(4) pc ff(2) [OF rest(4) pc] show ?thesis by auto
  qed (use stay in blast)+
qed

text \<open>A world with the town, a free session and nobody in it; the next object gets the id 2.\<close>

definition enter_world :: world where
  "enter_world = small_world\<lparr>zoneSectors := [(Town, [])], objs := [],
     playerStats := [(0, \<lparr>bsInfo = stat_zero\<lparr>moveSpeed := 300\<rparr>, bsGrowth = stat_zero\<rparr>)],
     netSessions := [(7, PreInit 9 0 (Session 7 0))], rndSource := (2550, 50, 0)\<rparr>"

lemma enter_world_fields [simp]:
  "mapData enter_world = small_map" "sectorUpdateSet enter_world = []" "forceDeleteObjs enter_world = []"
  "chatJobs enter_world = []" "nextObjectId enter_world = 2" "rndSource enter_world = (2550, 50, 0)"
  "netSessions enter_world = [(7, PreInit 9 0 (Session 7 0))]" "zoneSectors enter_world = [(Town, [])]"
  "worldNow enter_world = 0"
  "GetPlayerStat (playerStats enter_world) 0 = stat_zero\<lparr>moveSpeed := 300\<rparr>"
  by (simp_all add: enter_world_def small_world_def world_empty_def GetPlayerStat_def GetBaseStatInfo_def
      FindBaseState_def GetStatInfo_def)

lemma enter_world_ok: "world_ok enter_world" "zones_ok enter_world" "FindZone enter_world Town \<noteq> None"
proof -
  show "world_ok enter_world"
    by (simp add: world_ok_def held_list_def) (simp add: enter_world_def heap_ok_def)
  show "zones_ok enter_world" by (simp add: zones_ok_def FindSector_def) (simp add: small_map_def)
  show "FindZone enter_world Town \<noteq> None"
    by (simp add: FindZone_def enter_world_def small_world_def)
      (simp add: small_map_def zone_object_def Town_def)
qed

lemma enter_world_cells:
  "mapData w = small_map \<Longrightarrow> pos_cell w (PosInfo x 50 z r) = (Town, GridIndex (grid_coord x 0 100) 0)"
  by (simp add: pos_cell_def UpdatePosition_def Let_def MakeGridIndex_def)

lemma grid_coord_2560 [simp]: "grid_coord 2560 0 100 = 25"
  by (simp add: grid_coord_def float_to_int32_def floor_eq_iff)

lemma enter_CanGo: "CanGo small_map 2560 50 = Some True"
  by (simp add: CanGo_def MakeGridIndex_def Vector2_def IsValidGridIndex_def map_cell_def Let_def)
    (simp add: small_map_def)

lemma lost_player_witness:
  "\<exists>w w1. enter_game 0 7 enter_world = Some w \<and> Move (10 ^ 9) 2 (small_packet 2560) w = Some w1 \<and>
     SectorUpdateWorkerThread [7] w1 = None"
proof -
  let ?s = "PreInit 9 0 (Session 7 0)"
  have s: "net_session enter_world 7 = Some ?s" by (simp add: net_session_def PreInit_def Session_def)
  from enter_game_run [OF enter_world_ok s, of 0] obtain w and p :: player where
    e: "enter_game 0 7 enter_world = Some w" "find_obj w 2 = Some p" "obj_pos p = PosInfo 2550 50 180 0"
      "cur_cell p = pos_cell enter_world (PosInfo 2550 50 180 0)"
      "pl_session p = Some 7" "statInfo p = stat_zero\<lparr>moveSpeed := 300\<rparr>" "lastMoveTime p = 0" "world_ok w"
      "world_frame (put_session (SetPlayer 2 ?s) (snd (new_player 7 0 0 enter_world))) w"
    by (auto simp: spawn_pos_def)
  have fr: "mapData w = small_map" "netSessions w = [(7, SetPlayer 2 ?s)]" "zoneSectors w = [(Town, [])]"
    using world_frameD(1,3,7) [OF e(9)]
    by (simp_all add: new_player_def Let_def put_session_def set_obj_def SetPlayer_def PreInit_def Session_def)
  let ?k = "small_packet 2560"
  have near: "pos_cell w (mv_pos ?k) = pos_cell w (PosInfo 2550 50 180 0)"
    by (simp add: small_packet_def enter_world_cells [OF fr(1)])
  have s7: "map_of (netSessions w) 7 = Some (SetPlayer 2 ?s)" using fr(2) by simp
  have sector: "FindSector w (fst (pos_cell w (mv_pos ?k))) \<noteq> None"
    by (simp add: small_packet_def enter_world_cells [OF fr(1)] FindSector_def fr(3))
  have md: "ordered_map (mapData w)" "map_ok (mapData w)" using fr(1) small_ordered small_map_ok by simp_all
  obtain w1 where w1: "Move (10 ^ 9) 2 ?k w = Some w1"
    using Move_total [OF e(8) md e(2,5) s7 sector] by blast
  have go: "CanGo (mapData w) (pos_x (mv_pos ?k)) (pos_y (mv_pos ?k)) = Some True"
    using enter_CanGo fr(1) by (simp add: small_packet_def)
  have half: "(1::int) sdiv 2 = 0" by (simp add: signed_divide_int_def)
  have near_enough: "move_allowed (10 ^ 9) p (SetPlayer 2 ?s) (mv_pos ?k)"
    by (simp add: move_allowed_def too_far_def elapsed_time_def e small_packet_def GetRttAvg_def SetPlayer_def
        PreInit_def Session_def MOVE_ALLOW_RANGE_def half)
  have id: "objectId p = 2" using e(2,8) by (auto simp: world_ok_def intro: find_objectId)
  have "\<exists>p1. find_obj w1 2 = Some p1 \<and> obj_pos p1 = mv_pos ?k"
    using w1 md(1) e(2)
  proof (cases rule: Move_cases)
    case (accepted sid s w2 p2)
    show ?thesis using accepted_move(1) [OF id e(2) accepted(5-7)] by blast
  qed (use go near_enough s7 e(5) in auto)
  then obtain p1 :: player where p1: "find_obj w1 2 = Some p1" "obj_pos p1 = mv_pos ?k" by blast
  have "2 \<notin> set (held_list enter_world)" by (simp add: held_list_def)
  then show ?thesis
    using lost_player [OF enter_world_ok(1-3) s _ _ _ _ refl, of 0 w "10 ^ 9" "small_packet 2560" w1 p1 "[]"] e w1 p1 near
    by (simp add: small_packet_def spawn_pos_def small_ordered)
qed

end
