(* ===== verification/Service_Invariants.thy ===== *)
theory Service_Invariants
  imports Session_Manager
begin

text \<open>
  An invariant of the service's state that every callback keeps is kept by every operation of a
  session: closing, sending, the two completions, initialisation and the heartbeat. The locale is
  the interface between Session.cpp and CoreService; a service gives its callbacks and its laws.
\<close>

locale service_invariant =
  fixes svc :: "'w core_service" and I :: "'w \<Rightarrow> bool"
  assumes connected: "OnConnected svc s w = Some (s', w') \<Longrightarrow> I w \<Longrightarrow> I w'"
    and disconnected: "OnDisconnected svc s w = Some (s', w') \<Longrightarrow> I w \<Longrightarrow> I w'"
    and received: "OnRecv svc p s w = Some (s', w') \<Longrightarrow> I w \<Longrightarrow> I w'"
    and sent: "OnSend svc n s w = Some (s', w') \<Longrightarrow> I w \<Longrightarrow> I w'"
begin

lemma Close_inv: "Close (OnDisconnected svc) s w = Some (s', w') \<Longrightarrow> I w \<Longrightarrow> I w'"
  by (auto simp: Close_def Let_def bind_eq_Some_conv intro: disconnected split: if_splits)

lemma ProcessSend_inv: "ProcessSend os (OnDisconnected svc) s w = Some (s', w') \<Longrightarrow> I w \<Longrightarrow> I w'"
  by (auto simp: ProcessSend_def Let_def intro: Close_inv split: prod.splits if_splits)

lemma Send_inv: "Send os (OnDisconnected svc) b s w = Some (s', w') \<Longrightarrow> I w \<Longrightarrow> I w'"
  by (auto simp: Send_def Let_def intro: ProcessSend_inv split: if_splits)

lemma SendPacket_inv: "SendPacket os (OnDisconnected svc) pid body s w = Some (s', w') \<Longrightarrow> I w \<Longrightarrow> I w'"
  by (auto simp: SendPacket_def Let_def bind_eq_Some_conv intro: Send_inv split: option.splits)

lemma OnSendCompleted_inv: "OnSendCompleted os svc now n s w = Some (s', w') \<Longrightarrow> I w \<Longrightarrow> I w'"
  by (auto simp: OnSendCompleted_def Let_def bind_eq_Some_conv intro: Close_inv ProcessSend_inv sent split: if_splits)

lemma conn_close_inv: "conn_close svc c = Some c' \<Longrightarrow> I (app c) \<Longrightarrow> I (app c')"
  by (auto simp: conn_close_def bind_eq_Some_conv intro: Close_inv)

lemma ProcessRecv_inv: "ProcessRecv os svc c = Some c' \<Longrightarrow> I (app c) \<Longrightarrow> I (app c')"
  by (auto simp: ProcessRecv_def Let_def dest!: conn_close_inv split: if_splits)

lemma recv_loop_inv: "recv_loop svc c = Some (ok, c') \<Longrightarrow> I (app c) \<Longrightarrow> I (app c')"
proof (induction "unat (GetDataSize (recvBuffer c))" arbitrary: c rule: less_induct)
  case less
  let ?rb = "recvBuffer c"
  consider "c' = c" | "conn_close svc c = Some c'"
    | n p s w rb where "\<not> GetDataSize ?rb < 4" "\<not> bad_size n" "\<not> GetDataSize ?rb < ucast n"
      "OnRecv svc p ((sess c)\<lparr>io := io (sess c) @ [IoPacket p]\<rparr>) (app c) = Some (s, w)"
      "MoveReadPos (ucast n) ?rb = Some rb" "recv_loop svc (c\<lparr>sess := s, app := w, recvBuffer := rb\<rparr>) = Some (ok, c')"
    using less.prems(1) unfolding recv_loop.simps [of svc c]
    by (auto simp: Let_def bind_eq_Some_conv split: if_splits option.splits)
  then show ?case
  proof cases
    case 3
    have "rb = ?rb\<lparr>readPos := readPos ?rb + ucast n\<rparr>"
      using 3(5) by (auto simp: MoveReadPos_def split: if_splits)
    then have "unat (GetDataSize rb) < unat (GetDataSize ?rb)" using recv_loop_decreases [OF 3(1-3)] by simp
    with less.hyps [OF _ 3(6)] received [OF 3(4) less.prems(2)] show ?thesis by simp
  qed (use less.prems(2) conn_close_inv in auto)
qed

lemma OnRecvCompleted_inv: "OnRecvCompleted os svc now n c = Some c' \<Longrightarrow> I (app c) \<Longrightarrow> I (app c')"
  by (auto simp: OnRecvCompleted_def Let_def bind_eq_Some_conv dest!: conn_close_inv ProcessRecv_inv recv_loop_inv
      split: if_splits)

lemma Init_inv: "Init os svc now skt reg c = Some (ok, c') \<Longrightarrow> I (app c) \<Longrightarrow> I (app c')"
  by (auto simp: Init_def Let_def bind_eq_Some_conv intro: connected dest!: ProcessRecv_inv split: if_splits)

lemma heartbeat_inv:
  "server_OnHeartbeat os (OnDisconnected svc) ping s w = Some (s', w') \<Longrightarrow> I w \<Longrightarrow> I w'"
  by (auto simp: server_OnHeartbeat_def bind_eq_Some_conv dest: SendPacket_inv)

end

end
