(* ===== verification/World_Reach.thy ===== *)
theory World_Reach
  imports World_Lifecycle Service_Invariants
begin

text \<open>
  The worlds that a running server can reach: every handler, callback, chat turn and frame keeps
  the world sound, so no shared pointer of the world dangles and a frame finds every sector it
  asks for.
\<close>

section \<open>Sound worlds\<close>

text \<open>The zones that GetZoneByPosition can answer.\<close>

definition known :: "map_data \<Rightarrow> zone_type set" where
  "known md = insert Town (zoneType ` set (zones md))"

definition placed :: "world \<Rightarrow> bool" where
  "placed w \<longleftrightarrow> (\<forall>oid p. find_obj w oid = Some p \<longrightarrow>
     objZone p \<in> known (mapData w) \<and> prevZoneType p \<in> known (mapData w))"

definition world_sound :: "world \<Rightarrow> bool" where
  "world_sound w \<longleftrightarrow> world_ok w \<and> sectors_wf w \<and> zones_ok w \<and> placed w \<and>
     (\<forall>(oid, zt, g) \<in> set (forceDeleteObjs w). zt \<in> known (mapData w))"

lemma GetZone_known [simp]: "GetZoneByPosition md v \<in> known md"
proof -
  have "first_zone v zs = Town \<or> (\<exists>z \<in> set zs. first_zone v zs = zoneType z)" for zs
    by (induction zs) auto
  then show ?thesis unfolding known_def GetZoneByPosition_def by blast
qed

lemma zones_ok_known: "zones_ok w \<longleftrightarrow> (\<forall>zt \<in> known (mapData w). FindSector w zt \<noteq> None)"
  by (auto simp: zones_ok_def known_def)

lemma placedD: "placed w \<Longrightarrow> find_obj w oid = Some p \<Longrightarrow> objZone p \<in> known (mapData w) \<and> prevZoneType p \<in> known (mapData w)"
  by (auto simp: placed_def)

section \<open>Quiet steps keep objects in known zones\<close>

definition keeps :: "world \<Rightarrow> world \<Rightarrow> bool" where
  "keeps w w' \<longleftrightarrow> quiet_step w w' \<and> (placed w \<longrightarrow> placed w')"

lemma keeps_refl [simp]: "keeps w w"
  by (simp add: keeps_def)

lemma keeps_trans [trans]: "keeps w w' \<Longrightarrow> keeps w' w'' \<Longrightarrow> keeps w w''"
  unfolding keeps_def using quiet_step_trans by blast

lemma keeps_sends: "sends_only w w' \<Longrightarrow> keeps w w'"
  using sends_only_quiet [of w w'] by (auto simp: keeps_def placed_def sends_only_def)

lemma placed_set_obj:
  "placed w \<Longrightarrow> objZone p \<in> known (mapData w) \<Longrightarrow> prevZoneType p \<in> known (mapData w) \<Longrightarrow> placed (set_obj p w)"
  by (auto simp: placed_def world_simps) (auto simp: set_obj_def)

lemma keeps_set_obj:
  assumes "find_obj w oid = Some p" and "objectId p' = objectId p"
    and "objZone p' = objZone p" and "prevZoneType p' = prevZoneType p"
  shows "keeps w (set_obj p' w)"
  using update_obj_quiet [OF assms(1,2)] placedD [of w oid p] assms by (auto simp: keeps_def intro: placed_set_obj)

lemma keeps_request: "(heap_ok w \<Longrightarrow> oid \<in> alive w) \<Longrightarrow> keeps w (RequestSectorUpdate oid w)"
  using RequestSectorUpdate_quiet [of w oid]
  by (auto simp: keeps_def placed_def RequestSectorUpdate_def find_obj_def)

lemma keeps_position:
  assumes "find_obj w oid = Some p"
  shows "keeps w (SetWorldPosition2 vp posInfo p w)"
proof -
  let ?p1 = "p\<lparr>prevZoneType := objZone p, prevGridIndex := gridIndex p, vectorPos := vp,
      obj_pos := posInfo, objZone := GetZoneByPosition (mapData w) vp, gridIndex := MakeGridIndex (mapData w) vp\<rparr>"
  have "placed (SetWorldPosition2 vp posInfo p w)" if "placed w"
  proof -
    have "placed (set_obj ?p1 w)" using that placedD [OF that assms] by (intro placed_set_obj) simp_all
    then show ?thesis
      by (auto simp: SetWorldPosition2_def Let_def placed_def RequestSectorUpdate_def find_obj_def)
  qed
  with SetWorldPosition2_quiet [OF assms] show ?thesis by (simp add: keeps_def)
qed

lemmas keeps_positions = keeps_position [folded SetWorldPosition_vec_def] keeps_position [folded SetWorldPosition_pos_def]

lemma keeps_enter_pkt:
  assumes "SendEnterGamePkt rnd oid zt w = Some w'"
  shows "keeps w w'"
proof -
  from assms obtain v p p1 p2 sid where 1: "find_obj w oid = Some p"
    "find_obj (SetWorldPosition_vec v p w) oid = Some p1"
    "find_obj (InitStatInfo p1 (SetWorldPosition_vec v p w)) oid = Some p2"
    "w' = RequestSectorUpdate oid (send_packet sid (EnterGamePkt (MakeObjectInfo p2)) (InitStatInfo p1 (SetWorldPosition_vec v p w)))"
    by (auto simp: SendEnterGamePkt_def bind_eq_Some_conv Let_def)
  let ?w1 = "SetWorldPosition_vec v p w" let ?w2 = "InitStatInfo p1 ?w1"
  have "keeps w ?w1" unfolding SetWorldPosition_vec_def using 1(1) by (rule keeps_position)
  also have "keeps ?w1 ?w2" unfolding InitStatInfo_def using 1(2) by (rule keeps_set_obj) simp_all
  also have "keeps ?w2 (send_packet sid (EnterGamePkt (MakeObjectInfo p2)) ?w2)"
    by (rule keeps_sends) auto
  also have "keeps (send_packet sid (EnterGamePkt (MakeObjectInfo p2)) ?w2) w'"
    unfolding 1(4) using alive_find [OF 1(3)] by (intro keeps_request) (simp add: alive_def send_packet_def)
  finally show ?thesis .
qed

lemma keeps_enter_seen: "enter_seen oid xs w = Some w' \<Longrightarrow> keeps w w'"
proof (induction oid xs w rule: enter_seen.induct)
  case (2 oid x xs w)
  then obtain q where q: "find_obj w x = Some q" by (auto simp: bind_eq_Some_conv)
  show ?case
  proof (cases "objectId q = oid")
    case True
    with 2 q show ?thesis by simp
  next
    case False
    with 2 q obtain p where p: "find_obj w oid = Some p" by (auto simp: bind_eq_Some_conv)
    let ?w1 = "set_obj (p\<lparr>visibleObjects := set_add (objectId q) (visibleObjects p)\<rparr>) w"
    let ?w2 = "if IsPlayer q then SendUnicast p (SpawnPkt (MakeObjectInfo q)) ?w1 else ?w1"
    have "keeps w ?w1" using p by (rule keeps_set_obj) simp_all
    moreover have "keeps ?w1 ?w2" by (rule keeps_sends) auto
    moreover have "enter_seen oid xs ?w2 = Some w'" using 2(3) q p False by (simp add: Let_def)
    ultimately show ?thesis using "2.IH"(2) [OF q False p refl refl] keeps_trans by blast
  qed
qed simp

lemma keeps_EnterGame:
  assumes "EnterGame rnd oid zt w = Some w'"
  shows "keeps w w'"
proof -
  from assms obtain w1 p objects w2 w3 p3 where 1: "SendEnterGamePkt rnd oid zt w = Some w1"
    "SendBroadcast objects (SpawnPkt (MakeObjectInfo p)) (- 1) w1 = Some w2"
    "enter_seen oid objects w2 = Some w3" "find_obj w3 oid = Some p3" "w' = set_obj (p3\<lparr>isEntered := True\<rparr>) w3"
    by (auto simp: EnterGame_def bind_eq_Some_conv)
  have "keeps w w1" by (rule keeps_enter_pkt [OF 1(1)])
  also have "keeps w1 w2" by (rule keeps_sends [OF SendBroadcast_only [OF 1(2)]])
  also have "keeps w2 w3" by (rule keeps_enter_seen [OF 1(3)])
  also have "keeps w3 w'" unfolding 1(5) using 1(4) by (rule keeps_set_obj) simp_all
  finally show ?thesis .
qed

lemma keeps_MoveSimulate:
  assumes "MoveSimulate now oid packet w = Some w'"
  shows "keeps w w'"
proof -
  from assms obtain p where p: "find_obj w oid = Some p" by (auto simp: MoveSimulate_def bind_eq_Some_conv)
  from assms p show ?thesis
  proof (cases rule: MoveSimulate_cases)
    case (rejected sid s)
    then show ?thesis by (auto intro: keeps_sends)
  next
    case (accepted sid s w2 p2)
    have "keeps w (SetWorldPosition_pos (mv_pos packet) p w)"
      unfolding SetWorldPosition_pos_def by (rule keeps_position [OF p])
    also have "keeps \<dots> w2" by (rule keeps_sends [OF accepted(4)])
    also have "keeps w2 w'" unfolding accepted(6) using accepted(5) by (rule keeps_set_obj) simp_all
    finally show ?thesis .
  qed
qed

text \<open>A change of what players see keeps them in their zones.\<close>

lemma vision_zones:
  assumes "vision_frame w w'" and "placed w"
  shows "placed w'"
  unfolding placed_def
proof (intro allI impI)
  fix oid p' assume p': "find_obj w' oid = Some p'"
  have md: "mapData w' = mapData w" using assms(1) by (simp add: vision_frame_def world_frameD)
  from assms(1) p' obtain p where p: "find_obj w oid = Some p"
    "visibleObjects_update (\<lambda>_. []) p' = visibleObjects_update (\<lambda>_. []) p"
    unfolding vision_frame_def by (metis (no_types, lifting) map_option_eq_Some)
  have "objZone (visibleObjects_update (\<lambda>_. []) p') = objZone p'"
    "prevZoneType (visibleObjects_update (\<lambda>_. []) p') = prevZoneType p'" by simp_all
  then have "objZone p' = objZone p" "prevZoneType p' = prevZoneType p" unfolding p(2) by simp_all
  with placedD [OF assms(2) p(1)] show "objZone p' \<in> known (mapData w') \<and> prevZoneType p' \<in> known (mapData w')"
    by (simp add: md)
qed

section \<open>Handlers and callbacks\<close>

lemma keeps_sound:
  assumes "keeps w w'" and "world_sound w"
  shows "world_sound w'"
proof -
  have q: "quiet_step w w'" "placed w'" using assms by (simp_all add: keeps_def world_sound_def)
  then have fr: "world_frame w w'" by (simp add: quiet_step_def)
  show ?thesis
    using assms(2) q quiet_world_ok [OF q(1)] FindSector_frame [OF fr] world_frameD(1,4) [OF fr]
    by (simp add: world_sound_def sectors_wf_def zones_ok_def)
qed

text \<open>Requests and chat jobs may change as long as their objects are alive.\<close>

lemma sound_same:
  assumes "world_sound w" and "mapData w' = mapData w" and "objs w' = objs w" and "zoneSectors w' = zoneSectors w"
    and "forceDeleteObjs w' = forceDeleteObjs w" and "set (sectorUpdateSet w') \<subseteq> set (held_list w) \<union> alive w"
    and "chat_self ` set (chatJobs w') \<subseteq> set (held_list w) \<union> alive w"
  shows "world_sound w'"
proof -
  have held: "set (held_list w) \<subseteq> alive w" using assms(1) by (simp add: world_sound_def world_ok_def)
  have "set (held_list w') \<subseteq> set (held_list w) \<union> alive w"
    using assms(4,6,7) by (auto simp: held_list_def)
  then have "set (held_list w') \<subseteq> alive w" using held by blast
  moreover have "heap_ok w' = heap_ok w" "alive w' = alive w" "FindSector w' = FindSector w" "find_obj w' = find_obj w"
    using assms(3,4) by (simp_all add: heap_ok_def alive_def FindSector_def find_obj_def fun_eq_iff)
  ultimately show ?thesis using assms(1,2,5)
    by (simp add: world_sound_def world_ok_def sectors_wf_def zones_ok_def placed_def)
qed

text \<open>The table of sessions plays no role.\<close>

lemma sound_put_session [simp]: "world_sound (put_session s w) = world_sound w"
proof -
  have "heap_ok (put_session s w) = heap_ok w" "alive (put_session s w) = alive w"
    "FindSector (put_session s w) = FindSector w" "find_obj (put_session s w) = find_obj w"
    by (simp_all add: heap_ok_def alive_def put_session_def FindSector_def find_obj_def fun_eq_iff)
  then show ?thesis
    by (simp add: world_sound_def world_ok_def sectors_wf_def zones_ok_def placed_def) (simp add: put_session_def)
qed

lemma RequestSectorDelete_sound:
  "world_sound w \<Longrightarrow> zt \<in> known (mapData w) \<Longrightarrow> world_sound (RequestSectorDelete oid zt g w)"
  by (auto simp: world_sound_def world_ok_def sectors_wf_def zones_ok_def placed_def RequestSectorDelete_def
      heap_ok_def alive_def held_list_def FindSector_def find_obj_def)

lemma LeaveGame_sound:
  assumes "LeaveGame oid zt v g w = Some w'" and "world_sound w" and "zt \<in> known (mapData w)"
  shows "world_sound w'"
  using keeps_sends [OF LeaveGame_frame [OF assms(1)]] RequestSectorDelete_sound [OF assms(2,3)] by (rule keeps_sound)

lemma Detach_sound:
  assumes "find_obj w oid = Some p" and "world_sound w"
  shows "world_sound (put_session s' (DetachSession p (put_session s w)))"
proof -
  have p: "find_obj (put_session s w) oid = Some p" using assms(1) by (simp add: find_obj_def put_session_def)
  have "keeps (put_session s w) (DetachSession p (put_session s w))" unfolding DetachSession_def
    using p by (rule keeps_set_obj) simp_all
  then have "world_sound (DetachSession p (put_session s w))" using assms(2) by (auto intro: keeps_sound)
  then show ?thesis by simp
qed

lemma OnDisconnected_sound:
  assumes "server_OnDisconnected s w = Some (s', w')" and "world_sound w"
  shows "world_sound w'"
  using assms(1)
proof (cases rule: server_disc_cases)
  case 1
  with assms(2) show ?thesis by simp
next
  case (2 oid p)
  have "world_sound (put_session s' (DetachSession p (put_session s w)))" by (rule Detach_sound [OF 2(3) assms(2)])
  moreover have "objZone p \<in> known (mapData w)" using assms(2) placedD [OF _ 2(3)] by (auto simp: world_sound_def)
  then have "objZone p \<in> known (mapData (put_session s' (DetachSession p (put_session s w))))"
    by (simp add: put_session_def DetachSession_def set_obj_def)
  ultimately show ?thesis by (rule LeaveGame_sound [OF 2(4)])
qed

lemma session_Close_sound:
  assumes "session_Close sid w = Some w'" and "world_sound w"
  shows "world_sound w'"
proof -
  from assms(1) obtain s s1 w1 where c: "Close server_OnDisconnected s w = Some (s1, w1)" and w': "w' = put_session s1 w1"
    by (auto simp: session_Close_def bind_eq_Some_conv)
  have "world_sound w1" using c assms(2) OnDisconnected_sound
    by (auto simp: Close_def Let_def bind_eq_Some_conv split: if_splits)
  then show ?thesis by (simp add: w')
qed

lemma Move_sound:
  assumes "Move now oid packet w = Some w'" and "world_sound w"
  shows "world_sound w'"
proof -
  from assms(1) obtain p :: player and w1 go where w1: "(if \<not> IsValidWorldPosition (mapData w) (mv_pos packet)
      then do { sid \<leftarrow> pl_session p; session_Close sid w } else Some w) = Some w1"
    and rest: "(if \<not> go then do { p1 \<leftarrow> find_obj w1 oid; _ \<leftarrow> pl_session p1;
        Some (SendUnicast p1 (MovePkt oid (obj_pos p1)) w1) } else MoveSimulate now oid packet w1) = Some w'"
    unfolding Move_def Let_def bind_eq_Some_conv by blast
  have "world_sound w1" using w1 session_Close_sound assms(2)
    by (auto simp: bind_eq_Some_conv split: if_splits)
  moreover have "keeps w1 w'"
    using rest keeps_MoveSimulate keeps_sends [OF SendUnicast_only]
    by (auto simp: bind_eq_Some_conv split: if_splits)
  ultimately show ?thesis by (auto intro: keeps_sound)
qed

lemma enter_game_sound:
  assumes "enter_game ptype sid w = Some w'" and "world_sound w"
  shows "world_sound w'"
proof -
  let ?p = "Player (nextObjectId w) sid ptype (worldNow w)"
  let ?w1 = "set_obj ?p (w\<lparr>nextObjectId := nextObjectId w + 1\<rparr>)"
  from assms(1) obtain s where e: "EnterGame (rndSource w) (objectId ?p) Town (put_session (SetPlayer (objectId ?p) s) ?w1) = Some w'"
    by (auto simp: enter_game_def new_player_def bind_eq_Some_conv Let_def split: prod.splits)
  have pf: "objectId ?p = nextObjectId w" "objZone ?p = Town" "prevZoneType ?p = Town"
    by (simp_all add: Player_def GameObject_def game_object.defs player.defs)
  have w: "world_ok w" "sectors_wf w" "zones_ok w" "placed w"
    "\<forall>(oid, zt, g) \<in> set (forceDeleteObjs w). zt \<in> known (mapData w)"
    using assms(2) by (simp_all add: world_sound_def)
  have h: "heap_ok (w\<lparr>nextObjectId := nextObjectId w + 1\<rparr>)" "alive (w\<lparr>nextObjectId := nextObjectId w + 1\<rparr>) = alive w"
    "placed (w\<lparr>nextObjectId := nextObjectId w + 1\<rparr>)"
    using w(1,4) by (simp_all add: world_ok_def heap_ok_def alive_def placed_def find_obj_def)
  have "world_ok ?w1" using w(1) heap_ok_set_obj [OF h(1)] by (auto simp: world_ok_def alive_set_obj h(2))
  moreover have "placed ?w1" using h(3) pf by (intro placed_set_obj) (simp_all add: known_def)
  ultimately have "world_sound ?w1" using w(2,3,5)
    by (simp add: world_sound_def sectors_wf_def zones_ok_def FindSector_def set_obj_def)
  then show ?thesis by (intro keeps_sound [OF keeps_EnterGame [OF e]]) simp
qed

lemma ChatMessage_sound:
  assumes "ChatMessage oid t msg w = Some w'" and "world_sound w" and "oid \<in> alive w"
  shows "world_sound w'"
proof -
  have "\<exists>js. (\<forall>j \<in> set js. chat_self j = oid) \<and> w' = w\<lparr>chatJobs := chatJobs w @ js\<rparr>"
  proof (cases "t = MSG_TYPE_System")
    case True
    with assms(1) show ?thesis by (intro exI [of _ "[]"]) (simp add: ChatMessage_def)
  next
    case False
    obtain p where p: "find_obj w oid = Some p" using assms(3) by (auto simp: alive_iff)
    have chat: "\<exists>j. chat_self j = oid \<and> BroadcastChatAsync oid msg u w = Some (w\<lparr>chatJobs := chatJobs w @ [j]\<rparr>)" for u
      using p by (simp add: BroadcastChatAsync_def) (rule exI, rule conjI [OF _ refl], simp)
    then obtain j where "chat_self j = oid" "w' = w\<lparr>chatJobs := chatJobs w @ [j]\<rparr>"
      using assms(1) False chat [of MSG_TYPE_General] chat [of MSG_TYPE_Local]
      by (cases t) (auto simp: ChatMessage_def)
    then show ?thesis by (intro exI [of _ "[j]"]) simp
  qed
  with assms(3) show ?thesis by (auto intro!: sound_same [OF assms(2)] simp: held_list_def)
qed

lemma for_player_sound:
  assumes "for_player f sid w = Some w'" and "world_sound w"
    and "\<And>oid. oid \<in> alive w \<Longrightarrow> f oid w = Some w' \<Longrightarrow> world_sound w'"
  shows "world_sound w'"
  using assms alive_find [of w]
  by (fastforce simp: for_player_def bind_eq_Some_conv split: option.splits if_splits)

lemma OnRecv_sound:
  assumes "server_OnRecv m buf s w = Some (s', w')" and "world_sound w"
  shows "world_sound w'"
proof -
  have log: "world_sound (log_parse n w)" for n
    by (rule sound_same [OF assms(2)]) (auto simp: log_parse_def held_list_def)
  have run: "world_sound w'" if "in_world f s v = Some (s', w')" "world_sound v"
    and "\<And>w1. world_sound w1 \<Longrightarrow> f w1 = Some w' \<Longrightarrow> world_sound w'" for f v
    using that(1,2) that(3) [of "put_session s v"] by (auto simp: in_world_def bind_eq_Some_conv)
  have "world_sound w'" if "in_world (enter_game t sid) s v = Some (s', w')" "world_sound v" for t sid v
    using that by (rule run) (rule enter_game_sound)
  moreover have player: "world_sound w'" if "in_world (for_player f sid) s v = Some (s', w')" "world_sound v"
    and "\<And>oid w1. world_sound w1 \<Longrightarrow> oid \<in> alive w1 \<Longrightarrow> f oid w1 = Some w' \<Longrightarrow> world_sound w'" for f sid v
    using that(1,2) by (rule run) (blast intro: for_player_sound that(3))
  moreover have "world_sound w'" if "in_world (for_player (\<lambda>oid w. Move (worldNow w) oid packet w) sid) s v = Some (s', w')"
    "world_sound v" for packet sid v
    using that by (rule player) (rule Move_sound)
  moreover have "world_sound w'" if "in_world (for_player (\<lambda>oid. ChatMessage oid t msg) sid) s v = Some (s', w')"
    "world_sound v" for t msg sid v
    using that by (rule player) (rule ChatMessage_sound)
  ultimately show ?thesis
    using assms log unfolding server_OnRecv_def
    by (auto simp: server_handlers_def RegisterPacket_def HandlePacketAs_def no_handlers_def Let_def
        Handle_CS_PLAYER_ENTER_GAME_def Handle_CS_PLAYER_MOVE_def Handle_CS_CHAT_MSG_def Handle_pong_def
        elim!: HandlePacket_cases split: if_splits prod.splits)
qed

section \<open>Frames and chat turns\<close>

lemma reclaim_sound:
  assumes "world_sound w"
  shows "world_sound (reclaim w)"
proof -
  have ok: "heap_ok w" "set (held_list w) \<subseteq> alive w" using assms by (simp_all add: world_sound_def world_ok_def)
  have "alive (reclaim w) = alive w \<inter> set (held_list w)" by (auto simp: alive_iff find_reclaim split: if_splits)
  then have "world_ok (reclaim w)" using ok heap_ok_reclaim by (auto simp: world_ok_def)
  with assms show ?thesis
    by (auto simp: world_sound_def zones_ok_def placed_def find_reclaim split: if_splits)
      (simp_all add: FindSector_def)
qed

text \<open>Registrations hold the objects that were held before and the one that is added.\<close>

lemma set_hm_assign: "set (hm_assign k v m) \<subseteq> insert (k, v) (set m)"
  by (induction m) auto

lemma held_assign:
  fixes w :: world
  shows "set (held_list (w\<lparr>zoneSectors := hm_assign zt s (zoneSectors w)\<rparr>)) \<subseteq> set (held_list w) \<union> set (concat (map snd s))"
  using set_hm_assign [of zt s "zoneSectors w"] by (fastforce simp: held_list_def)

lemma sector_objects_in: "set (sector_objects s k) \<subseteq> set (concat (map snd s))"
proof (cases "map_of s k")
  case (Some oids)
  then have "(k, oids) \<in> set s" by (rule map_of_SomeD)
  with Some show ?thesis by (force simp: sector_objects_def)
qed (simp add: sector_objects_def)

lemma Add_held:
  assumes "AddObjectToSector oid zt g w = Some w'"
  shows "set (held_list w') \<subseteq> insert oid (set (held_list w))"
proof -
  from assms obtain s where s: "FindSector w zt = Some s"
    and w': "w' = w \<or> w' = w\<lparr>zoneSectors := hm_assign zt
      (hm_assign (SectorId g) (set_add oid (sector_objects s (SectorId g))) s) (zoneSectors w)\<rparr>"
    by (auto simp: AddObjectToSector_def bind_eq_Some_conv Let_def split: if_splits)
  let ?s1 = "hm_assign (SectorId g) (set_add oid (sector_objects s (SectorId g))) s"
  have "set (concat (map snd ?s1)) \<subseteq> insert oid (set (sector_objects s (SectorId g))) \<union> set (concat (map snd s))"
    using set_hm_assign [of "SectorId g" "set_add oid (sector_objects s (SectorId g))" s] by fastforce
  also have "\<dots> \<subseteq> insert oid (set (held_list w))"
    using sector_objects_in [of s "SectorId g"] sector_list_held [OF s] by blast
  finally show ?thesis using w' held_assign [where w = w and zt = zt and s = ?s1] by blast
qed

lemma Remove_held:
  assumes "RemoveObjectToSector oid zt g w = Some w'"
  shows "set (held_list w') \<subseteq> set (held_list w)"
proof -
  from assms obtain s where s: "FindSector w zt = Some s"
    and w': "w' = w \<or> (\<exists>oids s1. map_of s (SectorId g) = Some oids \<and>
      s1 = (if removeAll oid oids = [] then hm_erase (SectorId g) s else hm_assign (SectorId g) (removeAll oid oids) s) \<and>
      w' = w\<lparr>zoneSectors := hm_assign zt s1 (zoneSectors w)\<rparr>)"
    by (auto simp: RemoveObjectToSector_def bind_eq_Some_conv Let_def split: if_splits option.splits)
  have "set (concat (map snd (hm_assign (SectorId g) (removeAll oid oids) s))) \<subseteq> set (held_list w)"
    if "map_of s (SectorId g) = Some oids" for oids
  proof -
    have "set (removeAll oid oids) \<subseteq> set (concat (map snd s))" using map_of_SomeD [OF that] by force
    then have "set (concat (map snd (hm_assign (SectorId g) (removeAll oid oids) s))) \<subseteq> set (concat (map snd s))"
      using set_hm_assign [of "SectorId g" "removeAll oid oids" s] by fastforce
    with sector_list_held [OF s] show ?thesis by blast
  qed
  moreover have "set (concat (map snd (hm_erase (SectorId g) s))) \<subseteq> set (held_list w)"
  proof -
    have "set (hm_erase (SectorId g) s) \<subseteq> set s" by (auto simp: AList.delete_eq)
    then have "set (concat (map snd (hm_erase (SectorId g) s))) \<subseteq> set (concat (map snd s))" by auto
    with sector_list_held [OF s] show ?thesis by blast
  qed
  ultimately have s1: "set (concat (map snd s1)) \<subseteq> set (held_list w)"
    if "map_of s (SectorId g) = Some oids" and
      "s1 = (if removeAll oid oids = [] then hm_erase (SectorId g) s else hm_assign (SectorId g) (removeAll oid oids) s)"
    for oids s1 using that by (simp del: set_concat)
  from w' show ?thesis
  proof
    assume "\<exists>oids s1. map_of s (SectorId g) = Some oids \<and>
      s1 = (if removeAll oid oids = [] then hm_erase (SectorId g) s else hm_assign (SectorId g) (removeAll oid oids) s) \<and>
      w' = w\<lparr>zoneSectors := hm_assign zt s1 (zoneSectors w)\<rparr>"
    then obtain s2 where "set (concat (map snd s2)) \<subseteq> set (held_list w)" "w' = w\<lparr>zoneSectors := hm_assign zt s2 (zoneSectors w)\<rparr>"
      using s1 by blast
    then show ?thesis using held_assign [where w = w and zt = zt and s = s2] by blast
  qed simp
qed

lemma sector_step_sound:
  assumes "world_sound w" and "sector_step w w'" and "sectors_wf w'" and "set (held_list w') \<subseteq> alive w"
  shows "world_sound w'"
proof -
  note d = sector_stepD [OF assms(2)]
  have "heap_ok w' = heap_ok w" "alive w' = alive w" using d(2) by (simp_all add: heap_ok_def alive_def)
  moreover have "zones_ok w' = zones_ok w" "placed w' = placed w"
    using sector_step_zone [OF assms(2)] d by (simp_all add: zones_ok_def placed_def)
  ultimately show ?thesis using assms d(1,6) by (simp add: world_sound_def world_ok_def)
qed

lemma held_alive: "world_sound w \<Longrightarrow> set (held_list w) \<subseteq> alive w"
  by (simp add: world_sound_def world_ok_def)

lemma Add_sound:
  assumes "AddObjectToSector oid zt g w = Some w'" and "world_sound w" and "oid \<in> alive w"
  shows "world_sound w'"
proof (rule sector_step_sound [OF assms(2) AddObjectToSector_step [OF assms(1)]])
  show "sectors_wf w'" using Add_wf [OF assms(1)] assms(2) by (simp add: world_sound_def)
  show "set (held_list w') \<subseteq> alive w" using Add_held [OF assms(1)] held_alive [OF assms(2)] assms(3) by blast
qed

lemma Remove_sound:
  assumes "RemoveObjectToSector oid zt g w = Some w'" and "world_sound w"
  shows "world_sound w'"
proof (rule sector_step_sound [OF assms(2) RemoveObjectToSector_step [OF assms(1)]])
  show "sectors_wf w'" using Remove_wf [OF assms(1)] assms(2) by (simp add: world_sound_def)
  show "set (held_list w') \<subseteq> alive w" using Remove_held [OF assms(1)] held_alive [OF assms(2)] by blast
qed

lemma Add_total: "world_sound w \<Longrightarrow> zt \<in> known (mapData w) \<Longrightarrow> \<exists>w'. AddObjectToSector oid zt g w = Some w'"
  using zones_ok_known [of w] by (auto simp: AddObjectToSector_def world_sound_def Let_def)

lemma Remove_total: "world_sound w \<Longrightarrow> zt \<in> known (mapData w) \<Longrightarrow> \<exists>w'. RemoveObjectToSector oid zt g w = Some w'"
  using zones_ok_known [of w] by (auto simp: RemoveObjectToSector_def world_sound_def Let_def split: option.split)

text \<open>The two phases of a frame that change sectors neither crash nor break the world.\<close>

lemma delete_objs_sound:
  assumes "world_sound w" and "\<forall>(oid, zt, g) \<in> set ds. zt \<in> known (mapData w)"
  shows "\<exists>w'. delete_objs ds w = Some w' \<and> world_sound w'"
  using assms
proof (induction ds arbitrary: w)
  case (Cons d ds)
  obtain oid zt g where d: "d = (oid, zt, g)" by (cases d)
  then obtain w1 where w1: "RemoveObjectToSector oid zt g w = Some w1"
    using Remove_total [OF Cons.prems(1), of zt oid g] Cons.prems(2) by auto
  have "world_sound w1" by (rule Remove_sound [OF w1 Cons.prems(1)])
  moreover have "mapData w1 = mapData w" by (rule sector_stepD(1) [OF RemoveObjectToSector_step [OF w1]])
  ultimately have "\<exists>w'. delete_objs ds w1 = Some w' \<and> world_sound w'" using Cons.prems(2) by (intro Cons.IH) auto
  then show ?case using w1 d by auto
qed simp

lemma update_objs_sound:
  assumes "world_sound w" and "set oids \<subseteq> alive w"
  shows "\<exists>w'. update_objs oids w = Some w' \<and> world_sound w'"
  using assms
proof (induction oids arbitrary: w)
  case (Cons oid oids)
  then have live: "oid \<in> alive w" by simp
  then obtain p where p: "find_obj w oid = Some p" by (auto simp: alive_iff)
  have z: "objZone p \<in> known (mapData w)" "prevZoneType p \<in> known (mapData w)"
    using placedD [OF _ p] Cons.prems(1) by (auto simp: world_sound_def)
  obtain w1 where w1: "RemoveObjectToSector oid (prevZoneType p) (prevGridIndex p) w = Some w1"
    using Remove_total [OF Cons.prems(1) z(2)] by blast
  have s1: "world_sound w1" by (rule Remove_sound [OF w1 Cons.prems(1)])
  note d1 = sector_stepD [OF RemoveObjectToSector_step [OF w1]]
  obtain w2 where w2: "AddObjectToSector oid (objZone p) (gridIndex p) w1 = Some w2"
    using Add_total [OF s1] z(1) d1(1) by metis
  have a1: "alive w1 = alive w" using d1(2) by (simp add: alive_def)
  have s2: "world_sound w2" by (rule Add_sound [OF w2 s1]) (simp add: a1 live)
  have "alive w2 = alive w" using sector_stepD(2) [OF AddObjectToSector_step [OF w2]] d1(2) by (simp add: alive_def)
  then obtain w' where "update_objs oids w2 = Some w'" "world_sound w'" using Cons.IH [OF s2] Cons.prems(2) by auto
  with p w1 w2 show ?case by simp
qed simp

lemma DeleteObjSector_sound:
  assumes "world_sound w"
  shows "\<exists>w'. DeleteObjSector w = Some w' \<and> world_sound w'"
proof -
  have "heap_ok (w\<lparr>forceDeleteObjs := []\<rparr>) = heap_ok w" "alive (w\<lparr>forceDeleteObjs := []\<rparr>) = alive w"
    "held_list (w\<lparr>forceDeleteObjs := []\<rparr>) = held_list w"
    "FindSector (w\<lparr>forceDeleteObjs := []\<rparr>) = FindSector w" "find_obj (w\<lparr>forceDeleteObjs := []\<rparr>) = find_obj w"
    by (simp_all add: heap_ok_def alive_def held_list_def FindSector_def find_obj_def fun_eq_iff)
  then have "world_sound (w\<lparr>forceDeleteObjs := []\<rparr>)"
    using assms by (simp add: world_sound_def world_ok_def zones_ok_def placed_def)
  then show ?thesis unfolding DeleteObjSector_def
    using assms by (intro delete_objs_sound) (auto simp: world_sound_def)
qed

lemma UpdateSector_sound:
  assumes "world_sound w"
  shows "\<exists>w'. UpdateSector w = Some w' \<and> world_sound w'"
proof -
  have live: "set (sectorUpdateSet w) \<subseteq> alive w"
    using held_alive [OF assms] by (auto simp: held_list_def)
  have "world_sound (w\<lparr>sectorUpdateSet := []\<rparr>)"
    using assms by (rule sound_same) (auto simp: held_list_def)
  moreover have "set (filter (\<lambda>oid. needs_update (the (find_obj w oid))) (sectorUpdateSet w)) \<subseteq> alive (w\<lparr>sectorUpdateSet := []\<rparr>)"
    using live by (auto simp: alive_def)
  ultimately show ?thesis
    using live moved_objs_filter [of "sectorUpdateSet w" w] update_objs_sound by (fastforce simp: UpdateSector_def)
qed

lemma Clear_sound:
  assumes "world_sound w"
  shows "world_sound (ClearAllEmptySector w)"
proof -
  have c: "objs (ClearAllEmptySector w) = objs w" "mapData (ClearAllEmptySector w) = mapData w"
    "forceDeleteObjs (ClearAllEmptySector w) = forceDeleteObjs w"
    by (simp_all add: ClearAllEmptySector_def)
  then have "heap_ok (ClearAllEmptySector w) = heap_ok w" "alive (ClearAllEmptySector w) = alive w"
    "find_obj (ClearAllEmptySector w) = find_obj w"
    by (simp_all add: heap_ok_def alive_def find_obj_def fun_eq_iff)
  moreover have "set (held_list (ClearAllEmptySector w)) \<subseteq> set (held_list w)"
    by (fastforce simp: held_list_def ClearAllEmptySector_def)
  moreover have "zones_ok (ClearAllEmptySector w) = zones_ok w" by (auto simp: zones_ok_def c FindSector_Clear)
  ultimately show ?thesis using assms c wf_Clear [of w] by (auto simp: world_sound_def world_ok_def placed_def)
qed

lemma UpdatePlayerVisible_sound:
  assumes "UpdatePlayerVisible sids w = Some w'" and "world_sound w"
  shows "world_sound w'"
  using assms
proof (induction sids arbitrary: w)
  case (Cons sid sids)
  then obtain s where s: "map_of (netSessions w) sid = Some s" by (auto simp: bind_eq_Some_conv)
  consider "UpdatePlayerVisible sids w = Some w'"
    | vis oid w1 where "UpdateVision oid vis w = Some w1" "UpdatePlayerVisible sids w1 = Some w'"
    using Cons.prems(1) s by (auto simp: bind_eq_Some_conv split: option.splits if_splits)
  then show ?case
  proof cases
    case 1
    with Cons show ?thesis by blast
  next
    case 2
    have "heap_ok w" "placed w" using Cons.prems(2) by (simp_all add: world_sound_def world_ok_def)
    then have "keeps w w1" using UpdateVision_quiet [OF 2(1)] vision_zones UpdateVision_frame [OF _ 2(1)]
      by (auto simp: keeps_def)
    then have "world_sound w1" using Cons.prems(2) by (rule keeps_sound)
    with 2(2) show ?thesis by (rule Cons.IH)
  qed
qed simp

lemma frame_sound:
  assumes "SectorUpdateWorkerThread sids w = Some w'" and "world_sound w"
  shows "world_sound w'"
  using assms(1)
proof (cases rule: frame_cases)
  case (1 w1 w2)
  have "world_sound w1" using DeleteObjSector_sound [OF assms(2)] 1(1) by simp
  then have "world_sound w2" using UpdateSector_sound [OF reclaim_sound] 1(2) by fastforce
  then show ?thesis by (intro UpdatePlayerVisible_sound [OF 1(3)] Clear_sound reclaim_sound)
qed

lemma chat_sound:
  assumes "chat_turn t w = Some w'" and "world_sound w"
  shows "world_sound w'"
proof (cases "chatJobs w")
  case Nil
  with assms show ?thesis by (simp add: chat_turn_def)
next
  case (Cons j js)
  with assms(1) obtain w1 where w1: "run_chat_job t j w = Some w1" "w' = reclaim (w1\<lparr>chatJobs := js\<rparr>)"
    by (auto simp: chat_turn_def bind_eq_Some_conv)
  have so: "sends_only w w1" using w1(1)
    by (auto simp: run_chat_job_def bind_eq_Some_conv Let_def split: if_splits
        dest: SendBroadcastToZonePlayers_only SendBroadcastToVisiblePlayers_only)
  have s1: "world_sound w1" by (rule keeps_sound [OF keeps_sends [OF so] assms(2)])
  have "chatJobs w1 = chatJobs w" using so by (auto simp: sends_only_def)
  then have "world_sound (w1\<lparr>chatJobs := js\<rparr>)" using Cons by (intro sound_same [OF s1]) (auto simp: held_list_def)
  then show ?thesis unfolding w1(2) by (rule reclaim_sound)
qed

section \<open>The server as it runs\<close>

text \<open>The callbacks of the service keep the world sound, and so does everything that calls them.\<close>

interpretation ws: service_invariant "server_service os m" world_sound
proof unfold_locales
  fix s w s' w' p n
  show "OnConnected (server_service os m) s w = Some (s', w') \<Longrightarrow> world_sound w \<Longrightarrow> world_sound w'"
    by (auto simp: server_service_def server_OnConnected_def)
  show "OnDisconnected (server_service os m) s w = Some (s', w') \<Longrightarrow> world_sound w \<Longrightarrow> world_sound w'"
    by (simp add: server_service_def OnDisconnected_sound)
  show "OnRecv (server_service os m) p s w = Some (s', w') \<Longrightarrow> world_sound w \<Longrightarrow> world_sound w'"
    by (simp add: server_service_def OnRecv_sound)
  show "OnSend (server_service os m) n s w = Some (s', w') \<Longrightarrow> world_sound w \<Longrightarrow> world_sound w'"
    by (simp add: server_service_def server_OnSend_def)
qed

text \<open>
  What changes the world while the server runs: the completions of any session in any state, the
  heartbeat, closing, the frame thread, the chat worker, and the clock with the random source.
\<close>

inductive server_step :: "os_calls \<Rightarrow> server_messages \<Rightarrow> world \<Rightarrow> world \<Rightarrow> bool" for os m where
  opened: "Init os (server_service os m) now skt reg c = Some (ok, c') \<Longrightarrow> server_step os m (app c) (app c')"
| received: "OnRecvCompleted os (server_service os m) now n c = Some c' \<Longrightarrow> server_step os m (app c) (app c')"
| sent: "OnSendCompleted os (server_service os m) now k s w = Some (s', w') \<Longrightarrow> server_step os m w w'"
| closed: "Close (OnDisconnected (server_service os m)) s w = Some (s', w') \<Longrightarrow> server_step os m w w'"
| heartbeat: "OnHeartbeat (server_service os m) s w = Some (s', w') \<Longrightarrow> server_step os m w w'"
| frame: "SectorUpdateWorkerThread sids w = Some w' \<Longrightarrow> server_step os m w w'"
| chat: "chat_turn t w = Some w' \<Longrightarrow> server_step os m w w'"
| tick: "server_step os m w (w\<lparr>worldNow := t, worldMs := ms, rndSource := rnd\<rparr>)"

lemma server_step_sound: "server_step os m w w' \<Longrightarrow> world_sound w \<Longrightarrow> world_sound w'"
proof (induction rule: server_step.induct)
  case (heartbeat s w s' w')
  then show ?case
    using ws.heartbeat_inv [of os os m "\<lambda>w. ser_ping m (worldMs w)" s w s' w'] by (simp add: server_service_def)
next
  case (tick w t ms rnd)
  then show ?case by (rule sound_same) (auto simp: held_list_def)
qed (blast intro: ws.Init_inv ws.OnRecvCompleted_inv ws.OnSendCompleted_inv ws.Close_inv frame_sound chat_sound)+

lemma reach_sound: "(server_step os m)\<^sup>*\<^sup>* w w' \<Longrightarrow> world_sound w \<Longrightarrow> world_sound w'"
  by (induction rule: rtranclp_induct) (auto intro: server_step_sound)

text \<open>A server that has started: nothing is alive and every zone of the map has an empty sector.\<close>

lemma InitSectors_map:
  "map_of (InitSectors zs m) zt = (if zt \<in> zoneType ` set zs then Some [] else map_of m zt)"
  by (induction zs m rule: InitSectors.induct) (auto simp: map_of_hm_assign)

lemma start_sound:
  assumes "GameServer_start js zone0 fs = Some w" and "Town \<in> zoneType ` set (zones (mapData w))"
  shows "world_sound w"
proof -
  from assms(1) obtain md st where w: "w = world_empty\<lparr>mapData := md, worldZones := InitZones md (zones md) [],
      zoneSectors := InitSectors (zones md) [], playerStats := st\<rparr>"
    by (auto simp: GameServer_start_def world_Init_def bind_eq_Some_conv world_empty_def split: if_splits)
  have sector: "FindSector w zt = (if zt \<in> zoneType ` set (zones md) then Some [] else None)" for zt
    by (simp add: w FindSector_def InitSectors_map)
  have "(zt, s) \<in> set (InitSectors zs m) \<Longrightarrow> (\<forall>(zt, s) \<in> set m. s = []) \<Longrightarrow> s = []" for zt s zs m
  proof (induction zs m rule: InitSectors.induct)
    case (2 z zs m)
    have "\<forall>(zt, s) \<in> set (hm_assign (zoneType z) [] m). s = []"
      using 2(3) set_hm_assign [of "zoneType z" "[]" m] by fast
    with 2(1,2) show ?case by simp
  qed auto
  then have "held_list w = []" by (force simp: w held_list_def world_empty_def)
  moreover have "heap_ok w" "find_obj w x = None" for x by (simp_all add: w world_empty_def heap_ok_def find_obj_def)
  ultimately show ?thesis using assms(2)
    by (simp add: world_sound_def world_ok_def sectors_wf_def zones_ok_def placed_def sector)
      (simp add: w world_empty_def)
qed

lemma frame_total: "world_sound w \<Longrightarrow> \<exists>w'. SectorUpdateWorkerThread [] w = Some w'"
proof -
  assume w: "world_sound w"
  obtain w1 where "DeleteObjSector w = Some w1" "world_sound w1" using DeleteObjSector_sound [OF w] by blast
  moreover from UpdateSector_sound [OF reclaim_sound [OF this(2)]] obtain w2 where "UpdateSector (reclaim w1) = Some w2"
    by blast
  ultimately show ?thesis by (simp add: SectorUpdateWorkerThread_def)
qed


text \<open>A server that starts from a small document, and runs a frame.\<close>

definition start_api :: "demo_json json_api" where
  "start_api = demo_api\<lparr>js_Parse := (\<lambda>s. Some (DObject [(''gridSize'', DInt 100), (''gridX'', DInt 2), (''gridY'', DInt 2),
     (''zones'', DArray [DObject [(''zoneType'', DInt 0)]]), (''mapData'', DArray [DArray [DInt 1, DInt 1], DArray [DInt 1, DInt 1]]),
     (''playerTypes'', DArray [])]))\<rparr>"

definition start_map :: map_data where
  "start_map = map_zero\<lparr>gridSize := 100, gridX := 2, gridY := 2,
     zones := [demo_zone0\<lparr>zoneType := 0, zoneGridSize := 100\<rparr>], mapGrid := [[True, True], [True, True]]\<rparr>"

definition started :: world where
  "started = world_empty\<lparr>mapData := start_map, worldZones := InitZones start_map (zones start_map) [],
     zoneSectors := InitSectors (zones start_map) []\<rparr>"

lemma start_started: "GameServer_start start_api demo_zone0 (\<lambda>_. Some ''{}'') = Some started"
proof -
  have "LoadMapData start_api demo_zone0 (\<lambda>_. Some ''{}'') ''Data/MapData.json'' (mapData world_empty) = Some (True, start_map)"
    by (simp add: LoadMapData_def ReadFileToString_def ParseJSONDocument_def c_str_def start_api_def demo_api_def
        ParseMapData_def map_string_fields_def map_int_fields_def array_member_def
        ParseZones_def parse_zone_def ParseMapGrid_def resize_vec_def start_map_def demo_zone0_def
        world_empty_def map_zero_def numeral_2_eq_2)
  moreover have "stat_Init start_api (\<lambda>_. Some ''{}'') = Some []"
    by (simp add: stat_Init_def LoadPlayerStat_def ReadFileToString_def ParseJSONDocument_def c_str_def
        ParsePlayerStat_def start_api_def demo_api_def)
  ultimately show ?thesis
    by (simp add: GameServer_start_def world_Init_def started_def world_empty_def)
qed

lemma started_town: "Town \<in> zoneType ` set (zones (mapData started))"
  by (simp add: started_def start_map_def Town_def)


end
