(* ===== verification/World_Visits.thy ===== *)
theory World_Visits
  imports World_Reach
begin

text \<open>
  A visit to the game from both ends: who is told when a player enters and when it leaves, and that
  a player that has left is gone from every sector and from the heap after the next frame.
\<close>

section \<open>Queries in zones that exist\<close>

definition in_view :: "world \<Rightarrow> vec3d \<Rightarrow> bool \<Rightarrow> u64 list" where
  "in_view w position onlyPlayer = concat (map (\<lambda>zt.
     filter (shown w onlyPlayer (MakeGridIndex (mapData w) position) \<circ> obj w)
       (seen_ids w zt (MakeGridIndex (mapData w) position))) (GetVisibleZones (mapData w) position))"

lemma view_zones: "zones_ok w \<Longrightarrow> zt \<in> set (GetVisibleZones (mapData w) position) \<Longrightarrow> FindSector w zt \<noteq> None"
  using first_zone_ok [of w position] by (auto simp: GetVisibleZones_def Let_def zones_ok_def)

lemma visible_in_zones_eq:
  assumes "world_ok w" and "\<forall>zt \<in> set zts. FindSector w zt \<noteq> None"
  shows "visible_in_zones w zts position b = Some (concat (map (\<lambda>zt.
     filter (shown w b (MakeGridIndex (mapData w) position) \<circ> obj w)
       (seen_ids w zt (MakeGridIndex (mapData w) position))) zts))"
  using assms(2) by (induction zts) (simp_all add: visible_in_sector [OF assms(1)])

lemma GetVisible_eq:
  assumes "world_ok w" and "zones_ok w"
  shows "GetVisibleObjectsInSectors w position b = Some (in_view w position b)"
  unfolding GetVisibleObjectsInSectors_def in_view_def using view_zones [OF assms(2)]
  by (intro visible_in_zones_eq [OF assms(1)]) blast

lemma in_view_alive: "world_ok w \<Longrightarrow> set (in_view w position b) \<subseteq> alive w"
  using seen_ids_alive by (auto simp: in_view_def)

lemma in_view_shown:
  "x \<in> set (in_view w position b) \<Longrightarrow> shown w b (MakeGridIndex (mapData w) position) (obj w x)"
  by (auto simp: in_view_def)

lemma in_view_valid: "x \<in> set (in_view w position True) \<Longrightarrow> IsPlayer (obj w x) \<and> IsValid w (obj w x)"
  using in_view_shown by (fastforce simp: shown_def split: if_splits)

lemma in_viewI:
  assumes "zt \<in> set (GetVisibleZones (mapData w) position)" and "g = MakeGridIndex (mapData w) position"
    and "map_ok (mapData w)" and "IsValidGridIndex (mapData w) g" and "IsValidGridIndex (mapData w) (gridIndex (obj w x))"
    and "(zt, SectorId (gridIndex (obj w x))) \<in> cells w x" and "shown w b g (obj w x)"
  shows "x \<in> set (in_view w position b)"
proof -
  have "SectorId (gridIndex (obj w x)) \<in> set (GetVisibleSectorIds (mapData w) g)"
    using assms(3-5,7) by (intro visible_sector) (simp_all add: shown_def)
  then have "x \<in> set (seen_ids w zt g)" using assms(6) by (auto simp: seen_ids_def cells_def)
  with assms(1,2,7) show ?thesis by (auto simp: in_view_def)
qed

text \<open>An object that loses its session disappears from the view of the others, and nothing else does.\<close>

lemma in_view_hidden:
  assumes "mapData w' = mapData w" and "FindSector w' = FindSector w" and "session_closed w' = session_closed w"
    and "\<And>x. x \<noteq> oid \<Longrightarrow> find_obj w' x = find_obj w x" and "\<not> isValid (obj w' oid)"
  shows "in_view w' position True = filter (\<lambda>x. x \<noteq> oid) (in_view w position True)"
proof -
  have valid: "IsValid w' = IsValid w" using assms(3) by (simp add: IsValid_def fun_eq_iff split: option.split)
  then have "shown w' True g (obj w' x) \<longleftrightarrow> x \<noteq> oid \<and> shown w True g (obj w x)" for g x
    using assms(4) [of x] assms(5) by (cases "x = oid") (auto simp: shown_def IsValid_def)
  moreover have "seen_ids w' = seen_ids w" using assms(1,2) by (intro ext) (simp add: seen_ids_def split: option.split)
  ultimately show ?thesis using assms(1)
    by (simp add: in_view_def filter_concat o_def conj_commute)
qed

text \<open>Nobody is in view twice where objects are registered in their own cells.\<close>

lemma in_view_distinct:
  assumes "all_registered w" and "zones_ok w" and "distinct (map zoneType (zones (mapData w)))"
  shows "distinct (in_view w position b)"
  unfolding in_view_def
proof (rule distinct_concat_map)
  show "distinct (GetVisibleZones (mapData w) position)"
    using assms(3) by (auto simp: GetVisibleZones_def Let_def distinct_map inj_on_def)
  let ?f = "\<lambda>zt. filter (shown w b (MakeGridIndex (mapData w) position) \<circ> obj w)
    (seen_ids w zt (MakeGridIndex (mapData w) position))"
  show "distinct (?f zt)" for zt using seen_ids_distinct [OF assms(1)] by simp
  fix z z' x assume "z \<in> set (GetVisibleZones (mapData w) position)" "z' \<in> set (GetVisibleZones (mapData w) position)"
    and x: "x \<in> set (?f z)" "x \<in> set (?f z')"
  then obtain s s' where "FindSector w z = Some s" "FindSector w z' = Some s'" using view_zones [OF assms(2)] by blast
  with x obtain c c' where "(z, c) \<in> cells w x" "(z', c') \<in> cells w x" by (auto simp: seen_ids_cells)
  then show "z = z'" using registeredD(2) [OF assms(1)] by metis
qed

section \<open>Entering\<close>

text \<open>A query looks at registered objects only; other objects may change.\<close>

lemma seen_ids_held: "set (seen_ids w zt g) \<subseteq> set (held_list w)"
  using sector_objects_held [of w zt] by (cases "FindSector w zt") (auto simp: seen_ids_def)

lemma in_view_held: "set (in_view w position b) \<subseteq> set (held_list w)"
  using seen_ids_held by (auto simp: in_view_def)

lemma in_view_same:
  assumes "mapData w' = mapData w" and "FindSector w' = FindSector w" and "session_closed w' = session_closed w"
    and "\<And>x. x \<in> set (held_list w) \<Longrightarrow> find_obj w' x = find_obj w x"
  shows "in_view w' position b = in_view w position b"
proof -
  have valid: "IsValid w' = IsValid w" using assms(3) by (simp add: IsValid_def fun_eq_iff split: option.split)
  have seen: "seen_ids w' = seen_ids w" using assms(1,2) by (intro ext) (simp add: seen_ids_def split: option.split)
  have "shown w' b g (obj w' x) = shown w b g (obj w x)" if "x \<in> set (seen_ids w zt g')" for g g' zt x
  proof -
    have "find_obj w' x = find_obj w x" using that seen_ids_held by (blast intro: assms(4))
    then show ?thesis by (simp add: shown_def valid)
  qed
  then show ?thesis using assms(1) by (auto simp: in_view_def seen intro!: arg_cong [where f = concat] filter_cong)
qed

definition spawn_vec :: "int \<times> int \<times> rat \<Rightarrow> vec3d" where
  "spawn_vec rnd = (case rnd of (rx, ry, ryaw) \<Rightarrow> Vector3d (of_int rx) (of_int ry) 180 ryaw)"

lemma SendEnterGamePkt_tells:
  assumes p: "find_obj w oid = Some p" "objectId p = oid" and z: "FindZone w zt = Some zone"
    and s: "pl_session p = Some sid"
  shows "\<exists>w1 p1. SendEnterGamePkt rnd oid zt w = Some w1 \<and> find_obj w1 oid = Some p1 \<and> objectId p1 = oid \<and>
    pl_session p1 = Some sid \<and> visibleObjects p1 = visibleObjects p \<and> vectorPos p1 = spawn_vec rnd \<and>
    outbox w1 = outbox w @ [(sid, EnterGamePkt (MakeObjectInfo p1))] \<and> (\<forall>x. x \<noteq> oid \<longrightarrow> find_obj w1 x = find_obj w x)"
  using assms
  by (auto simp: SendEnterGamePkt_def Let_def SetWorldPosition_vec_def SetWorldPosition2_def InitStatInfo_def
      RequestSectorUpdate_def send_packet_def set_obj_def find_obj_def map_of_hm_assign spawn_vec_def
      GetRandomSpawnPosition_def split: prod.split)

lemma enter_seen_tells:
  assumes "heap_ok w" and "find_obj w oid = Some p" and "pl_session p = Some sid" and "\<not> session_closed w sid"
    and "set xs \<subseteq> alive w" and "oid \<notin> set xs" and "\<forall>x \<in> set xs. IsPlayer (obj w x)"
  shows "\<exists>w' vs. enter_seen oid xs w = Some w' \<and> find_obj w' oid = Some (p\<lparr>visibleObjects := vs\<rparr>) \<and>
    set vs = set (visibleObjects p) \<union> set xs \<and>
    outbox w' = outbox w @ map (\<lambda>x. (sid, SpawnPkt (MakeObjectInfo (obj w x)))) xs"
  using assms
proof (induction xs arbitrary: w p)
  case Nil
  then show ?case by (intro exI [of _ w] exI [of _ "visibleObjects p"]) simp
next
  case (Cons x xs)
  obtain q where q: "find_obj w x = Some q" using Cons.prems(5) by (auto simp: alive_iff)
  have ids: "objectId q = x" "objectId p = oid"
    using find_objectId [OF Cons.prems(1)] q Cons.prems(2) by simp_all
  let ?p = "p\<lparr>visibleObjects := set_add x (visibleObjects p)\<rparr>"
  let ?w = "(set_obj ?p w)\<lparr>outbox := outbox w @ [(sid, SpawnPkt (MakeObjectInfo q))]\<rparr>"
  have closed: "session_closed (set_obj ?p w) = session_closed w"
    by (simp add: session_closed_def set_obj_def fun_eq_iff)
  have find: "find_obj ?w y = (if y = oid then Some ?p else find_obj w y)" for y by (simp add: world_simps ids)
  have "SendUnicast p (SpawnPkt (MakeObjectInfo q)) (set_obj ?p w) = ?w"
    using Cons.prems(3,4) closed by (simp add: SendUnicast_eq unicast_def set_obj_def)
  then have run: "enter_seen oid (x # xs) w = enter_seen oid xs ?w"
    using q ids Cons.prems(2,6,7) by (auto simp: Let_def)
  have "\<exists>w' vs. enter_seen oid xs ?w = Some w' \<and> find_obj w' oid = Some (?p\<lparr>visibleObjects := vs\<rparr>) \<and>
      set vs = set (visibleObjects ?p) \<union> set xs \<and>
      outbox w' = outbox ?w @ map (\<lambda>x. (sid, SpawnPkt (MakeObjectInfo (obj ?w x)))) xs"
  proof (rule Cons.IH)
    show "heap_ok ?w" using heap_ok_set_obj [OF Cons.prems(1)] by simp
    show "set xs \<subseteq> alive ?w" using Cons.prems(5) by (auto simp: alive_set_obj)
    show "\<forall>y \<in> set xs. IsPlayer (obj ?w y)"
    proof
      fix y assume "y \<in> set xs"
      with Cons.prems(6,7) have "y \<noteq> oid" "IsPlayer (obj w y)" by auto
      then show "IsPlayer (obj ?w y)" unfolding find by simp
    qed
  qed (use Cons.prems closed find in auto)
  moreover have "map (\<lambda>x. (sid, SpawnPkt (MakeObjectInfo (obj ?w x)))) xs = map (\<lambda>x. (sid, SpawnPkt (MakeObjectInfo (obj w x)))) xs"
  proof -
    have "obj ?w y = obj w y" if "y \<in> set xs" for y using that Cons.prems(6) unfolding find by auto
    then show ?thesis by simp
  qed
  ultimately show ?case unfolding run using q by auto
qed

text \<open>The broadcast of the newcomer, then the loop over the objects in view.\<close>

lemma greetings:
  assumes "heap_ok w" and "find_obj w oid = Some p" and "pl_session p = Some sid" and "\<not> session_closed w sid"
    and "set ids \<subseteq> alive w" and "oid \<notin> set ids" and "\<forall>x \<in> set ids. IsPlayer (obj w x) \<and> IsValid w (obj w x)"
    and "- 1 \<notin> alive w"
  shows "\<exists>v w' vs. SendBroadcast ids (SpawnPkt (MakeObjectInfo p)) (- 1) w = Some v \<and> find_obj v oid = Some p \<and>
    enter_seen oid ids v = Some w' \<and> find_obj w' oid = Some (p\<lparr>visibleObjects := vs\<rparr>) \<and>
    set vs = set (visibleObjects p) \<union> set ids \<and>
    outbox w' = outbox w @ map (\<lambda>x. (the (pl_session (obj w x)), SpawnPkt (MakeObjectInfo p))) ids @
      map (\<lambda>x. (sid, SpawnPkt (MakeObjectInfo (obj w x)))) ids"
proof -
  let ?v = "w\<lparr>outbox := outbox w @ map (\<lambda>x. (the (pl_session (obj w x)), SpawnPkt (MakeObjectInfo p))) ids\<rparr>"
  have "SendBroadcast ids (SpawnPkt (MakeObjectInfo p)) (- 1) w = Some ?v"
    using assms(7) by (intro broadcast_valid [OF assms(1,5,8)]) blast
  moreover have "heap_ok ?v" "find_obj ?v oid = Some p" "\<not> session_closed ?v sid" "set ids \<subseteq> alive ?v"
    "\<forall>x \<in> set ids. IsPlayer (obj ?v x)"
    using assms by simp_all
  from enter_seen_tells [OF this(1,2) assms(3) this(3,4) assms(6) this(5)] obtain w' vs where
    "enter_seen oid ids ?v = Some w'" "find_obj w' oid = Some (p\<lparr>visibleObjects := vs\<rparr>)"
    "set vs = set (visibleObjects p) \<union> set ids"
    "outbox w' = outbox ?v @ map (\<lambda>x. (sid, SpawnPkt (MakeObjectInfo (obj ?v x)))) ids" by blast
  ultimately show ?thesis using assms(2) by (intro exI [of _ ?v] exI [of _ w'] exI [of _ vs]) simp
qed

lemma EnterGame_tells:
  assumes ok: "world_ok w" "zones_ok w" and p: "find_obj w oid = Some p" and z: "FindZone w zt \<noteq> None"
    and s: "pl_session p = Some sid" "\<not> session_closed w sid" and new: "oid \<notin> set (held_list w)" "- 1 \<notin> alive w"
    and players: "\<And>x. x \<in> set (held_list w) \<Longrightarrow> IsPlayer (obj w x)"
  shows "\<exists>w' p'. EnterGame rnd oid zt w = Some w' \<and> find_obj w' oid = Some p' \<and> isEntered p' \<and> vectorPos p' = spawn_vec rnd \<and>
    set (visibleObjects p') = set (visibleObjects p) \<union> set (in_view w (vectorPos p') False) \<and>
    outbox w' = outbox w @ (sid, EnterGamePkt (MakeObjectInfo p')) #
      map (\<lambda>x. (the (pl_session (obj w x)), SpawnPkt (MakeObjectInfo p'))) (in_view w (vectorPos p') False) @
      map (\<lambda>x. (sid, SpawnPkt (MakeObjectInfo (obj w x)))) (in_view w (vectorPos p') False)"
proof -
  have id: "objectId p = oid" using ok(1) p by (auto simp: world_ok_def intro: find_objectId)
  from z obtain zone where zone: "FindZone w zt = Some zone" by blast
  from SendEnterGamePkt_tells [OF p id zone s(1), of rnd] obtain w1 p1 where
    1: "SendEnterGamePkt rnd oid zt w = Some w1" "find_obj w1 oid = Some p1" "objectId p1 = oid" "pl_session p1 = Some sid"
      "visibleObjects p1 = visibleObjects p" "vectorPos p1 = spawn_vec rnd" "outbox w1 = outbox w @ [(sid, EnterGamePkt (MakeObjectInfo p1))]"
      "\<And>x. x \<noteq> oid \<Longrightarrow> find_obj w1 x = find_obj w x" by blast
  have q: "quiet_step w w1" by (rule SendEnterGamePkt_quiet [OF 1(1)])
  then have fr: "world_frame w w1" by (simp add: quiet_step_def)
  have ok1: "world_ok w1" "zones_ok w1" using quiet_world_ok [OF q ok(1)] ok(2)
    by (simp_all add: zones_ok_def FindSector_frame [OF fr] world_frameD(1) [OF fr])
  have closed: "session_closed w1 = session_closed w" using world_frameD(7) [OF fr]
    by (simp add: session_closed_def fun_eq_iff)
  let ?ids = "in_view w (vectorPos p1) False"
  have view: "in_view w1 (vectorPos p1) False = ?ids"
    using new(1) by (intro in_view_same closed FindSector_frame [OF fr] world_frameD(1) [OF fr] 1(8)) blast
  have here: "x \<noteq> oid" "IsPlayer (obj w x)" "obj w1 x = obj w x" if "x \<in> set ?ids" for x
    using that in_view_held new(1) players 1(8) by fastforce+
  have ids: "set ?ids \<subseteq> alive w1" using in_view_alive [OF ok1(1)] view by metis
  have valid: "\<forall>x \<in> set ?ids. IsPlayer (obj w1 x) \<and> IsValid w1 (obj w1 x)" "oid \<notin> set ?ids"
    using in_view_shown [of _ w1 "vectorPos p1" False] here by (auto simp: view shown_def)
  have heap1: "heap_ok w1" "- 1 \<notin> alive w1" "\<not> session_closed w1 sid"
    using ok1(1) q ok(1) new(2) s(2) closed by (simp_all add: world_ok_def quiet_step_def)
  from greetings [OF heap1(1) 1(2,4) heap1(3) ids valid(2,1) heap1(2)] obtain v w3 vs where
    2: "SendBroadcast ?ids (SpawnPkt (MakeObjectInfo p1)) (- 1) w1 = Some v" and
    3: "enter_seen oid ?ids v = Some w3" "find_obj w3 oid = Some (p1\<lparr>visibleObjects := vs\<rparr>)"
      "set vs = set (visibleObjects p) \<union> set ?ids"
      "outbox w3 = outbox w1 @ map (\<lambda>x. (the (pl_session (obj w1 x)), SpawnPkt (MakeObjectInfo p1))) ?ids @
        map (\<lambda>x. (sid, SpawnPkt (MakeObjectInfo (obj w1 x)))) ?ids"
      "find_obj v oid = Some p1" using 1(5) by auto
  let ?p = "p1\<lparr>visibleObjects := vs, isEntered := True\<rparr>"
  have run: "EnterGame rnd oid zt w = Some (set_obj ?p w3)"
    using 1(1,2) 2 3(1,2,5) GetVisible_eq [OF ok1, of "vectorPos p1" False] view by (simp add: EnterGame_def)
  have "outbox (set_obj ?p w3) = outbox w @ (sid, EnterGamePkt (MakeObjectInfo p1)) #
      map (\<lambda>x. (the (pl_session (obj w x)), SpawnPkt (MakeObjectInfo p1))) ?ids @
      map (\<lambda>x. (sid, SpawnPkt (MakeObjectInfo (obj w x)))) ?ids"
    using 3(4) 1(7) here(3) by (simp add: set_obj_def)
  moreover have "MakeObjectInfo ?p = MakeObjectInfo p1" "vectorPos ?p = vectorPos p1" by (simp_all add: MakeObjectInfo_def)
  moreover have "find_obj (set_obj ?p w3) oid = Some ?p" using 1(3) by (simp add: world_simps)
  ultimately show ?thesis using run 3(3) 1(6) by (intro exI [of _ "set_obj ?p w3"] exI [of _ ?p]) simp
qed

text \<open>The world in which EnterGame runs: the new object is on the heap, the session points at it.\<close>

lemma entering_world:
  assumes ok: "world_ok w" "zones_ok w" and s: "net_session w sid = Some s" "\<not> isClosed s"
    and v: "v = put_session (SetPlayer (objectId p) s) (set_obj p (w\<lparr>nextObjectId := n\<rparr>))"
  shows "world_ok v" "zones_ok v" "held_list v = held_list w" "alive v = insert (objectId p) (alive w)"
    "find_obj v x = (if x = objectId p then Some p else find_obj w x)" "session_closed v = session_closed w"
    "FindSector v = FindSector w" "mapData v = mapData w" "FindZone v = FindZone w" "outbox v = outbox w"
    "\<not> session_closed w sid"
proof -
  show find: "find_obj v x = (if x = objectId p then Some p else find_obj w x)" for x
    by (simp add: v find_obj_def put_session_def set_obj_def map_of_hm_assign)
  have sess: "map_of (netSessions w) sid = Some s" "sessionID s = sid"
    using s(1) by (auto simp: net_session_def split: option.splits if_splits)
  with s(2) show "session_closed v = session_closed w" "\<not> session_closed w sid"
    by (auto simp: v session_closed_def put_session_def set_obj_def map_of_hm_assign SetPlayer_def fun_eq_iff)
  have "heap_ok (w\<lparr>nextObjectId := n\<rparr>)" using ok(1) by (simp add: world_ok_def heap_ok_def)
  from heap_ok_set_obj [OF this] have "heap_ok v" by (simp add: v heap_ok_def put_session_def)
  moreover show al: "alive v = insert (objectId p) (alive w)" by (auto simp: alive_iff find split: if_splits)
  moreover show hl: "held_list v = held_list w" by (simp add: v)
  ultimately show "world_ok v" using ok(1) by (auto simp: world_ok_def)
  show sec: "FindSector v = FindSector w" "mapData v = mapData w" "FindZone v = FindZone w" "outbox v = outbox w"
    by (simp_all add: v FindSector_def FindZone_def put_session_def set_obj_def fun_eq_iff)
  show "zones_ok v" using ok(2) by (simp add: zones_ok_def sec)
qed


text \<open>A second client enters beside the player of the small world.\<close>

definition second_world :: world where
  "second_world = small_world\<lparr>netSessions := [(7, small_session), (8, PreInit 10 0 (Session 8 0))], rndSource := (50, 50, 0)\<rparr>"

lemma second_fields [simp]:
  "mapData second_world = small_map" "FindSector second_world = FindSector small_world"
  "find_obj second_world = find_obj small_world" "nextObjectId second_world = 2" "alive second_world = {1}"
  "rndSource second_world = (50, 50, 0)" "outbox second_world = []" "held_list second_world = [1]"
  by (simp_all add: second_world_def FindSector_def find_obj_def fun_eq_iff alive_def held_list_def)
    (simp_all add: small_world_def world_empty_def)

lemma small_known: "known small_map = {Town}"
proof -
  have "zoneType ` set (zones small_map) = {Town}" by (simp add: small_map_def)
  then show ?thesis by (simp add: known_def)
qed

lemma small_find: "find_obj small_world x = (if x = 1 then Some small_player else None)"
  by (simp add: find_obj_def)

lemma second_sound: "world_sound second_world"
proof -
  have "heap_ok second_world" by (simp add: second_world_def heap_ok_def)
  moreover have "placed second_world" by (simp add: placed_def small_find small_known)
  moreover have "forceDeleteObjs second_world = []" by (simp add: second_world_def)
  ultimately show ?thesis
    by (simp add: world_sound_def world_ok_def zones_ok_known small_known small_sector sectors_wf_def)
qed


section \<open>Leaving\<close>

lemma leave_notify_eq:
  assumes "set xs \<subseteq> alive w" and "\<forall>x \<in> set xs. IsValid w (obj w x)"
  shows "leave_notify xs pkt w = Some (w\<lparr>outbox := outbox w @ map (\<lambda>x. (the (pl_session (obj w x)), pkt)) xs\<rparr>)"
  using assms
proof (induction xs arbitrary: w)
  case (Cons x xs)
  obtain p where p: "find_obj w x = Some p" using Cons.prems(1) by (auto simp: alive_iff)
  then have v: "IsValid w p" using Cons.prems(2) by simp
  then obtain sid where "pl_session p = Some sid" by (auto simp: IsValid_def split: option.splits)
  with v have s: "GetSession w p = Some sid" "pl_session p = Some sid" by (simp_all add: GetSession_def)
  let ?w = "w\<lparr>outbox := outbox w @ [(sid, pkt)]\<rparr>"
  have "IsValid ?w q = IsValid w q" for q by (simp add: IsValid_def split: option.split)
  then have "leave_notify xs pkt ?w =
      Some (?w\<lparr>outbox := outbox ?w @ map (\<lambda>x. (the (pl_session (obj ?w x)), pkt)) xs\<rparr>)"
    using Cons.prems by (intro Cons.IH) auto
  then show ?case using p s by (simp add: send_packet_def)
qed simp

text \<open>Whom the callback tells.\<close>

lemma disconnect_tells:
  assumes "world_sound w" and p: "find_obj w oid = Some p" and s: "playerClass s = Some oid"
  shows "\<exists>s1 w1. server_OnDisconnected s w = Some (s1, w1) \<and> mapData w1 = mapData w \<and>
    zoneSectors w1 = zoneSectors w \<and> chatJobs w1 = chatJobs w \<and>
    outbox w1 = outbox w @ map (\<lambda>x. (the (pl_session (obj w x)), DespawnPkt oid))
      (filter (\<lambda>x. x \<noteq> oid) (in_view (put_session s w) (vectorPos p) True))"
proof -
  have ok: "world_ok w" "zones_ok w" using assms(1) by (simp_all add: world_sound_def)
  have id: "objectId p = oid" using ok(1) p by (auto simp: world_ok_def intro: find_objectId)
  let ?v = "put_session s w"
  let ?u = "put_session (DetachPlayer s) (DetachSession p ?v)"
  let ?w = "RequestSectorDelete oid (objZone p) (gridIndex p) ?u"
  have find: "find_obj ?w x = (if x = oid then Some (p\<lparr>isValid := False, pl_session := None\<rparr>) else find_obj w x)" for x
    using id by (simp add: find_obj_def RequestSectorDelete_def DetachSession_def put_session_def set_obj_def map_of_hm_assign)
  have same: "mapData ?w = mapData ?v" "FindSector ?w = FindSector ?v"
    by (simp_all add: FindSector_def fun_eq_iff RequestSectorDelete_def DetachSession_def put_session_def set_obj_def)
  have f0: "find_obj ?v = find_obj w" by (simp add: find_obj_def fun_eq_iff put_session_def)
  have closed: "session_closed ?w = session_closed ?v"
    by (simp add: session_closed_def fun_eq_iff RequestSectorDelete_def DetachSession_def put_session_def set_obj_def
        map_of_hm_assign DetachPlayer_def)
  let ?ids = "filter (\<lambda>x. x \<noteq> oid) (in_view ?v (vectorPos p) True)"
  have view: "in_view ?w (vectorPos p) True = ?ids"
    by (rule in_view_hidden [OF same closed]) (simp_all add: find f0)
  have "objZone p \<in> known (mapData ?u)" using assms(1) placedD [OF _ p]
    by (simp add: world_sound_def put_session_def DetachSession_def set_obj_def)
  then have "world_sound ?w" by (intro RequestSectorDelete_sound Detach_sound [OF p assms(1)])
  then have okw: "world_ok ?w" "zones_ok ?w" by (simp_all add: world_sound_def)
  have told: "set ?ids \<subseteq> alive ?w" "\<forall>x \<in> set ?ids. IsValid ?w (obj ?w x)"
    using in_view_alive [OF okw(1)] in_view_valid view by metis+
  let ?out = "map (\<lambda>x. (the (pl_session (obj ?w x)), DespawnPkt oid)) ?ids"
  have "server_OnDisconnected s w = Some (DetachPlayer s, ?w\<lparr>outbox := outbox ?w @ ?out\<rparr>)"
    using s p id f0 GetVisible_eq [OF okw, of "vectorPos p" True] leave_notify_eq [OF told, of "DespawnPkt oid"] view
    by (simp add: server_OnDisconnected_def LeaveGame_def Let_def GetAllObjectPosition_def)
  moreover have "?out = map (\<lambda>x. (the (pl_session (obj w x)), DespawnPkt oid)) ?ids" by (simp add: find)
  ultimately show ?thesis
    by (intro exI [of _ "DetachPlayer s"] exI [of _ "?w\<lparr>outbox := outbox ?w @ ?out\<rparr>"])
      (simp add: RequestSectorDelete_def DetachSession_def put_session_def set_obj_def)
qed

section \<open>The frame after a departure\<close>

lemma Remove_cells_le:
  assumes "RemoveObjectToSector oid zt g w = Some w'"
  shows "cells w' x \<subseteq> cells w x"
proof (cases "cell_usable w (zt, g)")
  case True
  show ?thesis by (simp add: Remove_cells [OF True assms])
next
  case False
  with assms show ?thesis by (auto simp: RemoveObjectToSector_def cell_usable_def bind_eq_Some_conv)
qed

text \<open>Deletions only take registrations away, and every cell that is asked for is taken.\<close>

lemma delete_objs_gone:
  assumes "delete_objs ds w = Some w'"
  shows "cells w' x \<subseteq> cells w x" and "(oid, zt, g) \<in> set ds \<Longrightarrow> cell_usable w (zt, g) \<Longrightarrow> (zt, SectorId g) \<notin> cells w' oid"
    and "sector_step w w'" and "sectors_wf w \<Longrightarrow> sectors_wf w'"
    and "distinct (map fst (zoneSectors w)) \<Longrightarrow> distinct (map fst (zoneSectors w'))"
proof -
  have "(\<forall>x. cells w' x \<subseteq> cells w x) \<and> sector_step w w' \<and> (sectors_wf w \<longrightarrow> sectors_wf w') \<and>
    (distinct (map fst (zoneSectors w)) \<longrightarrow> distinct (map fst (zoneSectors w'))) \<and>
    (\<forall>oid zt g. (oid, zt, g) \<in> set ds \<longrightarrow> cell_usable w (zt, g) \<longrightarrow> (zt, SectorId g) \<notin> cells w' oid)"
    using assms
  proof (induction ds arbitrary: w)
    case (Cons d ds)
    obtain ob z c where d: "d = (ob, z, c)" by (cases d)
    with Cons.prems obtain w1 where r: "RemoveObjectToSector ob z c w = Some w1" "delete_objs ds w1 = Some w'"
      by (auto simp: bind_eq_Some_conv)
    note st = RemoveObjectToSector_step [OF r(1)]
    note ih = Cons.IH [OF r(2)]
    have le: "cells w' x \<subseteq> cells w x" for x using ih Remove_cells_le [OF r(1)] by blast
    have dist: "distinct (map fst (zoneSectors w)) \<longrightarrow> distinct (map fst (zoneSectors w1))" using r(1)
      by (auto simp: RemoveObjectToSector_def bind_eq_Some_conv Let_def intro: distinct_update split: if_splits option.splits)
    have here: "(z, SectorId c) \<notin> cells w' ob" if "cell_usable w (z, c)"
      using Remove_cells [OF that r(1), of ob] ih by auto
    have "sector_step w w'" using st ih by (blast intro: sector_step_trans)
    with le dist here ih Remove_wf [OF r(1)] show ?case by (auto simp: d sector_step_usable [OF st])
  qed simp
  then show "cells w' x \<subseteq> cells w x" and "sector_step w w'" and "sectors_wf w \<Longrightarrow> sectors_wf w'"
    and "distinct (map fst (zoneSectors w)) \<Longrightarrow> distinct (map fst (zoneSectors w'))"
    and "(oid, zt, g) \<in> set ds \<Longrightarrow> cell_usable w (zt, g) \<Longrightarrow> (zt, SectorId g) \<notin> cells w' oid"
    by blast+
qed

text \<open>Without duplicate keys the sectors hold exactly the registered objects.\<close>

lemma held_cells:
  assumes "sectors_wf w" and "distinct (map fst (zoneSectors w))" and "cells w x = {}"
  shows "x \<notin> set (concat (map (concat \<circ> map snd \<circ> snd) (zoneSectors w)))"
proof
  assume "x \<in> set (concat (map (concat \<circ> map snd \<circ> snd) (zoneSectors w)))"
  then obtain zt s sid oids where e: "(zt, s) \<in> set (zoneSectors w)" "(sid, oids) \<in> set s" "x \<in> set oids" by auto
  have "FindSector w zt = Some s" using map_of_is_SomeI [OF assms(2) e(1)] by (simp add: FindSector_def)
  moreover from this have "sector_objects s sid = oids"
    using assms(1) e(2) map_of_is_SomeI [of s sid oids] by (simp add: sectors_wf_def sector_objects_def)
  ultimately have "(zt, sid) \<in> cells w x" using e(3) by (simp add: cells_def)
  with assms(3) show False by simp
qed

lemma find_objs: "objs w' = objs w \<Longrightarrow> find_obj w' x = find_obj w x"
  by (simp add: find_obj_def)

lemma update_objs_objs: "update_objs oids w = Some w' \<Longrightarrow> objs w' = objs w"
proof (induction oids arbitrary: w)
  case (Cons oid oids)
  then obtain p :: player and w1 w2 where "RemoveObjectToSector oid (prevZoneType p) (prevGridIndex p) w = Some w1"
    "AddObjectToSector oid (objZone p) (gridIndex p) w1 = Some w2" "update_objs oids w2 = Some w'"
    by (auto simp: bind_eq_Some_conv)
  then show ?case
    using Cons.IH sector_stepD(2) [OF RemoveObjectToSector_step] sector_stepD(2) [OF AddObjectToSector_step] by metis
qed simp

lemma UpdateSector_objs: "UpdateSector w = Some w' \<Longrightarrow> objs w' = objs w"
  by (auto simp: UpdateSector_def bind_eq_Some_conv dest: update_objs_objs)

text \<open>The frame carries a requested departure out, and frees the object if nothing else holds it.\<close>

lemma frame_departs:
  assumes sound: "world_sound w" and keys: "distinct (map fst (zoneSectors w))"
    and req: "(oid, c) \<in> set (forceDeleteObjs w)" and reg: "cell_usable w c" "cells w oid \<subseteq> {cell_key c}"
    and only: "oid \<notin> set (sectorUpdateSet w)" "oid \<notin> chat_self ` set (chatJobs w)"
    and run: "SectorUpdateWorkerThread sids w = Some w'"
  shows "find_obj w' oid = None" and "cells w' oid = {}"
proof -
  from run obtain w1 w2 where f: "DeleteObjSector w = Some w1" "UpdateSector (reclaim w1) = Some w2"
    "UpdatePlayerVisible sids (ClearAllEmptySector (reclaim w2)) = Some w'" by (rule frame_cases)
  let ?w = "w\<lparr>forceDeleteObjs := []\<rparr>"
  have del: "delete_objs (forceDeleteObjs w) ?w = Some w1" using f(1) by (simp add: DeleteObjSector_def)
  have same: "cells ?w oid = cells w oid" "cell_usable ?w c = cell_usable w c" "sectors_wf ?w"
    using sound by (simp_all add: world_sound_def)
  note gone = delete_objs_gone [OF del]
  have "cell_key c \<notin> cells w1 oid" using gone(2) [of oid "fst c" "snd c"] req reg(1) same(2) by (simp add: cell_key_def)
  then have none: "cells w1 oid = {}" using gone(1) [of oid] reg(2) same(1) by auto
  note st = sector_stepD [OF gone(3)]
  have "oid \<notin> set (held_list w1)"
    using held_cells [OF gone(4) [OF same(3)] _ none] gone(5) keys only st(3,5)
    by (auto simp: held_list_def)
  then have r: "find_obj (reclaim w1) oid = None" by (simp add: find_reclaim)
  have s1: "world_sound w1" using DeleteObjSector_sound [OF sound] f(1) by simp
  then have s2: "world_sound w2" using UpdateSector_sound [OF reclaim_sound [OF s1]] f(2) by simp
  have "objs w2 = objs (reclaim w1)" by (rule UpdateSector_objs [OF f(2)])
  then have "find_obj w2 oid = None" using r find_objs by metis
  then have v: "find_obj (ClearAllEmptySector (reclaim w2)) oid = None" by (simp add: find_reclaim)
  have "heap_ok (ClearAllEmptySector (reclaim w2))"
    using Clear_sound [OF reclaim_sound [OF s2]] by (simp add: world_sound_def world_ok_def)
  then have "vision_frame (ClearAllEmptySector (reclaim w2)) w'" using UpdatePlayerVisible_frame f(3) by blast
  then have "map_option (visibleObjects_update (\<lambda>_. [])) (find_obj w' oid) = None"
    using v unfolding vision_frame_def by (simp only: option.map)
  then show n: "find_obj w' oid = None" by simp
  have "world_sound w'" by (rule frame_sound [OF run sound])
  then have "set (held_list w') \<subseteq> alive w'" by (rule held_alive)
  moreover have "oid \<notin> alive w'" using n by (simp add: alive_iff)
  ultimately show "cells w' oid = {}" using cells_held [of w' oid] by blast
qed

text \<open>C16: When the session of a player closes and no request or chat job of the player is pending, the
  server's callback detaches the session and sends one despawn packet for the player to each player
  that the vision query at its position gives, except to itself, and none to anybody else. The frame after
  that does not crash; it takes the player out of every sector and frees it, so no later query,
  broadcast or frame meets it.\<close>

theorem leave_clean:
  assumes "world_sound w" and "distinct (map fst (zoneSectors w))"
    and "find_obj w oid = Some p" and "playerClass s = Some oid"
    and "cells w oid \<subseteq> {cell_key (cur_cell p)}" and "cell_usable w (cur_cell p)"
    and "oid \<notin> set (sectorUpdateSet w)" and "oid \<notin> chat_self ` set (chatJobs w)"
  shows "\<exists>s1 w1 ids. server_OnDisconnected s w = Some (s1, w1) \<and> playerClass s1 = None \<and>
    GetVisibleObjectsInSectors (put_session s w) (vectorPos p) True = Some ids \<and>
    outbox w1 = outbox w @ map (\<lambda>x. (the (pl_session (obj w x)), DespawnPkt oid)) (filter (\<lambda>x. x \<noteq> oid) ids) \<and>
    (\<exists>w2. SectorUpdateWorkerThread [] w1 = Some w2) \<and>
    (\<forall>sids w2. SectorUpdateWorkerThread sids w1 = Some w2 \<longrightarrow> find_obj w2 oid = None \<and> cells w2 oid = {})"
proof -
  have heap: "heap_ok w" using assms(1) by (simp add: world_sound_def world_ok_def)
  from disconnect_tells [OF assms(1,3,4)] obtain s1 w1 where
    d: "server_OnDisconnected s w = Some (s1, w1)" "zoneSectors w1 = zoneSectors w" "chatJobs w1 = chatJobs w"
      "outbox w1 = outbox w @ map (\<lambda>x. (the (pl_session (obj w x)), DespawnPkt oid))
        (filter (\<lambda>x. x \<noteq> oid) (in_view (put_session s w) (vectorPos p) True))" by blast
  note dp = disconnected_player [OF d(1) assms(4) heap assms(3)]
  have s1: "world_sound w1" by (rule OnDisconnected_sound [OF d(1) assms(1)])
  have s0: "world_ok (put_session s w)" "zones_ok (put_session s w)"
    using assms(1) sound_put_session [of s w] unfolding world_sound_def by blast+
  have "find_obj w2 oid = None \<and> cells w2 oid = {}" if "SectorUpdateWorkerThread sids w1 = Some w2" for sids w2
    using frame_departs [OF s1 _ _ _ _ _ _ that, of oid "cur_cell p"] assms d(2,3) dp(3,4,6,7) by simp
  with d(1,4) dp(1) frame_total [OF s1] GetVisible_eq [OF s0, of "vectorPos p" True] show ?thesis by blast
qed

text \<open>Two players in one cell; the first one leaves.\<close>

definition pair_player :: player where
  "pair_player = small_player\<lparr>objectId := 2, pl_session := Some 8\<rparr>"

definition pair_world :: world where
  "pair_world = small_world\<lparr>zoneSectors := [(Town, [(0, [1, 2])])], objs := [(1, small_player), (2, pair_player)],
     netSessions := [(7, small_session), (8, SetPlayer 2 (PreInit 10 0 (Session 8 0)))]\<rparr>"

lemma pair_fields [simp]:
  "mapData pair_world = small_map" "sectorUpdateSet pair_world = []" "forceDeleteObjs pair_world = []"
  "chatJobs pair_world = []" "objs pair_world = [(1, small_player), (2, pair_player)]"
  "zoneSectors pair_world = [(Town, [(0, [1, 2])])]"
  "netSessions pair_world = [(7, small_session), (8, SetPlayer 2 (PreInit 10 0 (Session 8 0)))]"
  by (simp_all add: pair_world_def)

lemma pair_sector: "FindSector pair_world zt = (if zt = Town then Some [(0, [1, 2])] else None)"
  by (simp add: FindSector_def)

lemma pair_find: "find_obj pair_world x = (if x = 1 then Some small_player else if x = 2 then Some pair_player else None)"
  by (simp add: find_obj_def)

lemma pair_sound: "world_sound pair_world"
proof -
  have "heap_ok pair_world" by (simp add: heap_ok_def pair_player_def)
  moreover have "set (held_list pair_world) \<subseteq> alive pair_world" by (simp add: held_list_def alive_def)
  moreover have "placed pair_world" by (simp add: placed_def pair_find small_known pair_player_def)
  moreover have "zones_ok pair_world" "sectors_wf pair_world"
    by (simp_all add: zones_ok_known small_known pair_sector sectors_wf_def)
  ultimately show ?thesis by (simp add: world_sound_def world_ok_def)
qed

lemma leave_clean_witness:
  "\<exists>s1 w1 w2. server_OnDisconnected small_session pair_world = Some (s1, w1) \<and>
     set (outbox w1) = {(8, DespawnPkt 1)} \<and> SectorUpdateWorkerThread [] w1 = Some w2 \<and> find_obj w2 1 = None"
proof -
  have pc: "playerClass small_session = Some 1" by (simp add: small_session_def SetPlayer_def)
  have c: "cells pair_world 1 \<subseteq> {cell_key (cur_cell small_player)}"
    by (auto simp: cells_def pair_sector sector_objects_def cell_key_def cur_cell_def split: if_splits)
  have u: "cell_usable pair_world (cur_cell small_player)"
    by (simp add: cell_usable_def pair_sector cur_cell_def IsValidGridIndex_def)
  from leave_clean [OF pair_sound _ _ pc c u] obtain s1 w1 w2 ids where
    l: "server_OnDisconnected small_session pair_world = Some (s1, w1)"
      "GetVisibleObjectsInSectors (put_session small_session pair_world) (vectorPos small_player) True = Some ids"
      "outbox w1 = outbox pair_world @ map (\<lambda>x. (the (pl_session (obj pair_world x)), DespawnPkt 1)) (filter (\<lambda>x. x \<noteq> 1) ids)"
      "SectorUpdateWorkerThread [] w1 = Some w2" "find_obj w2 1 = None"
    by (auto simp: pair_find)
  let ?v = "put_session small_session pair_world"
  have v: "find_obj ?v = find_obj pair_world" "mapData ?v = small_map" "FindSector ?v Town = Some [(0, [1, 2])]"
    "IsValid ?v pair_player"
    by (simp_all add: put_session_def find_obj_def fun_eq_iff FindSector_def) (simp add: IsValid_def session_closed_def pair_player_def
      small_session_def SetPlayer_def PreInit_def Session_def)
  have "world_ok ?v" "zones_ok ?v" using pair_sound sound_put_session [of small_session pair_world]
    unfolding world_sound_def by blast+
  then have "ids = in_view ?v (vectorPos small_player) True" using l(2) GetVisible_eq by auto
  moreover have "2 \<in> set (in_view ?v (vectorPos small_player) True)"
    using v by (intro in_viewI [of Town _ _ "GridIndex 0 0"])
      (simp_all add: GetVisibleZones_def Let_def MakeGridIndex_def Vector2_def small_map_ok IsValidGridIndex_def shown_def
        IsPlayer_def IsInGridRange_def playerVisibleRange_20 pair_find cells_def sector_objects_def, simp_all add: pair_player_def)
  moreover have "set (in_view ?v (vectorPos small_player) True) \<subseteq> {1, 2}"
    using in_view_alive [OF \<open>world_ok ?v\<close>] by (fastforce simp: alive_def put_session_def)
  ultimately have "set (filter (\<lambda>x. x \<noteq> 1) ids) = {2}" by auto
  then have "set (map (\<lambda>x. (the (pl_session (obj pair_world x)), DespawnPkt 1)) (filter (\<lambda>x. x \<noteq> 1) ids)) = {(8, DespawnPkt 1)}"
    unfolding set_map by (simp add: pair_find) (simp add: pair_player_def)
  moreover have "outbox pair_world = []" by (simp add: pair_world_def small_world_def world_empty_def)
  ultimately show ?thesis using l by (auto simp del: set_map set_filter)
qed

end
