(* ===== verification/Socket_Util.thy ===== *)
theory Socket_Util
  imports Session_Manager
begin

text \<open>
  ServerCore/Network/SocketUtil.cpp and the part of IocpCore.cpp that opens sockets and the
  completion port. Windows is a parameter: os_error gives the error code of the n-th call that can
  fail (0 when it succeeds) and os_socket the handle that WSASocket returns. The state counts those
  calls and keeps the list of what was asked of Windows. Log lines are left out.
\<close>

section \<open>Calls to Windows\<close>

record net_os =
  os_error :: "nat \<Rightarrow> int"
  os_socket :: "nat \<Rightarrow> u64"

datatype sock_opt = SO_REUSEADDR | SO_LINGER | TCP_NODELAY | SO_SNDBUF int | SO_RCVBUF int
  | SO_UPDATE_ACCEPT_CONTEXT | SO_UPDATE_CONNECT_CONTEXT

datatype net_event =
    WsaStartup | WsaCleanup
  | OpenSocket u64 | CloseSocket u64
  | SetOption u64 sock_opt
  | BindTo u64 u16 | ListenOn u64
  | CreatePort | AttachPort u64 | CloseHandle
  | LoadAcceptEx u64 | LoadConnectEx u64
  | PostAccept u64 | PostConnect u64 string u16
  | WakeWorker
  | LaunchThreads string u16
  | Sleep nat

text \<open>_iocpHandle is INVALID_HANDLE_VALUE before the first socket, NULL after Shutdown.\<close>

datatype iocp_handle = InvalidHandle | NullHandle | PortHandle

record iocp_core =
  os_calls_made :: nat
  trace :: "net_event list"
  running :: bool
  listenSocket :: u64
  iocpHandle :: iocp_handle
  acceptEx :: bool
  connectEx :: bool
  serverType :: "bool option"
  netNow :: int

definition note_event :: "net_event \<Rightarrow> 'a iocp_core_scheme \<Rightarrow> 'a iocp_core_scheme" where
  "note_event e c = c\<lparr>trace := trace c @ [e]\<rparr>"

text \<open>A call that can fail: whether it succeeded, and its error code.\<close>

definition call_code :: "net_os \<Rightarrow> net_event \<Rightarrow> 'a iocp_core_scheme \<Rightarrow> int \<times> 'a iocp_core_scheme" where
  "call_code os e c = (os_error os (os_calls_made c), note_event e c\<lparr>os_calls_made := os_calls_made c + 1\<rparr>)"

definition call_ok :: "net_os \<Rightarrow> net_event \<Rightarrow> 'a iocp_core_scheme \<Rightarrow> bool \<times> 'a iocp_core_scheme" where
  "call_ok os e c = (case call_code os e c of (err, c1) \<Rightarrow> (err = 0, c1))"

text \<open>A list of calls that stops at the first failure.\<close>

fun calls_ok :: "net_os \<Rightarrow> net_event list \<Rightarrow> 'a iocp_core_scheme \<Rightarrow> bool \<times> 'a iocp_core_scheme" where
  "calls_ok os [] c = (True, c)"
| "calls_ok os (e # es) c =
     (case call_ok os e c of (ok, c1) \<Rightarrow> if \<not> ok then (False, c1) else calls_ok os es c1)"

section \<open>SocketUtil\<close>

definition InitWinSocket :: "net_os \<Rightarrow> 'a iocp_core_scheme \<Rightarrow> bool \<times> 'a iocp_core_scheme" where
  "InitWinSocket os c = call_ok os WsaStartup c"

definition CreateSocket :: "net_os \<Rightarrow> 'a iocp_core_scheme \<Rightarrow> u64 \<times> 'a iocp_core_scheme" where
  "CreateSocket os c =
     (let skt = os_socket os (os_calls_made c) in
      (skt, note_event (OpenSocket skt) c\<lparr>os_calls_made := os_calls_made c + 1\<rparr>))"

definition SetSendRecvBuffSize ::
  "net_os \<Rightarrow> u64 \<Rightarrow> int \<Rightarrow> 'a iocp_core_scheme \<Rightarrow> bool \<times> 'a iocp_core_scheme" where
  "SetSendRecvBuffSize os skt buffSize c =
     (case call_ok os (SetOption skt (SO_SNDBUF buffSize)) c of (ok, c1) \<Rightarrow>
        if \<not> ok then (False, c1) else call_ok os (SetOption skt (SO_RCVBUF buffSize)) c1)"

definition SetServerSockOpt :: "net_os \<Rightarrow> u64 \<Rightarrow> 'a iocp_core_scheme \<Rightarrow> bool \<times> 'a iocp_core_scheme" where
  "SetServerSockOpt os skt c =
     (case call_ok os (SetOption skt SO_REUSEADDR) c of (ok1, c1) \<Rightarrow>
        if \<not> ok1 then (False, c1)
        else (case call_ok os (SetOption skt SO_LINGER) c1 of (ok2, c2) \<Rightarrow>
          if \<not> ok2 then (False, c2)
          else (case call_ok os (SetOption skt TCP_NODELAY) c2 of (ok3, c3) \<Rightarrow>
            if \<not> ok3 then (False, c3) else SetSendRecvBuffSize os skt 32768 c3)))"

definition SetClientSockOpt :: "net_os \<Rightarrow> u64 \<Rightarrow> 'a iocp_core_scheme \<Rightarrow> bool \<times> 'a iocp_core_scheme" where
  "SetClientSockOpt os skt c =
     (case call_ok os (SetOption skt SO_LINGER) c of (ok1, c1) \<Rightarrow>
        if \<not> ok1 then (False, c1)
        else (case call_ok os (SetOption skt TCP_NODELAY) c1 of (ok2, c2) \<Rightarrow>
          if \<not> ok2 then (False, c2) else SetSendRecvBuffSize os skt 8192 c2))"

definition BindSocket :: "net_os \<Rightarrow> u64 \<Rightarrow> u16 \<Rightarrow> 'a iocp_core_scheme \<Rightarrow> bool \<times> 'a iocp_core_scheme" where
  "BindSocket os skt port c =
     (case (if port = 0 then SetClientSockOpt os skt c else SetServerSockOpt os skt c) of (ok, c1) \<Rightarrow>
        if \<not> ok then (False, c1) else call_ok os (BindTo skt port) c1)"

definition ListenSocket :: "net_os \<Rightarrow> u64 \<Rightarrow> 'a iocp_core_scheme \<Rightarrow> bool \<times> 'a iocp_core_scheme" where
  "ListenSocket os skt c =
     (case call_ok os (ListenOn skt) c of (ok, c1) \<Rightarrow>
        if \<not> ok then (False, note_event (CloseSocket skt) c1) else (True, c1))"

section \<open>The completion port\<close>

text \<open>
  CreateIoCompletionPort on a NULL port makes a new one, whose handle the code drops; the call
  counts as succeeding or failing all the same.
\<close>

definition InitIocp :: "net_os \<Rightarrow> u64 \<Rightarrow> 'a iocp_core_scheme \<Rightarrow> bool \<times> 'a iocp_core_scheme" where
  "InitIocp os skt c =
     (case (if iocpHandle c = InvalidHandle
            then (case call_ok os CreatePort c of (ok, c1) \<Rightarrow>
                    (ok, c1\<lparr>iocpHandle := (if ok then PortHandle else NullHandle)\<rparr>))
            else (True, c)) of (ok, c1) \<Rightarrow>
        if \<not> ok then (False, c1)
        else if serverType c1 = Some True then call_ok os (AttachPort skt) c1
        else (True, c1))"

text \<open>The socket is written through the reference even when a later step fails.\<close>

definition CreateSocketAndBind :: "net_os \<Rightarrow> u64 \<Rightarrow> u16 \<Rightarrow> 'a iocp_core_scheme \<Rightarrow> bool \<times> u64 \<times> 'a iocp_core_scheme" where
  "CreateSocketAndBind os socket0 port c =
     (case InitWinSocket os c of (ok1, c1) \<Rightarrow>
        if \<not> ok1 then (False, socket0, c1)
        else (case CreateSocket os c1 of (skt, c2) \<Rightarrow>
          if skt = INVALID_SOCKET then (False, skt, c2)
          else (case BindSocket os skt port c2 of (ok3, c3) \<Rightarrow>
            if \<not> ok3 then (False, skt, c3)
            else (case InitIocp os skt c3 of (ok4, c4) \<Rightarrow> (ok4, skt, c4)))))"

definition WSAIoctlAcceptEx :: "net_os \<Rightarrow> 'a iocp_core_scheme \<Rightarrow> bool \<times> 'a iocp_core_scheme" where
  "WSAIoctlAcceptEx os c =
     (case call_ok os (LoadAcceptEx (listenSocket c)) c of (ok, c1) \<Rightarrow>
        (ok, if ok then c1\<lparr>acceptEx := True\<rparr> else c1))"

definition WSAIoctlConnectEx :: "net_os \<Rightarrow> u64 \<Rightarrow> 'a iocp_core_scheme \<Rightarrow> bool \<times> 'a iocp_core_scheme" where
  "WSAIoctlConnectEx os skt c =
     (case call_ok os (LoadConnectEx skt) c of (ok, c1) \<Rightarrow>
        (ok, if ok then c1\<lparr>connectEx := True\<rparr> else c1))"

definition ConnectService :: "bool option \<Rightarrow> 'a iocp_core_scheme \<Rightarrow> 'a iocp_core_scheme" where
  "ConnectService service c = c\<lparr>serverType := service\<rparr>"

text \<open>A new IocpCore.\<close>

definition iocp_fresh :: "'a iocp_core_scheme \<Rightarrow> 'a iocp_core_scheme" where
  "iocp_fresh c = c\<lparr>running := False, listenSocket := INVALID_SOCKET, iocpHandle := InvalidHandle,
     acceptEx := False, connectEx := False, serverType := None\<rparr>"

section \<open>What the calls are, in order\<close>

text \<open>
  Every function of SocketUtil makes a fixed list of calls and stops at the first that fails: the
  reference for the nested code is calls_ok.
\<close>

definition server_options :: "u64 \<Rightarrow> net_event list" where
  "server_options skt = map (SetOption skt) [SO_REUSEADDR, SO_LINGER, TCP_NODELAY, SO_SNDBUF 32768, SO_RCVBUF 32768]"

definition client_options :: "u64 \<Rightarrow> net_event list" where
  "client_options skt = map (SetOption skt) [SO_LINGER, TCP_NODELAY, SO_SNDBUF 8192, SO_RCVBUF 8192]"

lemma calls_ok_append:
  "calls_ok os (es @ fs) c = (case calls_ok os es c of (ok, c1) \<Rightarrow> if \<not> ok then (False, c1) else calls_ok os fs c1)"
  by (induction es arbitrary: c) (auto split: prod.splits)

lemma calls_ok_single: "calls_ok os [e] c = call_ok os e c"
  by (simp split: prod.split)

lemma SetServerSockOpt_calls: "SetServerSockOpt os skt c = calls_ok os (server_options skt) c"
  by (simp add: SetServerSockOpt_def SetSendRecvBuffSize_def server_options_def split: prod.split)

lemma SetClientSockOpt_calls: "SetClientSockOpt os skt c = calls_ok os (client_options skt) c"
  by (simp add: SetClientSockOpt_def SetSendRecvBuffSize_def client_options_def split: prod.split)

lemma BindSocket_calls:
  "BindSocket os skt port c =
     calls_ok os ((if port = 0 then client_options skt else server_options skt) @ [BindTo skt port]) c"
  by (simp add: BindSocket_def SetServerSockOpt_calls SetClientSockOpt_calls calls_ok_append calls_ok_single
      split: prod.split del: calls_ok.simps)

lemma calls_ok_True:
  assumes "calls_ok os es c = (True, c')"
  shows "c' = c\<lparr>trace := trace c @ es, os_calls_made := os_calls_made c + length es\<rparr>"
    and "\<forall>i < length es. os_error os (os_calls_made c + i) = 0"
proof -
  have "c' = c\<lparr>trace := trace c @ es, os_calls_made := os_calls_made c + length es\<rparr> \<and>
    (\<forall>i < length es. os_error os (os_calls_made c + i) = 0)"
    using assms
  proof (induction es arbitrary: c)
    case (Cons e es)
    let ?c1 = "note_event e c\<lparr>os_calls_made := os_calls_made c + 1\<rparr>"
    have h: "os_error os (os_calls_made c) = 0" "calls_ok os es ?c1 = (True, c')"
      using Cons.prems by (auto simp: call_ok_def call_code_def split: if_splits)
    note ih = Cons.IH [OF h(2)]
    have "os_error os (os_calls_made c + i) = 0" if "i < Suc (length es)" for i
      using that h(1) ih by (cases i) (auto simp: note_event_def)
    with ih show ?case by (simp add: note_event_def)
  qed simp
  then show "c' = c\<lparr>trace := trace c @ es, os_calls_made := os_calls_made c + length es\<rparr>"
    and "\<forall>i < length es. os_error os (os_calls_made c + i) = 0" by simp_all
qed

text \<open>What a successful CreateSocketAndBind has done.\<close>

lemma CreateSocketAndBind_True:
  assumes "CreateSocketAndBind os socket0 port c = (True, skt, c')"
  shows "skt = os_socket os (Suc (os_calls_made c))" and "skt \<noteq> INVALID_SOCKET"
    and "trace c' = trace c @ [WsaStartup, OpenSocket skt] @
      (if port = 0 then client_options skt else server_options skt) @ [BindTo skt port] @
      (if iocpHandle c = InvalidHandle then [CreatePort] else []) @
      (if serverType c = Some True then [AttachPort skt] else [])"
    and "running c' = running c" and "serverType c' = serverType c" and "netNow c' = netNow c"
    and "listenSocket c' = listenSocket c" and "acceptEx c' = acceptEx c" and "connectEx c' = connectEx c"
    and "iocpHandle c' = (if iocpHandle c = InvalidHandle then PortHandle else iocpHandle c)"
    and "iocp_core.more c' = iocp_core.more c"
proof -
  let ?c2 = "c\<lparr>trace := trace c @ [WsaStartup, OpenSocket (os_socket os (Suc (os_calls_made c)))],
      os_calls_made := Suc (Suc (os_calls_made c))\<rparr>"
  let ?es = "(if port = 0 then client_options skt else server_options skt) @ [BindTo skt port]"
  from assms obtain c3 where s: "skt = os_socket os (Suc (os_calls_made c))" "skt \<noteq> INVALID_SOCKET"
    and b: "BindSocket os skt port ?c2 = (True, c3)" and i: "InitIocp os skt c3 = (True, c')"
    by (auto simp: CreateSocketAndBind_def InitWinSocket_def CreateSocket_def call_ok_def call_code_def note_event_def Let_def
        split: if_splits prod.splits)
  have c3: "c3 = ?c2\<lparr>trace := trace ?c2 @ ?es, os_calls_made := os_calls_made ?c2 + length ?es\<rparr>"
    using b unfolding BindSocket_calls by (rule calls_ok_True(1))
  show "skt = os_socket os (Suc (os_calls_made c))" and "skt \<noteq> INVALID_SOCKET" by (fact s)+
  show "trace c' = trace c @ [WsaStartup, OpenSocket skt] @
      (if port = 0 then client_options skt else server_options skt) @ [BindTo skt port] @
      (if iocpHandle c = InvalidHandle then [CreatePort] else []) @
      (if serverType c = Some True then [AttachPort skt] else [])"
    and "running c' = running c" and "serverType c' = serverType c" and "netNow c' = netNow c"
    and "listenSocket c' = listenSocket c" and "acceptEx c' = acceptEx c" and "connectEx c' = connectEx c"
    and "iocpHandle c' = (if iocpHandle c = InvalidHandle then PortHandle else iocpHandle c)"
    and "iocp_core.more c' = iocp_core.more c"
    using i s(1) unfolding c3
    by (auto simp: InitIocp_def call_ok_def call_code_def note_event_def split: if_splits prod.splits)
qed

end
