(* ===== verification/Iocp_Core.thy ===== *)
theory Iocp_Core
  imports Socket_Util
begin

text \<open>
  ServerCore/Network/IocpCore.cpp: starting and stopping the network, the accept and connect
  requests, and the worker thread that hands completions to the sessions. None is a crash of the
  process, or a recursion that never ends.
\<close>

section \<open>State\<close>

definition ACCEPT_NUM :: nat where
  "ACCEPT_NUM = 10"

text \<open>Milliseconds.\<close>

definition HEART_BEAT_INTERVAL :: int where
  "HEART_BEAT_INTERVAL = 10000"

definition ERROR_IO_PENDING :: int where
  "ERROR_IO_PENDING = 997"

definition MAX_WORKER_THREAD_NUM :: "u16 \<Rightarrow> u16" where
  "MAX_WORKER_THREAD_NUM cpu = of_nat (unat cpu * 3 div 2)"

text \<open>
  A context holds the session until its completion; contexts are those that the object pool has
  given out, posted those of them that Windows holds.
\<close>

datatype net_context = AcceptContext "session_obj option" | ConnectContext "session_obj option"

record 'w network = iocp_core +
  cpuCount :: u16
  contexts :: "(nat \<times> net_context) list"
  posted :: "nat list"
  nextContext :: nat
  nextSession :: u64
  manager :: "'w session_manager"
  heartbeatDue :: "int list"

definition Create :: "'w network \<Rightarrow> session_obj \<times> 'w network" where
  "Create n = (\<lparr>obj_sess = Session (nextSession n) (netNow n), obj_recv = BaseBuffer BUFFER_SIZE\<rparr>,
     n\<lparr>nextSession := nextSession n + 1\<rparr>)"

definition alloc_context :: "net_context \<Rightarrow> 'w network \<Rightarrow> nat \<times> 'w network" where
  "alloc_context k n =
     (nextContext n, n\<lparr>contexts := hm_assign (nextContext n) k (contexts n), nextContext := nextContext n + 1\<rparr>)"

definition release_context :: "nat \<Rightarrow> 'w network \<Rightarrow> 'w network" where
  "release_context cid n = n\<lparr>contexts := hm_erase cid (contexts n)\<rparr>"

section \<open>Accepting\<close>

text \<open>
  ProcessAccept up to its call of ReRequestAccept: the context to give to that call, or None when
  AcceptEx was posted.
\<close>

definition post_accept :: "net_os \<Rightarrow> session_obj \<Rightarrow> 'w network \<Rightarrow> nat option \<times> 'w network" where
  "post_accept os ob n =
     (case alloc_context (AcceptContext (Some ob)) n of (cid, n1) \<Rightarrow>
        let clientSocket = sock (obj_sess ob) in
        case call_code os (PostAccept clientSocket) n1 of (err, n2) \<Rightarrow>
          if err \<noteq> 0 \<and> err \<noteq> ERROR_IO_PENDING then (Some cid, note_event (CloseSocket clientSocket) n2)
          else (None, n2\<lparr>posted := posted n2 @ [cid]\<rparr>))"

text \<open>ReRequestAccept up to its call of RequestAccept.\<close>

definition accept_pause :: "nat option \<Rightarrow> 'w network \<Rightarrow> 'w network" where
  "accept_pause ctx n =
     (let n1 = (case ctx of None \<Rightarrow> n | Some cid \<Rightarrow> release_context cid n) in
      note_event (Sleep 500) n1\<lparr>netNow := netNow n1 + 500 * 10 ^ 6\<rparr>)"

text \<open>
  One round of RequestAccept: the flag says whether the accept was posted; otherwise the round has
  gone through ReRequestAccept and RequestAccept starts again. Create does not give null.
\<close>

definition accept_round :: "net_os \<Rightarrow> 'w network \<Rightarrow> bool \<times> 'w network" where
  "accept_round os n =
     (case Create n of (ob, n1) \<Rightarrow>
      case CreateSocket os n1 of (clientSocket, n2) \<Rightarrow>
        if clientSocket = INVALID_SOCKET then (False, accept_pause None n2)
        else (let ob1 = ob\<lparr>obj_sess := PreInit clientSocket (netNow n2) (obj_sess ob)\<rparr> in
          case post_accept os ob1 n2 of
            (None, n3) \<Rightarrow> (True, n3)
          | (Some cid, n3) \<Rightarrow> (False, accept_pause (Some cid) n3)))"

partial_function (option) RequestAccept :: "net_os \<Rightarrow> 'w network \<Rightarrow> 'w network option" where
  "RequestAccept os n =
     (case accept_round os n of (ok, n1) \<Rightarrow> if ok then Some n1 else RequestAccept os n1)"

definition ReRequestAccept :: "net_os \<Rightarrow> nat option \<Rightarrow> 'w network \<Rightarrow> 'w network option" where
  "ReRequestAccept os context n = RequestAccept os (accept_pause context n)"

definition ProcessAccept :: "net_os \<Rightarrow> session_obj \<Rightarrow> 'w network \<Rightarrow> 'w network option" where
  "ProcessAccept os ob n =
     (case post_accept os ob n of
        (None, n1) \<Rightarrow> Some n1
      | (Some cid, n1) \<Rightarrow> ReRequestAccept os (Some cid) n1)"

text \<open>The session of a context as a connection, and back.\<close>

definition obj_conn :: "session_obj \<Rightarrow> 'w network \<Rightarrow> 'w conn" where
  "obj_conn ob n = \<lparr>sess = obj_sess ob, recvBuffer = obj_recv ob, app = mgr_app (manager n)\<rparr>"

definition conn_obj :: "'w conn \<Rightarrow> session_obj" where
  "conn_obj c = \<lparr>obj_sess = sess c, obj_recv = recvBuffer c\<rparr>"

definition put_app :: "'w \<Rightarrow> 'w network \<Rightarrow> 'w network" where
  "put_app w n = n\<lparr>manager := (manager n)\<lparr>mgr_app := w\<rparr>\<rparr>"

text \<open>
  so gives the calls of a session, svc the service. When Init fails the context is not released
  and the session goes into a new one.
\<close>

definition OnAcceptCompleted ::
  "net_os \<Rightarrow> os_calls \<Rightarrow> 'w core_service \<Rightarrow> nat \<Rightarrow> 'w network \<Rightarrow> (bool \<times> 'w network) option" where
  "OnAcceptCompleted os so svc cid n =
     (case map_of (contexts n) cid of
        Some (AcceptContext None) \<Rightarrow> do { n1 \<leftarrow> ReRequestAccept os (Some cid) n; Some (False, n1) }
      | Some (AcceptContext (Some ob)) \<Rightarrow>
          (let clientSocket = sock (obj_sess ob) in
           case call_ok os (SetOption clientSocket SO_UPDATE_ACCEPT_CONTEXT) n of (ok, n1) \<Rightarrow>
             if \<not> ok then do {
               n2 \<leftarrow> ReRequestAccept os (Some cid) (note_event (CloseSocket clientSocket) n1);
               Some (False, n2) }
             else do {
               (ok2, c) \<leftarrow> Init so svc (netNow n1) clientSocket True (obj_conn ob n1);
               let n2 = put_app (app c) n1;
               (if \<not> ok2 then do {
                  n3 \<leftarrow> ProcessAccept os (conn_obj c) (note_event (CloseSocket clientSocket) n2);
                  Some (False, n3) }
                else do {
                  n3 \<leftarrow> ReRequestAccept os (Some cid) (n2\<lparr>manager := Add (Some (conn_obj c)) (manager n2)\<rparr>);
                  Some (True, n3) }) })
      | _ \<Rightarrow> None)"

section \<open>Connecting\<close>

definition ProcessConnect :: "net_os \<Rightarrow> session_obj \<Rightarrow> string \<Rightarrow> u16 \<Rightarrow> 'w network \<Rightarrow> 'w network" where
  "ProcessConnect os ob address port n =
     (case alloc_context (ConnectContext (Some ob)) n of (cid, n1) \<Rightarrow>
      case call_ok os (AttachPort (sock (obj_sess ob))) n1 of (ok, n2) \<Rightarrow>
        if \<not> ok then n2
        else (case call_code os (PostConnect (sock (obj_sess ob)) address port) n2 of (err, n3) \<Rightarrow>
          if err \<noteq> 0 \<and> err \<noteq> ERROR_IO_PENDING then release_context cid n3
          else n3\<lparr>posted := posted n3 @ [cid]\<rparr>))"

definition OnConnectCompleted ::
  "net_os \<Rightarrow> os_calls \<Rightarrow> 'w core_service \<Rightarrow> nat \<Rightarrow> 'w network \<Rightarrow> (bool \<times> 'w network) option" where
  "OnConnectCompleted os so svc cid n =
     (case map_of (contexts n) cid of
        Some (ConnectContext None) \<Rightarrow> Some (False, n)
      | Some (ConnectContext (Some ob)) \<Rightarrow>
          (let clientSocket = sock (obj_sess ob) in
           case call_ok os (SetOption clientSocket SO_UPDATE_CONNECT_CONTEXT) n of (ok, n1) \<Rightarrow>
             if \<not> ok then Some (False, release_context cid n1)
             else do {
               (ok2, c) \<leftarrow> Init so svc (netNow n1) clientSocket False (obj_conn ob n1);
               let n2 = put_app (app c) n1;
               Some (if \<not> ok2 then (False, release_context cid n2)
                     else (True, release_context cid (n2\<lparr>manager := Add (Some (conn_obj c)) (manager n2)\<rparr>))) })
      | _ \<Rightarrow> None)"

section \<open>Starting and stopping\<close>

definition StartWorkerThreads :: "u16 \<Rightarrow> 'w network \<Rightarrow> 'w network" where
  "StartWorkerThreads maxWorkerThreadNum n =
     note_event (LaunchThreads ''Network'' maxWorkerThreadNum) (n\<lparr>running := True\<rparr>)"

text \<open>The task puts itself into the job queue again, to run after the interval.\<close>

definition StartHeartbeatTask :: "'w core_service \<Rightarrow> 'w network \<Rightarrow> 'w network option" where
  "StartHeartbeatTask svc n =
     (if \<not> running n then Some n
      else do {
        m \<leftarrow> Heartbeat (OnDisconnected svc) (if serverType n = None then None else Some svc) (netNow n) (manager n);
        Some (n\<lparr>manager := m, heartbeatDue := heartbeatDue n @ [netNow n + HEART_BEAT_INTERVAL * 10 ^ 6]\<rparr>) })"

fun request_accepts :: "nat \<Rightarrow> net_os \<Rightarrow> 'w network \<Rightarrow> 'w network option" where
  "request_accepts 0 os n = Some n"
| "request_accepts (Suc k) os n = do { n1 \<leftarrow> RequestAccept os n; request_accepts k os n1 }"

definition Start :: "net_os \<Rightarrow> 'w core_service \<Rightarrow> u16 \<Rightarrow> 'w network \<Rightarrow> (bool \<times> 'w network) option" where
  "Start os svc port n =
     (if running n then Some (False, n)
      else (case CreateSocketAndBind os (listenSocket n) port n of (ok1, skt, n0) \<Rightarrow>
        let n1 = n0\<lparr>listenSocket := skt\<rparr> in
        if \<not> ok1 then Some (False, n1)
        else (case ListenSocket os (listenSocket n1) n1 of (ok2, n2) \<Rightarrow>
          if \<not> ok2 then Some (False, n2)
          else (case WSAIoctlAcceptEx os n2 of (ok3, n3) \<Rightarrow>
            if \<not> ok3 then Some (False, n3)
            else do {
              n4 \<leftarrow> request_accepts ACCEPT_NUM os n3;
              n5 \<leftarrow> StartHeartbeatTask svc (StartWorkerThreads (MAX_WORKER_THREAD_NUM (cpuCount n4)) n4);
              Some (True, n5) }))))"

definition Connect :: "net_os \<Rightarrow> string \<Rightarrow> u16 \<Rightarrow> u16 \<Rightarrow> 'w network \<Rightarrow> bool \<times> 'w network" where
  "Connect os address port maxWorkerThreadNum n =
     (case Create n of (ob, n1) \<Rightarrow>
      case CreateSocketAndBind os INVALID_SOCKET 0 n1 of (ok1, clientSocket, n2) \<Rightarrow>
        if \<not> ok1 then (False, n2)
        else (let ob1 = ob\<lparr>obj_sess := PreInit clientSocket (netNow n2) (obj_sess ob)\<rparr> in
          case WSAIoctlConnectEx os clientSocket n2 of (ok2, n3) \<Rightarrow>
            if \<not> ok2 then (False, n3)
            else (let n4 = (if \<not> running n3 then StartWorkerThreads maxWorkerThreadNum n3 else n3) in
              (True, ProcessConnect os ob1 address port n4))))"

definition WakeUpIOWorkerThreads :: "'w network \<Rightarrow> 'w network" where
  "WakeUpIOWorkerThreads n =
     n\<lparr>trace := trace n @ replicate (unat (MAX_WORKER_THREAD_NUM (cpuCount n))) WakeWorker\<rparr>"

definition Shutdown :: "'w network \<Rightarrow> 'w network" where
  "Shutdown n =
     (if \<not> running n then n
      else (let n1 = WakeUpIOWorkerThreads (n\<lparr>running := False\<rparr>);
                n2 = (if listenSocket n1 \<noteq> INVALID_SOCKET
                      then (note_event (CloseSocket (listenSocket n1)) n1)\<lparr>listenSocket := INVALID_SOCKET\<rparr> else n1);
                n3 = (if iocpHandle n2 \<noteq> NullHandle
                      then (note_event CloseHandle n2)\<lparr>iocpHandle := NullHandle\<rparr> else n2)
            in note_event WsaCleanup n3))"

section \<open>The worker thread\<close>

text \<open>
  What GetQueuedCompletionStatus answers: its result, the completion key, the overlapped structure
  with the bytes that were transferred, and the error code when the result is FALSE. The bytes of a
  receive are in the session's buffer already.
\<close>

datatype completion_key = ZeroKey | ShutdownKey | SessionKey u64
datatype overlapped_ex = ContextOv nat | RecvOv "u8 list" | SendOv int

record completion =
  gqcs_ret :: bool
  gqcs_key :: completion_key
  gqcs_overlapped :: "overlapped_ex option"
  gqcs_error :: int

definition IsExpectedDisConnect :: "int \<Rightarrow> bool" where
  "IsExpectedDisConnect errorCode \<longleftrightarrow> errorCode \<in> {64, 1236, 10054}"

text \<open>Windows gives a context back with its completion, also when the operation has failed.\<close>

definition dequeue :: "completion \<Rightarrow> 'w network \<Rightarrow> 'w network option" where
  "dequeue g n = (case gqcs_overlapped g of
     Some (ContextOv cid) \<Rightarrow> if cid \<in> set (posted n) then Some (n\<lparr>posted := remove1 cid (posted n)\<rparr>) else None
   | _ \<Rightarrow> Some n)"

text \<open>
  A completion key is a raw pointer to a session: of the manager, or of the context it connects
  with. If the session is gone the pointer dangles.
\<close>

fun context_of :: "u64 \<Rightarrow> (nat \<times> net_context) list \<Rightarrow> (nat \<times> session_obj) option" where
  "context_of sid [] = None"
| "context_of sid ((cid, ConnectContext (Some ob)) # ks) =
     (if sessionID (obj_sess ob) = sid then Some (cid, ob) else context_of sid ks)"
| "context_of sid (k # ks) = context_of sid ks"

definition at_session :: "('w conn \<Rightarrow> 'w conn option) \<Rightarrow> u64 \<Rightarrow> 'w network \<Rightarrow> 'w network option" where
  "at_session f sid n =
     (case map_of (sessions (manager n)) sid of
        Some ob \<Rightarrow> do {
          c \<leftarrow> f (obj_conn ob n);
          Some (n\<lparr>manager := (manager n)\<lparr>sessions := hm_assign sid (conn_obj c) (sessions (manager n)), mgr_app := app c\<rparr>\<rparr>) }
      | None \<Rightarrow> do {
          (cid, ob) \<leftarrow> context_of sid (contexts n);
          c \<leftarrow> f (obj_conn ob n);
          Some (put_app (app c) (n\<lparr>contexts := hm_assign cid (ConnectContext (Some (conn_obj c))) (contexts n)\<rparr>)) })"

definition conn_sent :: "os_calls \<Rightarrow> 'w core_service \<Rightarrow> int \<Rightarrow> int \<Rightarrow> 'w conn \<Rightarrow> 'w conn option" where
  "conn_sent so svc now bytes c = do {
     (s, w) \<leftarrow> OnSendCompleted so svc now bytes (sess c) (app c);
     Some (c\<lparr>sess := s, app := w\<rparr>) }"

text \<open>One turn of the loop; the flag is False for break.\<close>

definition io_turn ::
  "net_os \<Rightarrow> os_calls \<Rightarrow> 'w core_service \<Rightarrow> completion \<Rightarrow> 'w network \<Rightarrow> (bool \<times> 'w network) option" where
  "io_turn os so svc g n =
     (if \<not> gqcs_ret g \<or> gqcs_overlapped g = None then
        (if gqcs_key g = ShutdownKey then Some (False, n)
         else if IsExpectedDisConnect (gqcs_error g) then
           (case gqcs_key g of
              SessionKey sid \<Rightarrow> do { n1 \<leftarrow> at_session (conn_close svc) sid n; Some (True, n1) }
            | _ \<Rightarrow> Some (True, n))
         else Some (True, n))
      else (case the (gqcs_overlapped g) of
        ContextOv cid \<Rightarrow>
          (case map_of (contexts n) cid of
             None \<Rightarrow> None
           | Some (AcceptContext _) \<Rightarrow> do { (ok, n1) \<leftarrow> OnAcceptCompleted os so svc cid n; Some (True, n1) }
           | Some (ConnectContext _) \<Rightarrow> do { (ok, n1) \<leftarrow> OnConnectCompleted os so svc cid n; Some (True, n1) })
      | RecvOv bs \<Rightarrow>
          (case gqcs_key g of
             SessionKey sid \<Rightarrow> do {
               n1 \<leftarrow> at_session (if bs = [] then conn_close svc else receive so svc (netNow n) bs) sid n;
               Some (True, n1) }
           | ZeroKey \<Rightarrow> Some (True, n)
           | ShutdownKey \<Rightarrow> None)
      | SendOv bytes \<Rightarrow>
          (case gqcs_key g of
             SessionKey sid \<Rightarrow> do {
               n1 \<leftarrow> at_session (if bytes = 0 then conn_close svc else conn_sent so svc (netNow n) bytes) sid n;
               Some (True, n1) }
           | ZeroKey \<Rightarrow> Some (True, n)
           | ShutdownKey \<Rightarrow> None)))"

text \<open>The loop over the completions that a worker gets.\<close>

fun IOWorkerThread ::
  "net_os \<Rightarrow> os_calls \<Rightarrow> 'w core_service \<Rightarrow> completion list \<Rightarrow> 'w network \<Rightarrow> 'w network option" where
  "IOWorkerThread os so svc [] n = Some n"
| "IOWorkerThread os so svc (g # gs) n =
     (if \<not> running n then Some n
      else do {
        n0 \<leftarrow> dequeue g n;
        (go, n1) \<leftarrow> io_turn os so svc g n0;
        (if go then IOWorkerThread os so svc gs n1 else Some n1) })"

end
