(* ===== verification/Iocp_Laws.thy ===== *)
theory Iocp_Laws
  imports Iocp_Core
begin

text \<open>
  When the recursion between RequestAccept and ReRequestAccept ends, and how many accepts are
  posted while the worker threads run.
\<close>

section \<open>Rounds of RequestAccept\<close>

abbreviation retry :: "net_os \<Rightarrow> 'w network \<Rightarrow> 'w network" where
  "retry os n \<equiv> snd (accept_round os n)"

lemma RequestAccept_rounds:
  assumes "RequestAccept os n = Some n'"
  shows "\<exists>k. fst (accept_round os ((retry os ^^ k) n)) \<and> n' = retry os ((retry os ^^ k) n) \<and>
    (\<forall>i < k. \<not> fst (accept_round os ((retry os ^^ i) n)))"
proof (rule RequestAccept.raw_induct [OF _ assms, where P = "\<lambda>os n n'. \<exists>k. fst (accept_round os ((retry os ^^ k) n)) \<and>
    n' = retry os ((retry os ^^ k) n) \<and> (\<forall>i < k. \<not> fst (accept_round os ((retry os ^^ i) n)))"])
  fix RA os n n'
  assume ih: "\<And>os n n'. RA os n = Some n' \<Longrightarrow> \<exists>k. fst (accept_round os ((retry os ^^ k) n)) \<and>
      n' = retry os ((retry os ^^ k) n) \<and> (\<forall>i < k. \<not> fst (accept_round os ((retry os ^^ i) n)))"
    and step: "(case accept_round os n of (ok, n1) \<Rightarrow> if ok then Some n1 else RA os n1) = Some n'"
  show "\<exists>k. fst (accept_round os ((retry os ^^ k) n)) \<and> n' = retry os ((retry os ^^ k) n) \<and>
      (\<forall>i < k. \<not> fst (accept_round os ((retry os ^^ i) n)))"
  proof (cases "fst (accept_round os n)")
    case True
    with step show ?thesis by (intro exI [of _ 0]) (simp add: split_beta)
  next
    case False
    with step have "RA os (retry os n) = Some n'" by (simp add: split_beta)
    from ih [OF this] obtain k where k: "fst (accept_round os ((retry os ^^ k) (retry os n)))"
      "n' = retry os ((retry os ^^ k) (retry os n))" "\<forall>i < k. \<not> fst (accept_round os ((retry os ^^ i) (retry os n)))" by blast
    have "\<not> fst (accept_round os ((retry os ^^ i) n))" if "i < Suc k" for i
      using that False k(3) by (cases i) (auto simp: funpow_Suc_right simp del: funpow.simps)
    with k(1,2) show ?thesis by (intro exI [of _ "Suc k"]) (simp add: funpow_Suc_right del: funpow.simps)
  qed
qed

lemma RequestAccept_after:
  assumes "fst (accept_round os ((retry os ^^ k) n))" and "\<forall>i < k. \<not> fst (accept_round os ((retry os ^^ i) n))"
  shows "RequestAccept os n = Some (retry os ((retry os ^^ k) n))"
  using assms
proof (induction k arbitrary: n)
  case 0
  then show ?case by (subst RequestAccept.simps) (simp add: split_beta)
next
  case (Suc k)
  have "RequestAccept os n = RequestAccept os (retry os n)"
    using Suc.prems(2) by (subst RequestAccept.simps) (auto simp: split_beta dest: spec [of _ 0])
  also have "\<dots> = Some (retry os ((retry os ^^ k) (retry os n)))"
  proof (rule Suc.IH)
    show "fst (accept_round os ((retry os ^^ k) (retry os n)))"
      using Suc.prems(1) by (simp add: funpow_Suc_right del: funpow.simps)
    show "\<forall>i < k. \<not> fst (accept_round os ((retry os ^^ i) (retry os n)))"
    proof (intro allI impI)
      fix i assume "i < k"
      then have "\<not> fst (accept_round os ((retry os ^^ Suc i) n))" using Suc.prems(2) by blast
      then show "\<not> fst (accept_round os ((retry os ^^ i) (retry os n)))"
        by (simp add: funpow_Suc_right del: funpow.simps)
    qed
  qed
  finally show ?case by (simp add: funpow_Suc_right del: funpow.simps)
qed

lemma RequestAccept_returns_iff:
  "(\<exists>n'. RequestAccept os n = Some n') \<longleftrightarrow> (\<exists>k. fst (accept_round os ((retry os ^^ k) n)))"
proof
  assume "\<exists>k. fst (accept_round os ((retry os ^^ k) n))"
  then have "fst (accept_round os ((retry os ^^ (LEAST k. fst (accept_round os ((retry os ^^ k) n)))) n))"
    by (rule LeastI_ex)
  then show "\<exists>n'. RequestAccept os n = Some n'"
    using RequestAccept_after [of os "LEAST k. fst (accept_round os ((retry os ^^ k) n))" n] not_less_Least by blast
qed (use RequestAccept_rounds in blast)

text \<open>A round: when it posts the accept, and what it does otherwise.\<close>

definition round_ok :: "net_os \<Rightarrow> nat \<Rightarrow> bool" where
  "round_ok os i \<longleftrightarrow> os_socket os i \<noteq> INVALID_SOCKET \<and> os_error os (Suc i) \<in> {0, ERROR_IO_PENDING}"

lemmas round_defs = accept_round_def Create_def CreateSocket_def post_accept_def alloc_context_def call_code_def
  accept_pause_def note_event_def release_context_def round_ok_def Let_def

lemma round_ok_iff: "fst (accept_round os n) \<longleftrightarrow> round_ok os (os_calls_made n)"
  by (auto simp: round_defs split: if_splits)

text \<open>Nothing but the context, the clock, the counters and the trace changes.\<close>

definition accept_frame :: "'w network \<Rightarrow> 'w network \<Rightarrow> bool" where
  "accept_frame n n' \<longleftrightarrow> manager n' = manager n \<and> running n' = running n \<and> cpuCount n' = cpuCount n \<and>
     heartbeatDue n' = heartbeatDue n \<and> serverType n' = serverType n \<and> listenSocket n' = listenSocket n \<and>
     iocpHandle n' = iocpHandle n \<and> os_calls_made n < os_calls_made n'"

lemma accept_frame_trans: "accept_frame n n' \<Longrightarrow> accept_frame n' n'' \<Longrightarrow> accept_frame n n''"
  by (auto simp: accept_frame_def)

lemma erase_assign: "map_of m k = None \<Longrightarrow> hm_erase k (hm_assign k v m) = m"
proof (induction m)
  case (Cons e m)
  then have "fst e \<noteq> k" "map_of m k = None" by (auto split: if_splits)
  with Cons.IH show ?case by (cases e) (simp add: AList.delete_eq)
qed (simp add: AList.delete_eq)

lemma round_False:
  assumes "\<not> round_ok os (os_calls_made n)"
  shows "accept_frame n (retry os n)" and "posted (retry os n) = posted n" and "netNow (retry os n) = netNow n + 500 * 10 ^ 6"
    and "nextContext n \<le> nextContext (retry os n)"
    and "map_of (contexts n) (nextContext n) = None \<Longrightarrow> contexts (retry os n) = contexts n"
  using assms by (auto simp: round_defs accept_frame_def erase_assign split: if_splits)

lemma round_True:
  assumes "round_ok os (os_calls_made n)"
  shows "accept_frame n (retry os n)" and "posted (retry os n) = posted n @ [nextContext n]"
    and "netNow (retry os n) = netNow n" and "nextContext (retry os n) = Suc (nextContext n)"
    and "\<exists>ob. contexts (retry os n) = hm_assign (nextContext n) (AcceptContext (Some ob)) (contexts n)"
  using assms by (auto simp: round_defs accept_frame_def split: if_splits)

text \<open>C20: RequestAccept and ReRequestAccept call each other until an accept is posted. If from the
  N-th call on Windows gives sockets and takes AcceptEx, the recursion ends after at most N rounds
  that failed, each half a second long, with one more accept posted; if no round can succeed it
  never returns, and its frames pile up on the stack of the worker thread.\<close>

theorem RequestAccept_returns:
  "((\<forall>i \<ge> N. os_socket os i \<noteq> INVALID_SOCKET \<and> os_error os i \<in> {0, ERROR_IO_PENDING}) \<longrightarrow>
     (\<exists>n' k cid. RequestAccept os n = Some n' \<and> k \<le> N - os_calls_made n \<and>
        netNow n' = netNow n + int k * (500 * 10 ^ 6) \<and> posted n' = posted n @ [cid])) \<and>
   ((\<forall>i \<ge> os_calls_made n. os_socket os i = INVALID_SOCKET \<or> os_error os (Suc i) \<notin> {0, ERROR_IO_PENDING}) \<longrightarrow>
     RequestAccept os n = None)"
proof -
  have calls: "os_calls_made n + k \<le> os_calls_made ((retry os ^^ k) n)" for k
  proof (induction k)
    case (Suc k)
    have "accept_frame ((retry os ^^ k) n) (retry os ((retry os ^^ k) n))"
      using round_False(1) round_True(1) by blast
    with Suc show ?case by (simp add: accept_frame_def)
  qed simp
  have wait: "(\<forall>i < k. \<not> fst (accept_round os ((retry os ^^ i) n))) \<Longrightarrow>
      netNow ((retry os ^^ k) n) = netNow n + int k * (500 * 10 ^ 6) \<and> posted ((retry os ^^ k) n) = posted n" for k
  proof (induction k)
    case (Suc k)
    then have "netNow ((retry os ^^ k) n) = netNow n + int k * (500 * 10 ^ 6) \<and> posted ((retry os ^^ k) n) = posted n"
      by simp
    moreover have bad: "\<not> round_ok os (os_calls_made ((retry os ^^ k) n))"
      using Suc.prems by (simp add: round_ok_iff [symmetric])
    ultimately show ?case using round_False(2,3) [OF bad] by (simp add: algebra_simps)
  qed simp
  show ?thesis
  proof (intro conjI impI)
    assume good: "\<forall>i \<ge> N. os_socket os i \<noteq> INVALID_SOCKET \<and> os_error os i \<in> {0, ERROR_IO_PENDING}"
    let ?P = "\<lambda>k. fst (accept_round os ((retry os ^^ k) n))"
    have "N \<le> os_calls_made ((retry os ^^ (N - os_calls_made n)) n)" using calls [of "N - os_calls_made n"] by simp
    then have last: "?P (N - os_calls_made n)" using good by (simp add: round_ok_iff round_ok_def)
    define k where "k = (LEAST k. ?P k)"
    have k: "?P k" "\<forall>i < k. \<not> ?P i" "k \<le> N - os_calls_made n"
      unfolding k_def using last by (auto intro: LeastI Least_le dest: not_less_Least)
    have "RequestAccept os n = Some (retry os ((retry os ^^ k) n))" by (rule RequestAccept_after [OF k(1,2)])
    moreover have "round_ok os (os_calls_made ((retry os ^^ k) n))" using k(1) by (simp add: round_ok_iff)
    ultimately show "\<exists>n' k cid. RequestAccept os n = Some n' \<and> k \<le> N - os_calls_made n \<and>
        netNow n' = netNow n + int k * (500 * 10 ^ 6) \<and> posted n' = posted n @ [cid]"
      using k(3) wait [OF k(2)] round_True(2,3) by metis
  next
    assume "\<forall>i \<ge> os_calls_made n. os_socket os i = INVALID_SOCKET \<or> os_error os (Suc i) \<notin> {0, ERROR_IO_PENDING}"
    then have "\<not> fst (accept_round os ((retry os ^^ k) n))" for k
      using calls [of k] by (auto simp: round_ok_iff round_ok_def)
    then show "RequestAccept os n = None" using RequestAccept_returns_iff [of os n] by (cases "RequestAccept os n") auto
  qed
qed

definition idle_network :: "unit network" where
  "idle_network = \<lparr>os_calls_made = 0, trace = [], running = False, listenSocket = INVALID_SOCKET,
     iocpHandle = InvalidHandle, acceptEx = False, connectEx = False, serverType = Some True, netNow = 0,
     cpuCount = 4, contexts = [], posted = [], nextContext = 0, nextSession = 1,
     manager = \<lparr>sessions = [], mgr_app = (), mgr_logs = []\<rparr>, heartbeatDue = []\<rparr>"

definition shy_os :: net_os where
  "shy_os = \<lparr>os_error = \<lambda>_. 0, os_socket = \<lambda>i. if i < 2 then INVALID_SOCKET else 5\<rparr>"

lemma RequestAccept_returns_witness:
  "\<exists>n' k cid. RequestAccept shy_os idle_network = Some n' \<and> k \<le> 2 \<and> netNow n' = int k * (500 * 10 ^ 6) \<and> posted n' = [cid]"
proof -
  have "(5 :: u64) \<noteq> INVALID_SOCKET" by (simp add: INVALID_SOCKET_def)
  then show ?thesis
    using RequestAccept_returns [of 2 shy_os idle_network] by (auto simp: shy_os_def idle_network_def)
qed

section \<open>Accepts that are posted\<close>

text \<open>
  The contexts of a server: Windows holds some of them, each once, and each has its session.
\<close>

definition accepts_ok :: "'w network \<Rightarrow> bool" where
  "accepts_ok n \<longleftrightarrow> distinct (posted n) \<and> distinct (map fst (contexts n)) \<and>
     (\<forall>cid \<in> set (posted n). map_of (contexts n) cid \<noteq> None) \<and>
     (\<forall>cid k. map_of (contexts n) cid = Some k \<longrightarrow> cid < nextContext n \<and> (\<exists>ob. k = AcceptContext (Some ob)))"

text \<open>One more accept is posted, nothing else is taken from Windows or given to it.\<close>

definition one_more :: "'w network \<Rightarrow> 'w network \<Rightarrow> bool" where
  "one_more n n' \<longleftrightarrow> accepts_ok n' \<and> length (posted n') = Suc (length (posted n)) \<and> running n' = running n"

lemma accepts_okD:
  assumes "accepts_ok n"
  shows "nextContext n \<notin> set (posted n) \<and> map_of (contexts n) (nextContext n) = None"
proof -
  have "map_of (contexts n) (nextContext n) = None"
  proof (cases "map_of (contexts n) (nextContext n)")
    case (Some k)
    with assms have "nextContext n < nextContext n" unfolding accepts_ok_def by blast
    then show ?thesis by simp
  qed
  with assms show ?thesis unfolding accepts_ok_def by blast
qed

lemma accepts_ok_new:
  assumes "accepts_ok n" and "contexts n' = hm_assign (nextContext n) (AcceptContext (Some ob)) (contexts n)"
    and "nextContext n' = Suc (nextContext n)" and "set (posted n') \<subseteq> insert (nextContext n) (set (posted n))" and "distinct (posted n')"
  shows "accepts_ok n'"
proof -
  have m: "map_of (contexts n') = (map_of (contexts n))(nextContext n \<mapsto> AcceptContext (Some ob))"
    by (simp add: assms(2) map_of_hm_assign)
  have "distinct (map fst (contexts n'))" using assms(1,2) by (simp add: accepts_ok_def distinct_update)
  moreover have "map_of (contexts n') cid \<noteq> None" if "cid \<in> set (posted n')" for cid
    using that assms(1,4) by (auto simp: m accepts_ok_def)
  moreover have "cid < nextContext n' \<and> (\<exists>ob. k = AcceptContext (Some ob))" if "map_of (contexts n') cid = Some k" for cid k
  proof (cases "cid = nextContext n")
    case False
    with that have "map_of (contexts n) cid = Some k" by (simp add: m)
    then have "cid < nextContext n" "\<exists>ob. k = AcceptContext (Some ob)" using assms(1) by (auto simp: accepts_ok_def)
    then show ?thesis using assms(3) by simp
  qed (use that assms(3) in \<open>auto simp: m\<close>)
  ultimately show ?thesis using assms(5) by (simp add: accepts_ok_def)
qed

lemma accepts_ok_post:
  assumes "accepts_ok n" and "contexts n' = hm_assign (nextContext n) (AcceptContext (Some ob)) (contexts n)"
    and "nextContext n' = Suc (nextContext n)" and "posted n' = posted n @ [nextContext n]"
  shows "accepts_ok n'"
  using assms(4) accepts_okD [OF assms(1)] assms(1)
  by (intro accepts_ok_new [OF assms(1-3)]) (auto simp: accepts_ok_def)

lemma round_False_ok:
  assumes "\<not> round_ok os (os_calls_made n)" and "accepts_ok n"
  shows "accepts_ok (retry os n) \<and> posted (retry os n) = posted n \<and> running (retry os n) = running n"
proof -
  note r = round_False [OF assms(1)]
  have "contexts (retry os n) = contexts n" using r(5) accepts_okD [OF assms(2)] by simp
  with assms(2) r show ?thesis by (fastforce simp: accepts_ok_def accept_frame_def)
qed

lemma round_True_ok:
  assumes "round_ok os (os_calls_made n)" and "accepts_ok n"
  shows "one_more n (retry os n)"
proof -
  note r = round_True [OF assms(1)]
  obtain ob where "contexts (retry os n) = hm_assign (nextContext n) (AcceptContext (Some ob)) (contexts n)"
    using r(5) by blast
  with accepts_ok_post [OF assms(2)] r show ?thesis by (simp add: one_more_def accept_frame_def)
qed

lemma RequestAccept_one:
  assumes "RequestAccept os n = Some n'" and "accepts_ok n"
  shows "one_more n n'"
proof -
  from RequestAccept_rounds [OF assms(1)] obtain k where k: "fst (accept_round os ((retry os ^^ k) n))"
    "n' = retry os ((retry os ^^ k) n)" "\<forall>i < k. \<not> fst (accept_round os ((retry os ^^ i) n))" by blast
  have "(\<forall>i < k. \<not> fst (accept_round os ((retry os ^^ i) n))) \<Longrightarrow>
    accepts_ok ((retry os ^^ k) n) \<and> posted ((retry os ^^ k) n) = posted n \<and> running ((retry os ^^ k) n) = running n" for k
  proof (induction k)
    case (Suc k)
    then have ih: "accepts_ok ((retry os ^^ k) n)" "posted ((retry os ^^ k) n) = posted n"
      "running ((retry os ^^ k) n) = running n" by simp_all
    have "\<not> round_ok os (os_calls_made ((retry os ^^ k) n))" using Suc.prems by (simp add: round_ok_iff [symmetric])
    from round_False_ok [OF this ih(1)] ih show ?case by simp
  qed (simp add: assms(2))
  from this [OF k(3)] round_True_ok [of os "(retry os ^^ k) n"] k(1,2) show ?thesis
    by (simp add: round_ok_iff one_more_def)
qed

lemma pause_ok:
  assumes "accepts_ok n" and "ctx = Some cid \<Longrightarrow> cid \<notin> set (posted n)" and "\<forall>c. ctx = Some c \<longrightarrow> c = cid"
  shows "accepts_ok (accept_pause ctx n) \<and> posted (accept_pause ctx n) = posted n \<and> running (accept_pause ctx n) = running n"
  using assms by (cases ctx) (auto simp: accept_pause_def note_event_def release_context_def accepts_ok_def Let_def map_of_hm_erase distinct_delete)

lemma ReRequestAccept_one:
  assumes "ReRequestAccept os (Some cid) n = Some n'" and "accepts_ok n" and "cid \<notin> set (posted n)"
  shows "one_more n n'"
  using RequestAccept_one [OF assms(1) [unfolded ReRequestAccept_def]] pause_ok [OF assms(2), of "Some cid" cid] assms(3)
  by (simp add: one_more_def)

lemma ProcessAccept_one:
  assumes "ProcessAccept os ob n = Some n'" and "accepts_ok n"
  shows "one_more n n'"
proof (cases "post_accept os ob n")
  case (Pair c n1)
  note fresh = accepts_okD [OF assms(2)]
  show ?thesis
  proof (cases c)
    case None
    with assms(1) Pair have "n' = n1" by (simp add: ProcessAccept_def)
    with Pair None have "contexts n' = hm_assign (nextContext n) (AcceptContext (Some ob)) (contexts n)"
      "nextContext n' = Suc (nextContext n)" "posted n' = posted n @ [nextContext n]" "running n' = running n"
      by (auto simp: post_accept_def alloc_context_def call_code_def note_event_def Let_def split: if_splits)
    with accepts_ok_post [OF assms(2)] show ?thesis by (simp add: one_more_def)
  next
    case (Some cid)
    with Pair have "cid = nextContext n" "posted n1 = posted n" "running n1 = running n" "nextContext n1 = Suc (nextContext n)"
      "contexts n1 = hm_assign (nextContext n) (AcceptContext (Some ob)) (contexts n)"
      by (auto simp: post_accept_def alloc_context_def call_code_def note_event_def Let_def split: if_splits)
    moreover from this have "accepts_ok n1" using assms(2) by (intro accepts_ok_new [OF assms(2)]) (auto simp: accepts_ok_def)
    ultimately show ?thesis
      using ReRequestAccept_one [of os cid n1 n'] assms(1) Pair Some fresh by (simp add: ProcessAccept_def one_more_def)
  qed
qed

text \<open>Changes of the manager, the trace and the counters do not matter.\<close>

lemma accepts_ok_cong:
  "posted n' = posted n \<Longrightarrow> contexts n' = contexts n \<Longrightarrow> nextContext n' = nextContext n \<Longrightarrow>
    accepts_ok n' = accepts_ok n"
  by (simp add: accepts_ok_def)

lemma OnAcceptCompleted_one:
  assumes "OnAcceptCompleted os so svc cid n = Some (ok, n')" and "accepts_ok n" and "cid \<notin> set (posted n)"
  shows "one_more n n'"
proof -
  obtain k where k: "map_of (contexts n) cid = Some k"
    using assms(1) by (cases "map_of (contexts n) cid") (simp_all add: OnAcceptCompleted_def)
  moreover from k assms(2) have "\<exists>ob. k = AcceptContext (Some ob)" unfolding accepts_ok_def by blast
  ultimately obtain ob where ob: "map_of (contexts n) cid = Some (AcceptContext (Some ob))" by blast
  obtain ok1 n1 where c: "call_ok os (SetOption (sock (obj_sess ob)) SO_UPDATE_ACCEPT_CONTEXT) n = (ok1, n1)" by fastforce
  then have n1: "posted n1 = posted n" "contexts n1 = contexts n" "nextContext n1 = nextContext n"
    "running n1 = running n" by (auto simp: call_ok_def call_code_def note_event_def)
  note same = accepts_ok_cong [of _ n]
  consider m where "ReRequestAccept os (Some cid) m = Some n'" "posted m = posted n"
      "contexts m = contexts n" "nextContext m = nextContext n" "running m = running n"
    | ob' m where "ProcessAccept os ob' m = Some n'" "posted m = posted n"
      "contexts m = contexts n" "nextContext m = nextContext n" "running m = running n"
    using assms(1) ob c n1
    by (auto simp: OnAcceptCompleted_def Let_def bind_eq_Some_conv put_app_def note_event_def split: if_splits)
  then show ?thesis
  proof cases
    case (1 m)
    with ReRequestAccept_one [OF 1(1)] same [of m] assms(2,3) show ?thesis by (simp add: one_more_def)
  next
    case (2 ob' m)
    with ProcessAccept_one [OF 2(1)] same [of m] assms(2) show ?thesis by (simp add: one_more_def)
  qed
qed

text \<open>On a server no completion key leads to a context, so only the manager's sessions change.\<close>

lemma context_of_in: "context_of sid ks = Some (cid, ob) \<Longrightarrow> (cid, ConnectContext (Some ob)) \<in> set ks"
  by (induction sid ks rule: context_of.induct) (auto split: if_splits)

lemma no_connect: "accepts_ok n \<Longrightarrow> context_of sid (contexts n) = None"
proof (cases "context_of sid (contexts n)")
  case (Some e)
  obtain cid ob where e: "e = (cid, ob)" by (cases e)
  assume ok: "accepts_ok n"
  then have "map_of (contexts n) cid = Some (ConnectContext (Some ob))"
    using context_of_in [OF Some [unfolded e]] by (simp add: accepts_ok_def)
  then have "\<exists>ob'. ConnectContext (Some ob) = AcceptContext (Some ob')" using ok unfolding accepts_ok_def by blast
  then show ?thesis by simp
qed

lemma at_session_same:
  assumes "at_session f sid n = Some n'" and "accepts_ok n"
  shows "accepts_ok n' \<and> posted n' = posted n \<and> running n' = running n"
proof -
  from assms no_connect [OF assms(2), of sid] obtain ob c where
    "n' = n\<lparr>manager := (manager n)\<lparr>sessions := hm_assign sid (conn_obj c) (sessions (manager n)), mgr_app := app c\<rparr>\<rparr>"
    by (auto simp: at_session_def bind_eq_Some_conv split: option.splits)
  with assms(2) accepts_ok_cong [of n' n] show ?thesis by simp
qed

text \<open>A completion that gives an accept back although the operation has failed.\<close>

definition failed_accept :: "completion \<Rightarrow> bool" where
  "failed_accept g \<longleftrightarrow> \<not> gqcs_ret g \<and> (case gqcs_overlapped g of Some (ContextOv cid) \<Rightarrow> True | _ \<Rightarrow> False)"

definition is_shutdown :: "completion \<Rightarrow> bool" where
  "is_shutdown g \<longleftrightarrow> gqcs_key g = ShutdownKey \<and> (\<not> gqcs_ret g \<or> gqcs_overlapped g = None)"

lemma dequeue_context:
  assumes "dequeue g n = Some n0" and "accepts_ok n" and "gqcs_overlapped g = Some (ContextOv cid)"
  shows "accepts_ok n0" "running n0 = running n" "cid \<notin> set (posted n0)" "length (posted n) = Suc (length (posted n0))"
proof -
  have n0: "cid \<in> set (posted n)" "n0 = n\<lparr>posted := remove1 cid (posted n)\<rparr>"
    using assms(1,3) by (auto simp: dequeue_def split: if_splits)
  have "distinct (posted n)" using assms(2) by (simp add: accepts_ok_def)
  then show "running n0 = running n" "cid \<notin> set (posted n0)" "length (posted n) = Suc (length (posted n0))"
    using n0 length_pos_if_in_set [OF n0(1)] by (simp_all add: length_remove1)
  show "accepts_ok n0"
    using assms(2) set_remove1_subset [of cid "posted n"] unfolding accepts_ok_def n0(2) by (auto simp: distinct_remove1)
qed

lemma dequeue_other:
  "dequeue g n = Some n0 \<Longrightarrow> (\<And>cid. gqcs_overlapped g \<noteq> Some (ContextOv cid)) \<Longrightarrow> n0 = n"
  by (auto simp: dequeue_def split: option.splits overlapped_ex.splits)

lemma turn_failed:
  assumes "io_turn os so svc g n = Some (go, n1)" and "accepts_ok n" and "\<not> is_shutdown g"
    and "\<not> gqcs_ret g \<or> gqcs_overlapped g = None"
  shows "go \<and> accepts_ok n1 \<and> posted n1 = posted n \<and> running n1 = running n"
proof -
  have "go \<and> (n1 = n \<or> (\<exists>sid. at_session (conn_close svc) sid n = Some n1))"
    using assms(1,3,4) by (auto simp: io_turn_def is_shutdown_def bind_eq_Some_conv split: if_splits completion_key.splits)
  then show ?thesis using at_session_same [OF _ assms(2)] assms(2) by blast
qed

lemma turn_io:
  assumes "io_turn os so svc g n = Some (go, n1)" and "accepts_ok n" and "gqcs_ret g"
    and "gqcs_overlapped g = Some ov" and "\<And>cid. ov \<noteq> ContextOv cid"
  shows "go \<and> accepts_ok n1 \<and> posted n1 = posted n \<and> running n1 = running n"
proof -
  have "go \<and> (n1 = n \<or> (\<exists>f sid. at_session f sid n = Some n1))"
    using assms(1,3-5)
    by (cases ov; cases "gqcs_key g") (auto simp: io_turn_def bind_eq_Some_conv simp del: if_split)
  then show ?thesis using at_session_same [OF _ assms(2)] assms(2) by blast
qed

lemma turn_context:
  assumes "io_turn os so svc g n = Some (go, n1)" and "accepts_ok n" and "gqcs_ret g"
    and "gqcs_overlapped g = Some (ContextOv cid)" and "cid \<notin> set (posted n)"
  shows "go \<and> one_more n n1"
proof -
  obtain k where k: "map_of (contexts n) cid = Some k"
    using assms(1,3,4) by (cases "map_of (contexts n) cid") (simp_all add: io_turn_def)
  moreover from k assms(2) have "\<exists>ob. k = AcceptContext (Some ob)" unfolding accepts_ok_def by blast
  ultimately obtain ok where "OnAcceptCompleted os so svc cid n = Some (ok, n1)" "go"
    using assms(1,3,4) by (auto simp: io_turn_def bind_eq_Some_conv)
  with OnAcceptCompleted_one [OF _ assms(2,5)] show ?thesis by blast
qed

lemma turn_accepts:
  assumes d: "dequeue g n = Some n0" and t: "io_turn os so svc g n0 = Some (go, n1)" and ok: "accepts_ok n"
    and live: "\<not> is_shutdown g"
  shows "go \<and> accepts_ok n1 \<and> running n1 = running n \<and>
    length (posted n) = length (posted n1) + (if failed_accept g then 1 else 0)"
proof (cases "\<exists>cid. gqcs_overlapped g = Some (ContextOv cid)")
  case True
  then obtain cid where cid: "gqcs_overlapped g = Some (ContextOv cid)" by blast
  note dq = dequeue_context [OF d ok cid]
  show ?thesis
  proof (cases "gqcs_ret g")
    case True
    with turn_context [OF t dq(1) True cid dq(3)] dq(2,4) show ?thesis by (simp add: one_more_def failed_accept_def)
  next
    case False
    with turn_failed [OF t dq(1) live] dq(2,4) cid show ?thesis by (simp add: failed_accept_def)
  qed
next
  case False
  then have n0: "n0 = n" using dequeue_other [OF d] by blast
  have nf: "\<not> failed_accept g" using False by (auto simp: failed_accept_def split: option.splits overlapped_ex.splits)
  show ?thesis
  proof (cases "\<not> gqcs_ret g \<or> gqcs_overlapped g = None")
    case True
    with turn_failed [OF t [unfolded n0] ok live] nf show ?thesis by simp
  next
    case ret: False
    then obtain ov where ov: "gqcs_overlapped g = Some ov" by auto
    from ret have r: "gqcs_ret g" by simp
    have "go \<and> accepts_ok n1 \<and> posted n1 = posted n \<and> running n1 = running n"
      using False ov by (intro turn_io [OF t [unfolded n0] ok r ov]) auto
    with nf show ?thesis by simp
  qed
qed

lemma worker_accepts:
  assumes "IOWorkerThread os so svc gs n = Some n'" and "accepts_ok n" and "running n" and "\<not> list_ex is_shutdown gs"
  shows "accepts_ok n' \<and> length (posted n) = length (posted n') + length (filter failed_accept gs)"
  using assms
proof (induction gs arbitrary: n)
  case (Cons g gs)
  then obtain n0 go n1 where s: "dequeue g n = Some n0" "io_turn os so svc g n0 = Some (go, n1)"
    "(if go then IOWorkerThread os so svc gs n1 else Some n1) = Some n'"
    by (auto simp: bind_eq_Some_conv)
  from turn_accepts [OF s(1,2) Cons.prems(2)] Cons.prems(4) have t: "go" "accepts_ok n1" "running n1 = running n"
    "length (posted n) = length (posted n1) + (if failed_accept g then 1 else 0)" by auto
  with s(3) Cons.IH [of n1] Cons.prems(3,4) show ?case by auto
qed simp

section \<open>Starting\<close>

lemma request_accepts_more:
  assumes "request_accepts k os n = Some n'" and "accepts_ok n"
  shows "accepts_ok n' \<and> length (posted n') = length (posted n) + k"
  using assms
proof (induction k arbitrary: n)
  case (Suc k)
  then obtain n1 where "RequestAccept os n = Some n1" "request_accepts k os n1 = Some n'" by (auto simp: bind_eq_Some_conv)
  with RequestAccept_one [OF this(1) Suc.prems(2)] Suc.IH [of n1] show ?case by (simp add: one_more_def)
qed simp

lemma more_fields:
  fixes n n' :: "'w network"
  assumes "iocp_core.more n' = iocp_core.more n"
  shows "contexts n' = contexts n" "posted n' = posted n" "nextContext n' = nextContext n"
    "manager n' = manager n"
  using assms by (cases n; cases n'; simp)+

lemma Start_True:
  assumes "Start os svc port n = Some (True, n')" and "contexts n = []" and "posted n = []"
  shows "running n' \<and> accepts_ok n' \<and> length (posted n') = ACCEPT_NUM"
proof -
  from assms(1) obtain skt n0 n2 n3 n4 where s: "CreateSocketAndBind os (listenSocket n) port n = (True, skt, n0)"
    "ListenSocket os skt (n0\<lparr>listenSocket := skt\<rparr>) = (True, n2)" "WSAIoctlAcceptEx os n2 = (True, n3)"
    "request_accepts ACCEPT_NUM os n3 = Some n4"
    "StartHeartbeatTask svc (StartWorkerThreads (MAX_WORKER_THREAD_NUM (cpuCount n4)) n4) = Some n'"
    by (auto simp: Start_def bind_eq_Some_conv Let_def split: prod.splits if_splits)
  note m = more_fields [OF CreateSocketAndBind_True(11) [OF s(1)]]
  have "contexts n3 = contexts n0" "posted n3 = posted n0"
    using s(2,3) by (auto simp: ListenSocket_def WSAIoctlAcceptEx_def call_ok_def call_code_def note_event_def split: if_splits)
  then have n3: "contexts n3 = []" "posted n3 = []" using m assms(2,3) by simp_all
  then have "accepts_ok n3" by (simp add: accepts_ok_def)
  from request_accepts_more [OF s(4) this] n3 have n4: "accepts_ok n4" "length (posted n4) = ACCEPT_NUM" by simp_all
  have "running n' \<and> posted n' = posted n4 \<and> contexts n' = contexts n4 \<and> nextContext n' = nextContext n4"
    using s(5) by (auto simp: StartHeartbeatTask_def StartWorkerThreads_def note_event_def bind_eq_Some_conv)
  with n4 accepts_ok_cong [of n' n4] show ?thesis by simp
qed

text \<open>C19: A server that has started has ten accepts posted. While its workers run, whatever
  completions they get, each accept that completes is replaced by another one, on success and on
  every error path of the handler; but an accept whose completion reports a failure is never
  replaced. After ten such failures no accept is posted any more and the server is deaf.\<close>

theorem accept_slots:
  assumes "Start os svc port n = Some (True, n1)" and "contexts n = []" and "posted n = []"
    and "IOWorkerThread os so svc gs n1 = Some n2" and "\<not> list_ex is_shutdown gs"
  shows "length (posted n2) + length (filter failed_accept gs) = 10 \<and>
    (length (filter failed_accept gs) = 10 \<longrightarrow> posted n2 = [])"
proof -
  from Start_True [OF assms(1-3)] have s: "running n1" "accepts_ok n1" "length (posted n1) = 10"
    by (simp_all add: ACCEPT_NUM_def)
  from worker_accepts [OF assms(4) s(2,1) assms(5)] s(3) show ?thesis by auto
qed

text \<open>Windows takes everything; then ten clients are gone before their accepts complete.\<close>

definition idle_service :: "unit core_service" where
  "idle_service = \<lparr>OnConnected = \<lambda>s w. Some (s, w), OnDisconnected = \<lambda>s w. Some (s, w),
     OnRecv = \<lambda>p s w. Some (s, w), OnSend = \<lambda>k s w. Some (s, w), OnHeartbeat = \<lambda>s w. Some (s, w)\<rparr>"

definition good_os :: net_os where
  "good_os = \<lparr>os_error = \<lambda>_. 0, os_socket = \<lambda>_. 5\<rparr>"

definition good_calls :: os_calls where
  "good_calls = \<lparr>os_WSARecv = \<lambda>_ _. True, os_WSASend = \<lambda>_ _. True, os_getpeername = \<lambda>_. True\<rparr>"

definition reset_accept :: "nat \<Rightarrow> completion" where
  "reset_accept cid = \<lparr>gqcs_ret = False, gqcs_key = ZeroKey, gqcs_overlapped = Some (ContextOv cid), gqcs_error = 64\<rparr>"

lemma five_valid: "(5 :: u64) \<noteq> INVALID_SOCKET"
  by (simp add: INVALID_SOCKET_def)

lemma good_round: "round_ok good_os i"
  by (simp add: round_ok_def good_os_def five_valid)

lemma good_accepts: "\<exists>n'. request_accepts k good_os n = Some n' \<and> posted n' = posted n @ [nextContext n ..< nextContext n + k] \<and>
    manager n' = manager n"
proof (induction k arbitrary: n)
  case (Suc k)
  have "RequestAccept good_os n = Some (retry good_os n)"
    using RequestAccept_after [of good_os 0 n] good_round by (simp add: round_ok_iff)
  moreover note round_True [OF good_round, of n]
  moreover obtain n' where "request_accepts k good_os (retry good_os n) = Some n'"
    "posted n' = posted (retry good_os n) @ [nextContext (retry good_os n) ..< nextContext (retry good_os n) + k]"
    "manager n' = manager (retry good_os n)" using Suc by blast
  ultimately show ?case by (simp add: accept_frame_def upt_conv_Cons)
qed simp

lemma good_start:
  fixes n :: "'w network"
  assumes "\<not> running n" and "contexts n = []" and "posted n = []" and "nextContext n = 0" and "sessions (manager n) = []"
  shows "\<exists>n1. Start good_os svc 7777 n = Some (True, n1) \<and> posted n1 = [0 ..< 10] \<and> manager n1 = manager n"
proof -
  have call: "call_ok good_os e c = (True, note_event e c\<lparr>os_calls_made := os_calls_made c + 1\<rparr>)"
    for e and c :: "'w network" by (simp add: call_ok_def call_code_def good_os_def)
  have calls: "calls_ok good_os es c = (True, c\<lparr>trace := trace c @ es, os_calls_made := os_calls_made c + length es\<rparr>)"
    for es and c :: "'w network" by (induction es arbitrary: c) (simp_all add: call note_event_def)
  have skt: "os_socket good_os i = 5" for i by (simp add: good_os_def)
  have "\<exists>c'. CreateSocketAndBind good_os s p c = (True, 5, c')" for s p and c :: "'w network"
    using five_valid by (simp add: CreateSocketAndBind_def InitWinSocket_def CreateSocket_def call BindSocket_calls calls
        InitIocp_def Let_def skt split: prod.split)
  then obtain n0 where n0: "CreateSocketAndBind good_os (listenSocket n) 7777 n = (True, 5, n0)" by blast
  have m: "contexts n0 = []" "posted n0 = []" "nextContext n0 = 0" "manager n0 = manager n"
    using more_fields [OF CreateSocketAndBind_True(11) [OF n0]] assms by simp_all
  obtain n2 where n2: "ListenSocket good_os 5 (n0\<lparr>listenSocket := 5\<rparr>) = (True, n2)"
    "posted n2 = []" "nextContext n2 = 0" "manager n2 = manager n"
    using m by (simp add: ListenSocket_def call note_event_def)
  obtain n3 where n3: "WSAIoctlAcceptEx good_os n2 = (True, n3)"
    "posted n3 = []" "nextContext n3 = 0" "manager n3 = manager n"
    using n2 by (simp add: WSAIoctlAcceptEx_def call note_event_def)
  obtain n4 where n4: "request_accepts 10 good_os n3 = Some n4" "posted n4 = [0 ..< 10]" "manager n4 = manager n"
    using good_accepts [of 10 n3] n3 by auto
  have "Heartbeat d s now (manager n) = Some (manager n)" for d s now
    using assms(5) by (cases s) (simp_all add: Heartbeat_def)
  then show ?thesis using n0 n2(1) n3(1) n4 assms(1)
    by (simp add: Start_def StartHeartbeatTask_def StartWorkerThreads_def note_event_def ACCEPT_NUM_def)
qed

lemma resets_run:
  "running n \<Longrightarrow> \<exists>n'. IOWorkerThread os so svc (map reset_accept (posted n)) n = Some n'"
proof (induction "posted n" arbitrary: n)
  case (Cons cid cs)
  then have "dequeue (reset_accept cid) n = Some (n\<lparr>posted := cs\<rparr>)"
    using Cons(2) [symmetric] by (simp add: dequeue_def reset_accept_def)
  moreover have "io_turn os so svc (reset_accept cid) m = Some (True, m)" for m
    by (simp add: io_turn_def reset_accept_def IsExpectedDisConnect_def)
  ultimately show ?case using Cons(1) [of "n\<lparr>posted := cs\<rparr>"] Cons(2) [symmetric] Cons(3) by simp
qed simp

lemma accept_slots_witness:
  "\<exists>n1 n2. Start good_os idle_service 7777 idle_network = Some (True, n1) \<and> posted n1 = [0 ..< 10] \<and>
     IOWorkerThread good_os good_calls idle_service (map reset_accept [0 ..< 10]) n1 = Some n2 \<and> posted n2 = []"
proof -
  have idle: "contexts idle_network = []" "posted idle_network = []" by (simp_all add: idle_network_def)
  obtain n1 where n1: "Start good_os idle_service 7777 idle_network = Some (True, n1)" "posted n1 = [0 ..< 10]"
    using good_start [of idle_network idle_service] by (auto simp: idle_network_def)
  obtain n2 where n2: "IOWorkerThread good_os good_calls idle_service (map reset_accept [0 ..< 10]) n1 = Some n2"
    using resets_run [of n1 good_os good_calls idle_service] Start_True [OF n1(1) idle] n1(2) by auto
  have "\<not> list_ex is_shutdown (map reset_accept [0 ..< 10])" "length (filter failed_accept (map reset_accept [0 ..< 10])) = 10"
    by (simp_all add: list_ex_iff is_shutdown_def reset_accept_def failed_accept_def filter_map o_def)
  then have "posted n2 = []" using accept_slots [OF n1(1) idle n2] by blast
  with n1 n2 show ?thesis by blast
qed

end
