(* ===== verification/Thread_Manager.thy ===== *)
theory Thread_Manager
  imports Job_Queue Game_World
begin

text \<open>
  ServerCore/Thread/ThreadManager.cpp: the threads of the process, the loop of a frame thread, and
  waiting for all of them. A thread is its name and whether its body returns (Some) or runs for
  ever (None).
\<close>

section \<open>Frame threads\<close>

text \<open>Nanoseconds.\<close>

definition FRAME_INTERVAL :: int where
  "FRAME_INTERVAL = 50 * 10 ^ 6"

text \<open>
  One turn of the loop: the callback takes d, then the thread sleeps until the next frame time if
  that lies ahead. The state is the current time and the next frame time.
\<close>

definition frame_turn :: "int \<Rightarrow> int \<Rightarrow> int \<times> int \<Rightarrow> int \<times> int" where
  "frame_turn frameTime d st =
     (case st of (startTime, nextFrameTime) \<Rightarrow>
        let endFrameTime = startTime + d in
        (if endFrameTime < nextFrameTime then nextFrameTime else endFrameTime, nextFrameTime + frameTime))"

text \<open>The state when the k-th frame starts; d gives the duration of each callback.\<close>

fun frame_state :: "int \<Rightarrow> (nat \<Rightarrow> int) \<Rightarrow> int \<Rightarrow> nat \<Rightarrow> int \<times> int" where
  "frame_state frameTime d now 0 = (now, now + frameTime)"
| "frame_state frameTime d now (Suc k) = frame_turn frameTime (d k) (frame_state frameTime d now k)"

text \<open>The loop itself: while (true).\<close>

partial_function (option) frame_loop :: "int \<Rightarrow> (nat \<Rightarrow> int) \<Rightarrow> nat \<Rightarrow> int \<times> int \<Rightarrow> unit option" where
  "frame_loop frameTime d k st = frame_loop frameTime d (Suc k) (frame_turn frameTime (d k) st)"

section \<open>The manager\<close>

record os_thread =
  thread_name :: string
  thread_result :: "unit option"

definition LaunchThread :: "string \<Rightarrow> u16 \<Rightarrow> unit option \<Rightarrow> os_thread list \<Rightarrow> os_thread list" where
  "LaunchThread threadName threadCount body ts =
     ts @ map (\<lambda>thread. \<lparr>thread_name = threadName @ ''-'' @ dec thread, thread_result = body\<rparr>) [0 ..< unat threadCount]"

definition LaunchFrameThread :: "string \<Rightarrow> u16 \<Rightarrow> (nat \<Rightarrow> int) \<Rightarrow> int \<Rightarrow> int \<Rightarrow> os_thread list \<Rightarrow> os_thread list" where
  "LaunchFrameThread threadName threadCount d frameTime now ts =
     ts @ map (\<lambda>thread. \<lparr>thread_name = threadName @ ''-'' @ dec thread,
                         thread_result = frame_loop frameTime d 0 (now, now + frameTime)\<rparr>) [0 ..< unat threadCount]"

definition Launch :: "string \<Rightarrow> u16 \<Rightarrow> unit option \<Rightarrow> os_thread list \<Rightarrow> os_thread list" where
  "Launch threadName cnt body ts = LaunchThread threadName cnt body ts"

definition LaunchFrame :: "string \<Rightarrow> u16 \<Rightarrow> (nat \<Rightarrow> int) \<Rightarrow> int \<Rightarrow> int \<Rightarrow> os_thread list \<Rightarrow> os_thread list" where
  "LaunchFrame threadName cnt d frameTime now ts = LaunchFrameThread threadName cnt d frameTime now ts"

definition LaunchGroup :: "group_manager \<Rightarrow> u16 \<Rightarrow> u16 \<Rightarrow> unit option \<Rightarrow> os_thread list \<Rightarrow> os_thread list" where
  "LaunchGroup m gid cnt jobCallback ts = LaunchThread (GetGroupName gid m) cnt jobCallback ts"

fun JoinAll :: "os_thread list \<Rightarrow> unit option" where
  "JoinAll [] = Some ()"
| "JoinAll (t # ts) = do { _ \<leftarrow> thread_result t; JoinAll ts }"

text \<open>LHoldLock of the calling thread.\<close>

fun DeleteTLSData :: "u64 list \<Rightarrow> u64 list" where
  "DeleteTLSData [] = []"
| "DeleteTLSData (l # ls) = DeleteTLSData ls"

definition thread_Shutdown :: "os_thread list \<Rightarrow> u64 list \<Rightarrow> u64 list option" where
  "thread_Shutdown ts hold = do { _ \<leftarrow> JoinAll ts; Some (DeleteTLSData hold) }"

section \<open>The schedule\<close>

lemma next_frame: "snd (frame_state ft d now k) = now + (int k + 1) * ft"
  by (induction k) (auto simp: frame_turn_def Let_def split_beta algebra_simps)

lemma frame_start_Suc:
  "fst (frame_state ft d now (Suc k)) = max (fst (frame_state ft d now k) + d k) (now + (int k + 1) * ft)"
  using next_frame [of ft d now k] by (simp add: frame_turn_def Let_def split_beta)

lemma frame_start_ge: "now + int k * ft \<le> fst (frame_state ft d now k)"
proof (cases k)
  case (Suc j)
  then show ?thesis using frame_start_Suc [of ft d now j] by (simp add: algebra_simps)
qed simp

text \<open>A backlog of work is caught up: the frames behind schedule start one right after the other.\<close>

lemma frame_on_time:
  "fst (frame_state ft d now k) = now + int k * ft \<Longrightarrow> d k \<le> ft \<Longrightarrow>
    fst (frame_state ft d now (Suc k)) = now + int (Suc k) * ft"
  by (simp only: frame_start_Suc) (simp add: algebra_simps)

lemma frame_catch_up:
  assumes "now + (int k + 1) * ft \<le> fst (frame_state ft d now k) + d k"
  shows "fst (frame_state ft d now (Suc k)) = fst (frame_state ft d now k) + d k"
  using assms by (simp only: frame_start_Suc max_def) simp

lemma frame_loop_diverges: "frame_loop ft d k st = None"
proof -
  have "frame_loop ft d k st \<noteq> Some r" for r
  proof
    assume "frame_loop ft d k st = Some r"
    then show False
      by (rule frame_loop.raw_induct [where P = "\<lambda>ft d k st r. False", rotated]) blast
  qed
  then show ?thesis by (cases "frame_loop ft d k st") auto
qed

lemma JoinAll_iff: "JoinAll ts = Some () \<longleftrightarrow> (\<forall>t \<in> set ts. thread_result t = Some ())"
  by (induction ts) (auto simp: bind_eq_Some_conv)

lemma JoinAll_frame:
  assumes "0 < unat cnt"
  shows "JoinAll (LaunchFrame name cnt d ft now ts @ us) = None"
proof -
  let ?t = "\<lparr>thread_name = name @ ''-'' @ dec 0, thread_result = frame_loop ft d 0 (now, now + ft)\<rparr>"
  have "?t \<in> set (LaunchFrame name cnt d ft now ts @ us)"
    using assms by (force simp: LaunchFrame_def LaunchFrameThread_def)
  moreover have "thread_result ?t = None" by (simp add: frame_loop_diverges)
  ultimately have "JoinAll (LaunchFrame name cnt d ft now ts @ us) \<noteq> Some ()"
    using JoinAll_iff by force
  then show ?thesis by (cases "JoinAll (LaunchFrame name cnt d ft now ts @ us)") auto
qed

end
