(* ===== verification/Log_Manager.thy ===== *)
theory Log_Manager
  imports Game_World
begin

text \<open>
  ServerCore/Utils/Timer.cpp, Utils.cpp, Log/LogDefine.h and Log/LogManager.cpp: formatted times,
  log lines, and the buffered log file that the worker of the system group writes. The time zone
  (localtime_s) and the file system (whether a file opens) are parameters; the clock readings are
  arguments. The colours of the debug console are left out.
\<close>

section \<open>Formatted times\<close>

text \<open>The fields of std::tm that are used; tm_year counts from 1900 and tm_mon from 0.\<close>

record tm =
  tm_year :: nat
  tm_mon :: nat
  tm_mday :: nat
  tm_hour :: nat
  tm_min :: nat
  tm_sec :: nat

text \<open>A number with leading zeros, and snprintf into a buffer of n characters.\<close>

definition pad_zero :: "nat \<Rightarrow> nat \<Rightarrow> string" where
  "pad_zero width n = (let d = dec n in replicate (width - length d) CHR ''0'' @ d)"

definition snprintf :: "nat \<Rightarrow> string \<Rightarrow> string" where
  "snprintf n s = take (n - 1) s"

definition date_text :: "tm \<Rightarrow> char \<Rightarrow> string" where
  "date_text t dateSep = pad_zero 4 (tm_year t + 1900) @ [dateSep] @ pad_zero 2 (tm_mon t + 1) @ [dateSep] @ pad_zero 2 (tm_mday t)"

text \<open>now counts milliseconds of the system clock.\<close>

definition GetFormattedTime :: "(int \<Rightarrow> tm) \<Rightarrow> int \<Rightarrow> char \<Rightarrow> char \<Rightarrow> string" where
  "GetFormattedTime localtime now dateSep timeSep =
     (let t = localtime now in
      snprintf 32 (date_text t dateSep @ '' '' @ pad_zero 2 (tm_hour t) @ [timeSep] @ pad_zero 2 (tm_min t) @ [timeSep] @
        pad_zero 2 (tm_sec t) @ ''.'' @ pad_zero 3 (nat (now mod 1000))))"

definition GetFormattedDate :: "(int \<Rightarrow> tm) \<Rightarrow> int \<Rightarrow> char \<Rightarrow> string" where
  "GetFormattedDate localtime now dateSep = snprintf 16 (date_text (localtime now) dateSep)"

definition GetFormattedHour :: "(int \<Rightarrow> tm) \<Rightarrow> int \<Rightarrow> char \<Rightarrow> string" where
  "GetFormattedHour localtime now timeSep =
     (let t = localtime now in snprintf 6 (pad_zero 2 (tm_hour t) @ [timeSep] @ pad_zero 2 (tm_min t)))"

text \<open>IsNewDay reads the clock twice, at t1 and t2, and changes the thread's LToday.\<close>

definition IsNewDay :: "(int \<Rightarrow> tm) \<Rightarrow> int \<Rightarrow> int \<Rightarrow> string \<Rightarrow> bool \<times> string" where
  "IsNewDay localtime t1 t2 today =
     (let today1 = GetFormattedDate localtime t1 CHR ''/''; now = GetFormattedDate localtime t2 CHR ''/'' in
      if today1 \<noteq> now then (True, now) else (False, today1))"

text \<open>Time points count nanoseconds; the cast truncates.\<close>

definition GetTimeDiff :: "int \<Rightarrow> int \<Rightarrow> int" where
  "GetTimeDiff start stop = (stop - start) sdiv 10 ^ 6"

definition GetNowMsTime :: "int \<Rightarrow> int" where
  "GetNowMsTime now = now sdiv 10 ^ 6"

text \<open>The day that LToday held before the call plays no role: it is overwritten first.\<close>

lemma IsNewDay_forgets: "IsNewDay localtime t1 t2 today = IsNewDay localtime t1 t2 today'"
  by (simp add: IsNewDay_def)

lemma IsNewDay_same: "\<not> fst (IsNewDay localtime t t today)"
  by (simp add: IsNewDay_def Let_def)

section \<open>Paths\<close>

definition RemoveLastPathComponent :: "string \<Rightarrow> string" where
  "RemoveLastPathComponent path =
     (if CHR 0x5C \<in> set path then rev (tl (dropWhile (\<lambda>c. c \<noteq> CHR 0x5C) (rev path))) else path)"

definition GoUpDirectories :: "string \<Rightarrow> nat \<Rightarrow> string" where
  "GoUpDirectories path levels = (RemoveLastPathComponent ^^ levels) path"

text \<open>debug says whether the build is a debug build.\<close>

definition SetFilePath :: "bool \<Rightarrow> string \<Rightarrow> string" where
  "SetFilePath debug moduleFileName =
     (if debug then GoUpDirectories moduleFileName 3 else RemoveLastPathComponent moduleFileName)"

lemma RemoveLastPathComponent_append:
  "CHR 0x5C \<notin> set name \<Longrightarrow> RemoveLastPathComponent (dir @ [CHR 0x5C] @ name) = dir"
proof -
  assume "CHR 0x5C \<notin> set name"
  then have "dropWhile (\<lambda>c. c \<noteq> CHR 0x5C) (rev name @ CHR 0x5C # rev dir) = CHR 0x5C # rev dir"
    by (subst dropWhile_append2) auto
  then show ?thesis by (simp add: RemoveLastPathComponent_def)
qed

text \<open>The file that CrashDump writes; the dump itself is left to Windows.\<close>

definition MakeDumpFileName :: "bool \<Rightarrow> string \<Rightarrow> (int \<Rightarrow> tm) \<Rightarrow> int \<Rightarrow> string" where
  "MakeDumpFileName debug moduleFileName localtime now =
     SetFilePath debug moduleFileName @ [CHR 0x5C] @ ''Dumps'' @ [CHR 0x5C] @ ''dump_'' @
       GetFormattedTime localtime now CHR ''_'' CHR ''_'' @ ''.dmp''"

section \<open>Log lines\<close>

datatype log_type = Info | SystemLog | Warning | ErrorLog

record log_message =
  lm_type :: log_type
  lm_message :: string
  lm_timeStamp :: string
  lm_functionName :: string

text \<open>Both resize and the cut followed by append make a field of exactly n characters.\<close>

definition fit :: "nat \<Rightarrow> string \<Rightarrow> string" where
  "fit n s = take n s @ replicate (n - length s) CHR '' ''"

definition type_name :: "log_type \<Rightarrow> string" where
  "type_name t = (case t of Info \<Rightarrow> ''INFO'' | SystemLog \<Rightarrow> ''SYSTEM'' | Warning \<Rightarrow> ''WARNING'' | ErrorLog \<Rightarrow> ''ERROR'')"

text \<open>threadName is that of the thread that runs ToString, not of the one that logged.\<close>

definition ToString :: "string \<Rightarrow> log_message \<Rightarrow> string" where
  "ToString threadName m =
     lm_timeStamp m @ '' '' @ fit 8 (type_name (lm_type m)) @ '' '' @ fit 12 threadName @ ''--- '' @
     fit 40 (lm_functionName m) @ '' : '' @ lm_message m @ [CHR 0x0A]"

lemma fit_length [simp]: "length (fit n s) = n"
  by (simp add: fit_def)

lemma ToString_columns:
  "drop (length (lm_timeStamp m) + 69) (ToString threadName m) = lm_message m @ [CHR 0x0A]"
  by (simp add: ToString_def)

section \<open>The log file\<close>

definition flushSize :: nat where
  "flushSize = 10"

definition flushTime :: int where
  "flushTime = 2 * 10 ^ 9"

text \<open>
  What the manager reads from its surroundings at one call: the steady clock, the two readings of
  the system clock in IsNewDay, the one for a file name; and which files open.
\<close>

record log_env =
  localtime :: "int \<Rightarrow> tm"
  can_open :: "string \<Rightarrow> bool"
  log_dir :: string

record log_clock =
  steady :: int
  day1 :: int
  day2 :: int
  file_day :: int

text \<open>The file that is open, and everything written so far with the name of its file.\<close>

record log_manager =
  log_file :: "string option"
  writes :: "(string \<times> string) list"
  log_buffer :: "string list"
  lastFlushTime :: int
  today :: string

definition CreateLogFile :: "log_env \<Rightarrow> int \<Rightarrow> log_manager \<Rightarrow> log_manager" where
  "CreateLogFile env now m =
     (let fileName = log_dir env @ [CHR 0x5C] @ ''Logs'' @ [CHR 0x5C] @ ''Serverlog_'' @
            GetFormattedDate (localtime env) now CHR ''_'' @ ''.log'' in
      m\<lparr>log_file := (if can_open env fileName then Some fileName else None)\<rparr>)"

text \<open>Writing to a stream that is not open does nothing; the buffer is cleared all the same.\<close>

definition FlushBuffer :: "log_manager \<Rightarrow> log_manager" where
  "FlushBuffer m =
     (case log_file m of
        None \<Rightarrow> m\<lparr>log_buffer := []\<rparr>
      | Some f \<Rightarrow> m\<lparr>writes := writes m @ map (\<lambda>l. (f, l)) (log_buffer m), log_buffer := []\<rparr>)"

definition CloseLogFile :: "log_manager \<Rightarrow> log_manager" where
  "CloseLogFile m = (if log_file m = None then m else (FlushBuffer m)\<lparr>log_file := None\<rparr>)"

definition log_Init :: "log_env \<Rightarrow> log_clock \<Rightarrow> log_manager \<Rightarrow> log_manager" where
  "log_Init env t m =
     (let m1 = m\<lparr>log_buffer := take 32 (log_buffer m) @ replicate (32 - length (log_buffer m)) []\<rparr> in
      (CreateLogFile env (file_day t) m1)\<lparr>lastFlushTime := steady t\<rparr>)"

definition log_Shutdown :: "log_manager \<Rightarrow> log_manager" where
  "log_Shutdown m = CloseLogFile m"

definition ProcessThread :: "log_env \<Rightarrow> log_clock \<Rightarrow> string \<Rightarrow> log_manager \<Rightarrow> log_manager" where
  "ProcessThread env t message m =
     (case IsNewDay (localtime env) (day1 t) (day2 t) (today m) of (newDay, day) \<Rightarrow>
        let m1 = m\<lparr>today := day\<rparr>;
            m2 = (if newDay then CreateLogFile env (file_day t) (CloseLogFile m1) else m1);
            m3 = m2\<lparr>log_buffer := log_buffer m2 @ [message]\<rparr> in
        if flushSize \<le> length (log_buffer m3) \<or> flushTime \<le> steady t - lastFlushTime m3
        then (FlushBuffer m3)\<lparr>lastFlushTime := steady t\<rparr> else m3)"

text \<open>PushLog makes the message where it is called; the job that writes it runs later.\<close>

definition PushLog :: "log_type \<Rightarrow> string \<Rightarrow> string \<Rightarrow> string \<Rightarrow> log_message" where
  "PushLog t message timeStamp fnName =
     \<lparr>lm_type = t, lm_message = message, lm_timeStamp = timeStamp, lm_functionName = fnName\<rparr>"

text \<open>The jobs of the system group's only worker, in the order they run.\<close>

fun run_logs :: "log_env \<Rightarrow> string \<Rightarrow> (log_clock \<times> log_message) list \<Rightarrow> log_manager \<Rightarrow> log_manager" where
  "run_logs env worker [] m = m"
| "run_logs env worker ((t, msg) # ls) m = run_logs env worker ls (ProcessThread env t (ToString worker msg) m)"

section \<open>No line is lost while files open\<close>

text \<open>What has been written and what waits in the buffer.\<close>

definition logged :: "log_manager \<Rightarrow> string list" where
  "logged m = map snd (writes m) @ log_buffer m"

definition all_open :: "log_env \<Rightarrow> bool" where
  "all_open env \<longleftrightarrow> (\<forall>d. can_open env (log_dir env @ [CHR 0x5C] @ ''Logs'' @ [CHR 0x5C] @ ''Serverlog_'' @ d @ ''.log''))"

lemma FlushBuffer_logged: "log_file m \<noteq> None \<Longrightarrow> logged (FlushBuffer m) = logged m \<and> log_file (FlushBuffer m) = log_file m"
  by (auto simp: FlushBuffer_def logged_def o_def)

lemma CreateLogFile_open: "all_open env \<Longrightarrow> log_file (CreateLogFile env t m) \<noteq> None \<and> logged (CreateLogFile env t m) = logged m"
  by (simp add: all_open_def CreateLogFile_def logged_def Let_def)

lemma CloseLogFile_logged: "log_file m \<noteq> None \<Longrightarrow> logged (CloseLogFile m) = logged m"
  using FlushBuffer_logged [of m] by (auto simp: CloseLogFile_def logged_def)

lemma ProcessThread_logged:
  assumes "all_open env" and "log_file m \<noteq> None"
  shows "log_file (ProcessThread env t msg m) \<noteq> None \<and> logged (ProcessThread env t msg m) = logged m @ [msg] \<and>
    length (log_buffer (ProcessThread env t msg m)) < flushSize"
proof -
  obtain newDay day where d: "IsNewDay (localtime env) (day1 t) (day2 t) (today m) = (newDay, day)" by fastforce
  define m2 where "m2 = (if newDay then CreateLogFile env (file_day t) (CloseLogFile (m\<lparr>today := day\<rparr>)) else m\<lparr>today := day\<rparr>)"
  define m3 where "m3 = m2\<lparr>log_buffer := log_buffer m2 @ [msg]\<rparr>"
  have "log_file m2 \<noteq> None \<and> logged m2 = logged m"
    using CreateLogFile_open [OF assms(1)] CloseLogFile_logged [of "m\<lparr>today := day\<rparr>"] assms(2)
    by (simp add: m2_def) (simp add: logged_def)
  then have m3: "log_file m3 \<noteq> None" "logged m3 = logged m @ [msg]" by (simp_all add: m3_def) (simp add: logged_def)
  have "ProcessThread env t msg m = (if flushSize \<le> length (log_buffer m3) \<or> flushTime \<le> steady t - lastFlushTime m3
        then (FlushBuffer m3)\<lparr>lastFlushTime := steady t\<rparr> else m3)"
    by (simp add: ProcessThread_def d Let_def m2_def m3_def)
  moreover have "logged (m\<lparr>lastFlushTime := s\<rparr>) = logged m" for s m by (simp add: logged_def)
  moreover have "log_buffer (FlushBuffer m3) = []" by (simp add: FlushBuffer_def split: option.split)
  ultimately show ?thesis using FlushBuffer_logged [OF m3(1)] m3 by (simp add: flushSize_def)
qed

text \<open>C30: While the log files can be opened, the log is complete: after any list of log jobs, across
  any change of day, what was written followed by what waits in the buffer is what was there before
  followed by the line of every message, once and in the order of the jobs; fewer than ten lines
  wait, and after Shutdown none.\<close>

theorem log_complete:
  assumes "all_open env" and "log_file m \<noteq> None" and "ls \<noteq> []" and "m' = run_logs env worker ls m"
  shows "map snd (writes m') @ log_buffer m' =
      map snd (writes m) @ log_buffer m @ map (ToString worker \<circ> snd) ls \<and>
    length (log_buffer m') < 10 \<and>
    map snd (writes (log_Shutdown m')) = map snd (writes m') @ log_buffer m' \<and> log_buffer (log_Shutdown m') = []"
proof -
  have run: "log_file (run_logs env worker ls m) \<noteq> None \<and>
      logged (run_logs env worker ls m) = logged m @ map (ToString worker \<circ> snd) ls \<and>
      (length (log_buffer m) < flushSize \<or> ls \<noteq> [] \<longrightarrow> length (log_buffer (run_logs env worker ls m)) < flushSize)"
    if "log_file m \<noteq> None" for ls m
    using that
  proof (induction ls arbitrary: m)
    case (Cons l ls)
    obtain t msg where l: "l = (t, msg)" by (cases l)
    note p = ProcessThread_logged [OF assms(1) Cons.prems, of t "ToString worker msg"]
    with Cons.IH [of "ProcessThread env t (ToString worker msg) m"] show ?case by (simp add: l)
  qed simp
  have m': "log_file m' \<noteq> None" "logged m' = logged m @ map (ToString worker \<circ> snd) ls" "length (log_buffer m') < 10"
    using run [OF assms(2), of ls] assms(3,4) by (simp_all add: flushSize_def)
  moreover from m'(1) have "map snd (writes (log_Shutdown m')) = logged m'" "log_buffer (log_Shutdown m') = []"
    by (auto simp: log_Shutdown_def CloseLogFile_def FlushBuffer_def logged_def o_def)
  ultimately show ?thesis by (simp add: logged_def)
qed

text \<open>Twelve messages after Init: the first flush also writes the 32 empty strings of the resized buffer.\<close>

definition demo_env :: log_env where
  "demo_env = \<lparr>localtime = \<lambda>t. \<lparr>tm_year = 125, tm_mon = 0, tm_mday = 1, tm_hour = 0, tm_min = 0, tm_sec = 0\<rparr>,
     can_open = \<lambda>_. True, log_dir = ''C:''\<rparr>"

definition demo_clock :: log_clock where
  "demo_clock = \<lparr>steady = 0, day1 = 0, day2 = 0, file_day = 0\<rparr>"

definition demo_log :: log_manager where
  "demo_log = log_Init demo_env demo_clock
     \<lparr>log_file = None, writes = [], log_buffer = [], lastFlushTime = 0, today = []\<rparr>"

lemma log_complete_witness:
  "let m' = run_logs demo_env ''System'' (replicate 12 (demo_clock, PushLog Info ''x'' ''t'' ''f'')) demo_log in
     map snd (writes (log_Shutdown m')) = replicate 32 [] @ replicate 12 (ToString ''System'' (PushLog Info ''x'' ''t'' ''f''))"
proof -
  have d: "all_open demo_env" "log_file demo_log \<noteq> None" "map snd (writes demo_log) @ log_buffer demo_log = replicate 32 []"
    by (simp_all add: all_open_def demo_env_def demo_log_def log_Init_def CreateLogFile_def Let_def)
  let ?ls = "replicate 12 (demo_clock, PushLog Info ''x'' ''t'' ''f'')"
  have "?ls \<noteq> []" by simp
  note c = log_complete [OF d(1,2) this refl, of "''System''"]
  from c have "map snd (writes (log_Shutdown (run_logs demo_env ''System'' ?ls demo_log))) =
      (map snd (writes demo_log) @ log_buffer demo_log) @ map (ToString ''System'' \<circ> snd) ?ls"
    by (simp only: append_assoc)
  then show ?thesis unfolding d(3) Let_def map_replicate by simp
qed

end
