(* ===== verification/Core_Service.thy ===== *)
theory Core_Service
  imports Iocp_Laws Thread_Manager Log_Manager Lock_Order
begin

text \<open>
  ServerCore/CoreService.cpp: running and stopping a service, over the network, the threads, the
  job queue, the sessions and the log.
\<close>

section \<open>State\<close>

record ('w, 'c) service =
  net :: "'w network"
  has_core :: bool
  is_server :: bool
  svc_threads :: "os_thread list"
  svc_jobs :: "'c job_queue"
  svc_groups :: group_manager
  svc_log :: log_manager
  svc_deadlock :: detector
  svc_hold :: "u64 list"

definition IsServerType :: "('w, 'c) service \<Rightarrow> bool" where
  "IsServerType v = is_server v"

definition group_Shutdown :: "group_manager \<Rightarrow> group_manager" where
  "group_Shutdown m = m\<lparr>groups := []\<rparr>"

text \<open>
  The constructor, over the singletons as the process finds them; t are the clock readings of the
  log. The memory manager, the reserve of ThreadManager::Init and the crash handler are not part of
  the service here.
\<close>

definition CoreService ::
  "bool \<Rightarrow> log_env \<Rightarrow> log_clock \<Rightarrow> bool \<Rightarrow> ('w, 'c) service \<Rightarrow> ('w, 'c) service option" where
  "CoreService debug env t server v =
     (let v1 = v\<lparr>has_core := False, is_server := server,
            svc_deadlock := (if debug then detector_Init (svc_deadlock v) else svc_deadlock v),
            svc_groups := group_Init (svc_groups v)\<rparr> in do {
        q \<leftarrow> queue_Init (map fst (groups (svc_groups v1))) (svc_jobs v1);
        Some (v1\<lparr>svc_jobs := q, svc_log := log_Init env t (svc_log v1)\<rparr>) })"

lemma CoreService_starts:
  assumes "svc_groups v = empty_groups" and "svc_jobs v = empty_queue"
  shows "\<exists>v'. CoreService debug env t server v = Some v' \<and> groupThreads (svc_jobs v') = [System] \<and>
    GetGroupName System (svc_groups v') = ''System'' \<and> isCheck (svc_deadlock v') = (debug \<or> isCheck (svc_deadlock v))"
  using assms
  by (simp add: CoreService_def group_Init_def RegisterGroup_def empty_groups_def empty_queue_def MakeGroupThread_def
      System_def Invalid_def running_def GetGroupName_def detector_Init_def)

section \<open>Running\<close>

text \<open>Each of the dummies connects with five worker threads as the limit, 20 ms apart.\<close>

fun dummy_connects :: "nat \<Rightarrow> net_os \<Rightarrow> string \<Rightarrow> u16 \<Rightarrow> 'w network \<Rightarrow> 'w network" where
  "dummy_connects 0 os address port n = n"
| "dummy_connects (Suc k) os address port n =
     (case Connect os address port 5 n of (ok, n1) \<Rightarrow>
        dummy_connects k os address port (note_event (Sleep 20) (n1\<lparr>netNow := netNow n1 + 20 * 10 ^ 6\<rparr>)))"

definition DummyConnect :: "net_os \<Rightarrow> u16 \<Rightarrow> string \<Rightarrow> u16 \<Rightarrow> 'w network \<Rightarrow> 'w network" where
  "DummyConnect os port address connectCount n = dummy_connects (unat connectCount) os address port n"

text \<open>The result of Start is not looked at.\<close>

definition Run ::
  "net_os \<Rightarrow> 'w core_service \<Rightarrow> u16 \<Rightarrow> string \<Rightarrow> u16 \<Rightarrow> ('w, 'c) service \<Rightarrow> ('w, 'c) service option" where
  "Run os cb port address connectCount v =
     (let n = ConnectService (Some (IsServerType v)) (iocp_fresh (net v)) in
      if is_server v then do {
        (ok, n1) \<leftarrow> Start os cb port n;
        Some (v\<lparr>net := n1, has_core := True\<rparr>) }
      else Some (v\<lparr>net := DummyConnect os port address connectCount n, has_core := True\<rparr>))"

section \<open>Stopping\<close>

text \<open>debug says whether the build is a debug build. ThreadMgr.Shutdown waits for every thread.\<close>

definition stop_network :: "('w, 'c) service \<Rightarrow> ('w, 'c) service" where
  "stop_network v = (if has_core v then v\<lparr>net := Shutdown (net v), has_core := False\<rparr> else v)"

definition Stop :: "bool \<Rightarrow> ('w, 'c) service \<Rightarrow> ('w, 'c) service option" where
  "Stop debug v =
     (let v1 = stop_network v;
          v2 = (if debug then v1\<lparr>svc_deadlock := detector_Shutdown (svc_deadlock v1)\<rparr> else v1);
          v3 = v2\<lparr>svc_log := log_Shutdown (svc_log v2)\<rparr>;
          v4 = v3\<lparr>svc_jobs := queue_Shutdown (svc_jobs v3)\<rparr>;
          v5 = v4\<lparr>net := (net v4)\<lparr>manager := mgr_Shutdown (manager (net v4))\<rparr>\<rparr>;
          v6 = v5\<lparr>svc_groups := group_Shutdown (svc_groups v5)\<rparr>
      in do {
        hold \<leftarrow> thread_Shutdown (svc_threads v6) (svc_hold v6);
        Some (v6\<lparr>svc_hold := hold\<rparr>) })"

text \<open>The WorldZone thread of the game server: WorldManager::Init launches it.\<close>

definition launch_world :: "(nat \<Rightarrow> int) \<Rightarrow> int \<Rightarrow> ('w, 'c) service \<Rightarrow> ('w, 'c) service" where
  "launch_world d now v = v\<lparr>svc_threads := LaunchFrame ''WorldZone'' 1 d FRAME_INTERVAL now (svc_threads v)\<rparr>"

section \<open>Frames keep their schedule, and the server cannot be stopped\<close>

lemma Stop_threads: "Stop debug v \<noteq> None \<longleftrightarrow> JoinAll (svc_threads v) \<noteq> None"
  by (simp add: Stop_def Let_def stop_network_def thread_Shutdown_def split: bind_splits option.split)

text \<open>C29: The frame thread runs a frame every 50 ms: the k-th frame never starts before k intervals
  have passed; it starts exactly then if every frame before took at most an interval; and when a
  frame runs late the following ones start as soon as their predecessor ends, so none is skipped.
  The loop has no exit. Whatever the frames do, CoreService::Stop therefore never returns on a game
  server: it joins the frame thread, however many threads were launched before or after it.\<close>

theorem frame_thread:
  "now + int k * FRAME_INTERVAL \<le> fst (frame_state FRAME_INTERVAL d now k) \<and>
   ((\<forall>i < k. d i \<le> FRAME_INTERVAL) \<longrightarrow> fst (frame_state FRAME_INTERVAL d now k) = now + int k * FRAME_INTERVAL) \<and>
   (now + (int k + 1) * FRAME_INTERVAL \<le> fst (frame_state FRAME_INTERVAL d now k) + d k \<longrightarrow>
      fst (frame_state FRAME_INTERVAL d now (Suc k)) = fst (frame_state FRAME_INTERVAL d now k) + d k) \<and>
   Stop debug ((launch_world d now v)\<lparr>svc_threads := svc_threads (launch_world d now v) @ us\<rparr>) = None"
proof (intro conjI impI)
  show "now + int k * FRAME_INTERVAL \<le> fst (frame_state FRAME_INTERVAL d now k)" by (rule frame_start_ge)
  show "\<forall>i < k. d i \<le> FRAME_INTERVAL \<Longrightarrow> fst (frame_state FRAME_INTERVAL d now k) = now + int k * FRAME_INTERVAL"
  proof (induction k)
    case (Suc k)
    show ?case by (rule frame_on_time) (use Suc in simp_all)
  qed simp
  show "now + (int k + 1) * FRAME_INTERVAL \<le> fst (frame_state FRAME_INTERVAL d now k) + d k \<Longrightarrow>
      fst (frame_state FRAME_INTERVAL d now (Suc k)) = fst (frame_state FRAME_INTERVAL d now k) + d k"
    by (rule frame_catch_up)
  have "JoinAll (svc_threads (launch_world d now v) @ us) = None"
    unfolding launch_world_def using JoinAll_frame [of 1] by simp
  then show "Stop debug ((launch_world d now v)\<lparr>svc_threads := svc_threads (launch_world d now v) @ us\<rparr>) = None"
    using Stop_threads [of debug "(launch_world d now v)\<lparr>svc_threads := svc_threads (launch_world d now v) @ us\<rparr>"] by simp
qed

text \<open>A first frame of 120 ms: the second one starts late, the third on time again.\<close>

definition demo_durations :: "nat \<Rightarrow> int" where
  "demo_durations k = (if k = 0 then 120 * 10 ^ 6 else 10 ^ 6)"

lemma frame_thread_witness:
  "fst (frame_state FRAME_INTERVAL demo_durations 0 1) = 120 * 10 ^ 6 \<and>
   150 * 10 ^ 6 \<le> fst (frame_state FRAME_INTERVAL demo_durations 0 3)"
proof -
  fix v :: "(unit, unit) service"
  note f = frame_thread [where d = demo_durations and now = 0 and debug = True and v = v and us = "[]"]
  have late: "0 + (int 0 + 1) * FRAME_INTERVAL \<le> fst (frame_state FRAME_INTERVAL demo_durations 0 0) + demo_durations 0"
    by (simp add: demo_durations_def FRAME_INTERVAL_def)
  have "fst (frame_state FRAME_INTERVAL demo_durations 0 (Suc 0)) =
      fst (frame_state FRAME_INTERVAL demo_durations 0 0) + demo_durations 0"
    using f [of 0] late by blast
  then have "fst (frame_state FRAME_INTERVAL demo_durations 0 1) = 120 * 10 ^ 6"
    by (simp add: demo_durations_def)
  moreover have "0 + int 3 * FRAME_INTERVAL \<le> fst (frame_state FRAME_INTERVAL demo_durations 0 3)"
    using f [of 3] by blast
  ultimately show ?thesis by (simp add: FRAME_INTERVAL_def)
qed

end
