(* ===== verification/Dummy_Client.thy ===== *)
theory Dummy_Client
  imports World_Moves
begin

text \<open>
  DummyClient/Dummy: the walking and the chatting of a dummy player. Coordinates are rationals, as
  in the world; the square root and atan2 of the C library, and the random numbers, are parameters.
  An operation gives the jobs it submits, each with its delay in milliseconds.
\<close>

section \<open>State\<close>

record dummy_env =
  rand :: "nat \<Rightarrow> int \<Rightarrow> int \<Rightarrow> int"
  fsqrt :: "rat \<Rightarrow> rat"
  fatan2 :: "rat \<Rightarrow> rat \<Rightarrow> rat"

definition dummy_speed :: rat where "dummy_speed = 500"
definition deltaTime :: rat where "deltaTime = 1 / 10"
definition dummy_minX :: int where "dummy_minX = 18000"
definition dummy_minY :: int where "dummy_minY = 32000"
definition dummy_maxX :: int where "dummy_maxX = 28000"
definition dummy_maxY :: int where "dummy_maxY = 41000"

text \<open>draws counts the random numbers taken so far.\<close>

record dummy_move =
  dm_id :: u64
  intervalTime :: int
  currentX :: rat
  currentY :: rat
  currentYaw :: rat
  targetX :: rat
  targetY :: rat
  targetYaw :: rat
  targetDirX :: rat
  targetDirY :: rat
  draws :: nat

datatype dummy_job = JobMove | JobMovement pos_info | JobChat

section \<open>Walking\<close>

definition DummyMove :: "dummy_env \<Rightarrow> nat \<Rightarrow> dummy_move" where
  "DummyMove env i = \<lparr>dm_id = 0, intervalTime = rand env i 80 120, currentX = 0, currentY = 0, currentYaw = 0,
     targetX = 0, targetY = 0, targetYaw = 0, targetDirX = 0, targetDirY = 0, draws = i + 1\<rparr>"

definition CalculateYaw :: "dummy_env \<Rightarrow> rat \<Rightarrow> rat \<Rightarrow> rat" where
  "CalculateYaw env dirX dirY = fatan2 env dirY dirX * (180 / (3141592 / 1000000))"

definition distance_to :: "dummy_env \<Rightarrow> dummy_move \<Rightarrow> rat" where
  "distance_to env m = (let dirX = targetX m - currentX m; dirY = targetY m - currentY m in
     fsqrt env (dirX * dirX + dirY * dirY))"

text \<open>The target that DummyRandomMovement ends up with; it starts again while the target is too near.\<close>

partial_function (option) choose_target :: "dummy_env \<Rightarrow> dummy_move \<Rightarrow> dummy_move option" where
  "choose_target env m =
     (let m1 = m\<lparr>targetX := of_int (rand env (draws m) dummy_minX dummy_maxX),
                 targetY := of_int (rand env (draws m + 1) dummy_minY dummy_maxY), draws := draws m + 2\<rparr> in
      if distance_to env m1 \<le> 1 / 100 then choose_target env m1 else Some m1)"

definition DummyRandomMovement ::
  "dummy_env \<Rightarrow> u64 \<Rightarrow> pos_info \<Rightarrow> dummy_move \<Rightarrow> (dummy_move \<times> (int \<times> dummy_job) list) option" where
  "DummyRandomMovement env sid posInfo m = do {
     m1 \<leftarrow> choose_target env (m\<lparr>dm_id := sid, currentX := pos_x posInfo, currentY := pos_y posInfo, currentYaw := pos_yaw posInfo\<rparr>);
     let distance = distance_to env m1;
     let dx = (targetX m1 - currentX m1) / distance;
     let dy = (targetY m1 - currentY m1) / distance;
     let m2 = m1\<lparr>targetDirX := dx, targetDirY := dy, targetYaw := CalculateYaw env dx dy\<rparr>;
     Some (m2\<lparr>draws := draws m2 + 1\<rparr>, [(rand env (draws m2) 0 1000, JobMove)]) }"

definition NewMove :: "dummy_env \<Rightarrow> dummy_move \<Rightarrow> dummy_move \<times> (int \<times> dummy_job) list" where
  "NewMove env m =
     (m\<lparr>draws := draws m + 1\<rparr>,
      [(rand env (draws m) (intervalTime m * 8) (intervalTime m * 10),
        JobMovement (PosInfo (currentX m) (currentY m) 180 (currentYaw m)))])"

text \<open>The move packet that a MoveJob sends, if it sends one.\<close>

definition MoveJob :: "dummy_env \<Rightarrow> dummy_move \<Rightarrow> (dummy_move \<times> (int \<times> dummy_job) list) \<times> move_packet option" where
  "MoveJob env m =
     (if distance_to env m \<le> 10 then (NewMove env m, None)
      else (let m1 = m\<lparr>currentX := currentX m + targetDirX m * dummy_speed * deltaTime,
                       currentY := currentY m + targetDirY m * dummy_speed * deltaTime, currentYaw := targetYaw m\<rparr> in
        if currentX m1 < of_int dummy_minX \<or> of_int dummy_maxX < currentX m1 \<or>
           currentY m1 < of_int dummy_minY \<or> of_int dummy_maxY < currentY m1
        then (NewMove env m1, None)
        else ((m1, [(intervalTime m1, JobMove)]),
              Some \<lparr>mv_pos = PosInfo (currentX m1) (currentY m1) 180 (currentYaw m1),
                    mv_vec = (targetDirX m1, targetDirY m1)\<rparr>)))"

section \<open>Chatting\<close>

definition DummyChat :: "dummy_env \<Rightarrow> nat \<Rightarrow> int" where
  "DummyChat env i = rand env i 1000 5000"

text \<open>DummyRandomChat submits the job; the job sends one of the messages and submits the next.\<close>

definition DummyRandomChat :: "int \<Rightarrow> (int \<times> dummy_job) list" where
  "DummyRandomChat interval = [(interval, JobChat)]"

definition dummy_chat :: "dummy_env \<Rightarrow> string list \<Rightarrow> int \<Rightarrow> nat \<Rightarrow> string option \<times> (int \<times> dummy_job) list" where
  "dummy_chat env chatMessages interval i =
     (let randomIndex = rand env i 0 (int (length chatMessages) - 1) in
      (if 0 \<le> randomIndex \<and> nat randomIndex < length chatMessages then Some (chatMessages ! nat randomIndex) else None,
       DummyRandomChat interval))"

section \<open>What a dummy sends\<close>

text \<open>What uniform_int_distribution and sqrt promise.\<close>

definition dummy_env_ok :: "dummy_env \<Rightarrow> bool" where
  "dummy_env_ok env \<longleftrightarrow> (\<forall>i lo hi. lo \<le> hi \<longrightarrow> lo \<le> rand env i lo hi \<and> rand env i lo hi \<le> hi) \<and>
     (\<forall>x. 0 \<le> x \<longrightarrow> 0 \<le> fsqrt env x)"

lemma MoveJob_bounds:
  assumes "MoveJob env m = ((m', js), Some pkt)"
  shows "of_int dummy_minX \<le> pos_x (mv_pos pkt) \<and> pos_x (mv_pos pkt) \<le> of_int dummy_maxX \<and>
    of_int dummy_minY \<le> pos_y (mv_pos pkt) \<and> pos_y (mv_pos pkt) \<le> of_int dummy_maxY"
  using assms by (auto simp: MoveJob_def Let_def not_less split: if_splits)

lemma MoveJob_step:
  assumes "MoveJob env m = ((m', js), Some pkt)"
  shows "pos_x (mv_pos pkt) = currentX m + 50 * targetDirX m" "pos_y (mv_pos pkt) = currentY m + 50 * targetDirY m"
    "js = [(intervalTime m, JobMove)]" "currentX m' = pos_x (mv_pos pkt)" "currentY m' = pos_y (mv_pos pkt)"
    "targetDirX m' = targetDirX m" "targetDirY m' = targetDirY m" "intervalTime m' = intervalTime m"
  using assms by (auto simp: MoveJob_def Let_def dummy_speed_def deltaTime_def split: if_splits)

lemma MoveJob_always_continues: "snd (fst (MoveJob env m)) \<noteq> []"
  by (simp add: MoveJob_def NewMove_def Let_def)

lemma dummy_chat_sends: "dummy_env_ok env \<Longrightarrow> msgs \<noteq> [] \<Longrightarrow> fst (dummy_chat env msgs interval i) \<noteq> None"
proof -
  assume "dummy_env_ok env" "msgs \<noteq> []"
  then have "0 \<le> rand env i 0 (int (length msgs) - 1) \<and> rand env i 0 (int (length msgs) - 1) \<le> int (length msgs) - 1"
    unfolding dummy_env_ok_def by (cases msgs) auto
  then have "nat (rand env i 0 (int (length msgs) - 1)) < length msgs \<and> 0 \<le> rand env i 0 (int (length msgs) - 1)"
    by linarith
  then show ?thesis by (simp add: dummy_chat_def Let_def)
qed

text \<open>
  The dummies of the load test are faster than the server allows when their interval is 83 ms or
  less and the round trip is short: after n steps of 50 units in a unit direction since the last
  position that the server accepted, the n-th packet is refused, for every n.
\<close>

lemma dummy_outpaces:
  assumes "sint (moveSpeed (statInfo p)) = 500" and "GetRttAvg s = 1" and "interval \<le> 83" and "0 < n" and "0 \<le> interval"
    and "dx * dx + dy * dy = 1"
    and "pos_x posInfo = pos_x (obj_pos p) + of_int n * 50 * dx" and "pos_y posInfo = pos_y (obj_pos p) + of_int n * 50 * dy"
  shows "\<not> move_allowed (lastMoveTime p + n * interval * 10 ^ 6) p s posInfo"
proof -
  let ?N = "of_int n :: rat"
  have half: "(1 :: int) sdiv 2 = 0" by (simp add: signed_divide_int_def)
  have t: "elapsed_time (lastMoveTime p + n * interval * 10 ^ 6) p s = ?N * of_int interval / 1000"
    by (simp add: elapsed_time_def assms(2) half)
  have i: "0 \<le> (of_int interval :: rat)" "of_int interval \<le> (83 :: rat)" using assms(3,5) by simp_all
  have n: "0 < ?N" using assms(4) by simp
  define b where "b = 500 * (?N * of_int interval / 1000) * MOVE_ALLOW_RANGE"
  have b: "0 \<le> b" "b < 50 * ?N" using i n mult_left_mono [OF i(2), of ?N] by (simp_all add: b_def MOVE_ALLOW_RANGE_def)
  then have "b * b < (50 * ?N) * (50 * ?N)" by (intro mult_strict_mono') simp_all
  also have "\<dots> = (50 * ?N) * (50 * ?N) * (dx * dx + dy * dy)" by (simp add: assms(6))
  also have "\<dots> = (?N * 50 * dx) * (?N * 50 * dx) + (?N * 50 * dy) * (?N * 50 * dy)" by (simp add: algebra_simps)
  finally have "too_far (?N * 50 * dx) (?N * 50 * dy) b" unfolding too_far_def by (simp add: less_le)
  then show ?thesis unfolding move_allowed_def t assms(1,7,8) b_def by (simp add: Let_def)
qed

end
