(* ===== verification/Object_Pool.thy ===== *)
theory Object_Pool
  imports Memory_World
begin

text \<open>
  ServerCore/Memory/ObjectPool.h and STLAllocator.h: typed objects and containers in the memory of
  the memory manager. An object is kept beside the bytes of its block, at the address of the block;
  its constructor and destructor are its entry and its removal. A shared pointer is the use count of
  its control block.
\<close>

section \<open>Containers\<close>

text \<open>int32 is a 32-bit word; Allocate takes it as a uint32.\<close>

definition PoolAllocator_Alloc :: "bool \<Rightarrow> nat \<Rightarrow> 32 word \<Rightarrow> mem_mgr \<Rightarrow> (nat \<times> mem_mgr) option" where
  "PoolAllocator_Alloc dbg fresh sz m = Allocate dbg fresh sz m"

definition PoolAllocator_Release :: "bool \<Rightarrow> nat \<Rightarrow> mem_mgr \<Rightarrow> mem_mgr option" where
  "PoolAllocator_Release dbg ptr m = Release dbg ptr m"

definition stl_allocate :: "bool \<Rightarrow> nat \<Rightarrow> u64 \<Rightarrow> u64 \<Rightarrow> mem_mgr \<Rightarrow> (nat \<times> mem_mgr) option" where
  "stl_allocate dbg fresh sizeofT cnt m = PoolAllocator_Alloc dbg fresh (ucast (cnt * sizeofT)) m"

definition stl_deallocate :: "bool \<Rightarrow> nat \<Rightarrow> u64 \<Rightarrow> mem_mgr \<Rightarrow> mem_mgr option" where
  "stl_deallocate dbg ptr cnt m = PoolAllocator_Release dbg ptr m"

text \<open>The size is cut to 32 bits: a container of 4 GB and one element gets room for one element.\<close>

lemma stl_allocate_size:
  assumes "unat cnt * unat sizeofT < 2 ^ 64"
  shows "stl_allocate dbg fresh sizeofT cnt m = Allocate dbg fresh (of_nat (unat cnt * unat sizeofT mod 2 ^ 32)) m"
proof -
  have "unat (cnt * sizeofT) = unat cnt * unat sizeofT" using assms by (simp add: unat_word_ariths)
  then have "(ucast (cnt * sizeofT) :: 32 word) = of_nat (unat cnt * unat sizeofT mod 2 ^ 32)"
    by (intro word_unat_eq_iff [THEN iffD2]) (simp add: unsigned_ucast_eq take_bit_eq_mod unat_of_nat unsigned_take_bit_eq)
  then show ?thesis by (simp add: stl_allocate_def PoolAllocator_Alloc_def)
qed

section \<open>Objects\<close>

record 'o object_heap =
  heap_mgr :: mem_mgr
  heap_objs :: "(nat \<times> 'o) list"
  use_counts :: "(nat \<times> nat) list"
  destroyed :: "(nat \<times> 'o) list"

definition pool_new :: "bool \<Rightarrow> nat \<Rightarrow> u32 \<Rightarrow> 'o \<Rightarrow> 'o object_heap \<Rightarrow> (nat \<times> 'o object_heap) option" where
  "pool_new dbg fresh sizeofT ob h = do {
     (memory, m) \<leftarrow> Allocate dbg fresh sizeofT (heap_mgr h);
     Some (memory, h\<lparr>heap_mgr := m, heap_objs := hm_assign memory ob (heap_objs h)\<rparr>) }"

text \<open>None also when there is no object to destroy at the address.\<close>

definition pool_delete :: "bool \<Rightarrow> nat \<Rightarrow> 'o object_heap \<Rightarrow> 'o object_heap option" where
  "pool_delete dbg ptr h = do {
     ob \<leftarrow> map_of (heap_objs h) ptr;
     m \<leftarrow> Release dbg ptr (heap_mgr h);
     Some (h\<lparr>heap_mgr := m, heap_objs := hm_erase ptr (heap_objs h), destroyed := destroyed h @ [(ptr, ob)]\<rparr>) }"

definition MakeShared :: "bool \<Rightarrow> nat \<Rightarrow> u32 \<Rightarrow> 'o \<Rightarrow> 'o object_heap \<Rightarrow> (nat \<times> 'o object_heap) option" where
  "MakeShared dbg fresh sizeofT ob h = do {
     (ptr, h1) \<leftarrow> pool_new dbg fresh sizeofT ob h;
     Some (ptr, h1\<lparr>use_counts := hm_assign ptr 1 (use_counts h1)\<rparr>) }"

text \<open>
  A unique pointer has no count. The code keeps it in a shared pointer, which takes its deleter
  over: UNIQUE_PTR declares a std::shared_ptr.
\<close>

definition MakeUnique :: "bool \<Rightarrow> nat \<Rightarrow> u32 \<Rightarrow> 'o \<Rightarrow> 'o object_heap \<Rightarrow> (nat \<times> 'o object_heap) option" where
  "MakeUnique dbg fresh sizeofT ob h = pool_new dbg fresh sizeofT ob h"

definition to_shared :: "nat \<Rightarrow> 'o object_heap \<Rightarrow> 'o object_heap" where
  "to_shared ptr h = h\<lparr>use_counts := hm_assign ptr 1 (use_counts h)\<rparr>"

text \<open>Copying and dropping a shared pointer; the last drop calls the deleter.\<close>

definition shared_copy :: "nat \<Rightarrow> 'o object_heap \<Rightarrow> 'o object_heap option" where
  "shared_copy ptr h = do {
     n \<leftarrow> map_of (use_counts h) ptr;
     Some (h\<lparr>use_counts := hm_assign ptr (n + 1) (use_counts h)\<rparr>) }"

definition shared_drop :: "bool \<Rightarrow> nat \<Rightarrow> 'o object_heap \<Rightarrow> 'o object_heap option" where
  "shared_drop dbg ptr h = do {
     n \<leftarrow> map_of (use_counts h) ptr;
     (if n \<le> 1 then pool_delete dbg ptr (h\<lparr>use_counts := hm_erase ptr (use_counts h)\<rparr>)
      else Some (h\<lparr>use_counts := hm_assign ptr (n - 1) (use_counts h)\<rparr>)) }"

lemma MakeUnique_to_shared:
  "MakeShared dbg fresh sz ob h = map_option (\<lambda>(ptr, h1). (ptr, to_shared ptr h1)) (MakeUnique dbg fresh sz ob h)"
  by (cases "pool_new dbg fresh sz ob h") (auto simp: MakeShared_def MakeUnique_def to_shared_def)

section \<open>The heap in use\<close>

text \<open>The memory world w goes along: it knows the blocks and the live allocations.\<close>

definition released_world :: "bool \<Rightarrow> nat \<Rightarrow> mem_mgr \<Rightarrow> mem_world \<Rightarrow> mem_world" where
  "released_world dbg ptr m w =
     \<lparr>mgr = m, blocks = {b \<in> blocks w. \<not> (snd (snd b) = Malloc \<and> data_addr dbg (fst b) = ptr)},
      live = filter (\<lambda>a. fst a \<noteq> ptr) (live w)\<rparr>"

definition allocated_world :: "nat \<Rightarrow> nat \<Rightarrow> u32 \<Rightarrow> mem_mgr \<Rightarrow> mem_world \<Rightarrow> mem_world" where
  "allocated_world fresh ptr sz m w =
     \<lparr>mgr = m, blocks = new_block fresh sz (mgr w) \<union> blocks w, live = (ptr, sz) # live w\<rparr>"

inductive heap_reach :: "bool \<Rightarrow> mem_world \<Rightarrow> 'o object_heap \<Rightarrow> bool" for dbg where
  start: "mem_reach dbg w \<Longrightarrow> live w = [] \<Longrightarrow>
     heap_reach dbg w \<lparr>heap_mgr = mgr w, heap_objs = [], use_counts = [], destroyed = []\<rparr>"
| make: "heap_reach dbg w h \<Longrightarrow> unat sz < 2 ^ 31 \<Longrightarrow>
     (\<forall>b \<in> blocks w. extent dbg b \<inter> block_extent dbg fresh sz = {}) \<Longrightarrow>
     MakeShared dbg fresh sz ob h = Some (ptr, h') \<Longrightarrow>
     heap_reach dbg (allocated_world fresh ptr sz (heap_mgr h') w) h'"
| copy: "heap_reach dbg w h \<Longrightarrow> shared_copy ptr h = Some h' \<Longrightarrow> heap_reach dbg w h'"
| drop: "heap_reach dbg w h \<Longrightarrow> shared_drop dbg ptr h = Some h' \<Longrightarrow>
     heap_reach dbg (if map_of (heap_objs h') ptr = None then released_world dbg ptr (heap_mgr h') w else w) h'"
| store: "heap_reach dbg w h \<Longrightarrow> (ptr, req) \<in> set (live w) \<Longrightarrow> ptr \<le> x \<Longrightarrow> x < ptr + unat req \<Longrightarrow>
     heap_reach dbg (w\<lparr>mgr := (mgr w)\<lparr>mem := (mem (mgr w))(x := v)\<rparr>\<rparr>)
       (h\<lparr>heap_mgr := (mgr w)\<lparr>mem := (mem (mgr w))(x := v)\<rparr>\<rparr>)"

text \<open>Objects, counts and live allocations have the same addresses.\<close>

definition heap_inv :: "bool \<Rightarrow> mem_world \<Rightarrow> 'o object_heap \<Rightarrow> bool" where
  "heap_inv dbg w h \<longleftrightarrow> mem_reach dbg w \<and> heap_mgr h = mgr w \<and>
     dom (map_of (heap_objs h)) = fst ` set (live w) \<and> dom (map_of (use_counts h)) = fst ` set (live w) \<and>
     (\<forall>n \<in> ran (map_of (use_counts h)). 0 < n)"

lemma heap_inv_make:
  assumes "heap_inv dbg w h" and "unat sz < 2 ^ 31" and "\<forall>b \<in> blocks w. extent dbg b \<inter> block_extent dbg fresh sz = {}"
    and "MakeShared dbg fresh sz ob h = Some (ptr, h')"
  shows "heap_inv dbg (allocated_world fresh ptr sz (heap_mgr h') w) h'"
proof -
  obtain m where m: "Allocate dbg fresh sz (mgr w) = Some (ptr, m)"
    and h': "h' = h\<lparr>heap_mgr := m, heap_objs := hm_assign ptr ob (heap_objs h), use_counts := hm_assign ptr 1 (use_counts h)\<rparr>"
    using assms(1,4) by (auto simp: MakeShared_def pool_new_def heap_inv_def bind_eq_Some_conv)
  have r: "mem_reach dbg (allocated_world fresh ptr sz m w)"
    using mem_reach.step [OF _ mem_step.alloc [OF assms(2,3) m]] assms(1)
    by (simp add: allocated_world_def heap_inv_def)
  have "\<forall>n \<in> ran ((map_of (use_counts h))(ptr \<mapsto> 1)). 0 < n"
    using assms(1) by (auto simp: heap_inv_def ran_def)
  then show ?thesis using r assms(1) h' by (simp add: heap_inv_def allocated_world_def hm_simps)
qed

lemma heap_inv_count:
  assumes "heap_inv dbg w h" and "map_of (use_counts h) ptr = Some n" and "0 < k"
  shows "heap_inv dbg w (h\<lparr>use_counts := hm_assign ptr k (use_counts h)\<rparr>)"
proof -
  have "\<forall>j \<in> ran ((map_of (use_counts h))(ptr \<mapsto> k)). 0 < j"
    using assms(1,3) by (auto simp: heap_inv_def ran_def)
  moreover have "insert ptr (dom (map_of (use_counts h))) = dom (map_of (use_counts h))" using assms(2) by blast
  ultimately show ?thesis using assms(1) by (simp add: heap_inv_def hm_simps)
qed

lemma heap_inv_copy: "heap_inv dbg w h \<Longrightarrow> shared_copy ptr h = Some h' \<Longrightarrow> heap_inv dbg w h'"
  using heap_inv_count [of dbg w h ptr _ "Suc _"] by (auto simp: shared_copy_def bind_eq_Some_conv)

text \<open>What a drop does.\<close>

lemma shared_drop_cases:
  assumes inv: "heap_inv dbg w h" and n: "map_of (use_counts h) ptr = Some n"
  obtains (last) m ob where "n = 1" "Release dbg ptr (mgr w) = Some m" "map_of (heap_objs h) ptr = Some ob"
      "shared_drop dbg ptr h = Some (h\<lparr>use_counts := hm_erase ptr (use_counts h), heap_mgr := m,
         heap_objs := hm_erase ptr (heap_objs h), destroyed := destroyed h @ [(ptr, ob)]\<rparr>)"
  | (more) "1 < n" "map_of (heap_objs h) ptr \<noteq> None"
      "shared_drop dbg ptr h = Some (h\<lparr>use_counts := hm_assign ptr (n - 1) (use_counts h)\<rparr>)"
proof -
  have "ptr \<in> dom (map_of (heap_objs h))" "ptr \<in> fst ` set (live w)" using inv n unfolding heap_inv_def by blast+
  then obtain ob req where o: "map_of (heap_objs h) ptr = Some ob" and l: "(ptr, req) \<in> set (live w)" by force
  have "mem_reach dbg w" using inv by (simp add: heap_inv_def)
  from Release_live_Some [OF mem_reach_inv [OF this] l] obtain m where m: "Release dbg ptr (mgr w) = Some m" ..
  have pos: "0 < n" using inv n unfolding heap_inv_def by (meson ranI)
  show thesis
  proof (cases "n = 1")
    case True
    with o m n inv show thesis by (intro last) (simp_all add: shared_drop_def pool_delete_def heap_inv_def)
  next
    case False
    with pos o n show thesis by (intro more) (simp_all add: shared_drop_def)
  qed
qed

lemma heap_inv_drop:
  assumes inv: "heap_inv dbg w h" and d: "shared_drop dbg ptr h = Some h'"
  shows "heap_inv dbg (if map_of (heap_objs h') ptr = None then released_world dbg ptr (heap_mgr h') w else w) h'"
proof -
  obtain n where n: "map_of (use_counts h) ptr = Some n" using d by (auto simp: shared_drop_def bind_eq_Some_conv)
  show ?thesis
  proof (cases rule: shared_drop_cases [OF inv n, case_names last more])
    case (last m ob)
    have l: "ptr \<in> fst ` set (live w)" using inv n unfolding heap_inv_def by blast
    then obtain req where "(ptr, req) \<in> set (live w)" by force
    from mem_reach.step [OF _ mem_step.release [OF this last(2)]] inv
    have r: "mem_reach dbg (released_world dbg ptr m w)" by (simp add: released_world_def heap_inv_def)
    have "fst ` {a \<in> set (live w). fst a \<noteq> ptr} = fst ` set (live w) - {ptr}" by blast
    then have "fst ` set (live (released_world dbg ptr m w)) = fst ` set (live w) - {ptr}"
      by (simp add: released_world_def)
    moreover have "\<forall>k \<in> ran ((map_of (use_counts h))(ptr := None)). 0 < k"
      using inv by (auto simp: heap_inv_def ran_def)
    moreover have "mgr (released_world dbg ptr m w) = m" by (simp add: released_world_def)
    moreover have h': "h' = h\<lparr>use_counts := hm_erase ptr (use_counts h), heap_mgr := m,
        heap_objs := hm_erase ptr (heap_objs h), destroyed := destroyed h @ [(ptr, ob)]\<rparr>"
      using last(4) d by simp
    ultimately have "heap_inv dbg (released_world dbg ptr m w) h'"
      using r inv by (simp add: heap_inv_def hm_simps)
    then show ?thesis by (simp add: h' hm_simps)
  next
    case more
    have "heap_inv dbg w h'" using heap_inv_count [OF inv n, of "n - 1"] more(1,3) d by simp
    then show ?thesis using more(2,3) d by auto
  qed
qed

lemma heap_inv_start:
  "mem_reach dbg w \<Longrightarrow> live w = [] \<Longrightarrow>
    heap_inv dbg w \<lparr>heap_mgr = mgr w, heap_objs = [], use_counts = [], destroyed = []\<rparr>"
  by (simp add: heap_inv_def)

lemma heap_reach_inv: "heap_reach dbg w h \<Longrightarrow> heap_inv dbg w h"
proof (induction rule: heap_reach.induct)
  case (store w h ptr req x v)
  from mem_reach.step [OF _ mem_step.user_write [OF store(2,3,4)]] store.IH
  show ?case by (simp add: heap_inv_def)
next
  case (start w)
  then show ?case by (rule heap_inv_start)
next
  case (make w h sz fresh ob ptr h')
  show ?case by (rule heap_inv_make [OF make.IH make.hyps(2,3,4)])
next
  case (copy w h ptr h')
  show ?case by (rule heap_inv_copy [OF copy.IH copy.hyps(2)])
next
  case (drop w h ptr h')
  show ?case by (rule heap_inv_drop [OF drop.IH drop.hyps(2)])
qed

section \<open>Shared objects\<close>

text \<open>C18: In every state that making, copying and dropping shared pointers and writing inside live
  memory lead to, the addresses of the objects, of the use counts and of the live allocations are the
  same, and two objects never share a byte: nothing leaks and nothing dangles. A pointer can be
  dropped exactly when it points to an object. Unless it is the last one the drop only counts down;
  the last drop destroys the object, which is the only one destroyed then, and frees its memory.\<close>

theorem shared_objects:
  assumes "heap_reach dbg w h"
  shows "fst ` set (heap_objs h) = fst ` set (live w) \<and> fst ` set (use_counts h) = fst ` set (live w) \<and>
    (\<forall>(p, a) \<in> set (live w). \<forall>(q, b) \<in> set (live w). p \<noteq> q \<longrightarrow> {p..<p + unat a} \<inter> {q..<q + unat b} = {}) \<and>
    (case map_of (use_counts h) ptr of
       None \<Rightarrow> shared_drop dbg ptr h = None
     | Some n \<Rightarrow> \<exists>ob h'. map_of (heap_objs h) ptr = Some ob \<and> shared_drop dbg ptr h = Some h' \<and>
         (if n = 1 then destroyed h' = destroyed h @ [(ptr, ob)] \<and> map_of (heap_objs h') = (map_of (heap_objs h))(ptr := None) \<and>
                        Release dbg ptr (heap_mgr h) = Some (heap_mgr h')
          else destroyed h' = destroyed h \<and> heap_objs h' = heap_objs h \<and> heap_mgr h' = heap_mgr h \<and>
               map_of (use_counts h') ptr = Some (n - 1)))"
proof (intro conjI)
  have inv: "heap_inv dbg w h" by (rule heap_reach_inv [OF assms])
  then have reach: "mem_reach dbg w" by (simp add: heap_inv_def)
  show "fst ` set (heap_objs h) = fst ` set (live w)" "fst ` set (use_counts h) = fst ` set (live w)"
    using inv by (simp_all add: heap_inv_def dom_map_of_conv_image_fst)
  show "\<forall>(p, a) \<in> set (live w). \<forall>(q, b) \<in> set (live w). p \<noteq> q \<longrightarrow> {p..<p + unat a} \<inter> {q..<q + unat b} = {}"
    using live_ranges_apart [OF mem_reach_inv [OF reach]] by blast
  show "case map_of (use_counts h) ptr of
       None \<Rightarrow> shared_drop dbg ptr h = None
     | Some n \<Rightarrow> \<exists>ob h'. map_of (heap_objs h) ptr = Some ob \<and> shared_drop dbg ptr h = Some h' \<and>
         (if n = 1 then destroyed h' = destroyed h @ [(ptr, ob)] \<and> map_of (heap_objs h') = (map_of (heap_objs h))(ptr := None) \<and>
                        Release dbg ptr (heap_mgr h) = Some (heap_mgr h')
          else destroyed h' = destroyed h \<and> heap_objs h' = heap_objs h \<and> heap_mgr h' = heap_mgr h \<and>
               map_of (use_counts h') ptr = Some (n - 1))"
  proof (cases "map_of (use_counts h) ptr")
    case None
    then show ?thesis by (simp add: shared_drop_def)
  next
    case (Some n)
    show ?thesis
    proof (cases rule: shared_drop_cases [OF inv Some, case_names last more])
      case (last m ob)
      moreover have "heap_mgr h = mgr w" using inv by (simp add: heap_inv_def)
      ultimately show ?thesis using Some by (simp add: hm_simps)
    next
      case more
      with Some show ?thesis by (auto simp: hm_simps)
    qed
  qed
qed

text \<open>A large object, made right after Init and dropped.\<close>

lemma make_large:
  fixes ob :: 'o and h :: "'o object_heap"
  assumes "h = \<lparr>heap_mgr = mgr (mem_start False), heap_objs = [], use_counts = [], destroyed = []\<rparr>"
  shows "\<exists>w h'. heap_reach False w h' \<and> heap_objs h' = [(1000008, ob)] \<and> use_counts h' = [(1000008, 1)] \<and> destroyed h' = []"
proof -
  let ?m = "(mgr (mem_start False))\<lparr>mem := snd (AttachHeader False 1000000 4096 Virtual (mem (mgr (mem_start False)))),
     os_blocks := 1000000 # os_blocks (mgr (mem_start False))\<rparr>"
  let ?h = "\<lparr>heap_mgr = ?m, heap_objs = [(1000008, ob)], use_counts = [(1000008, 1)], destroyed = []\<rparr>"
  have "MAX_BLOCK_SIZE < 4096" by (simp add: MAX_BLOCK_SIZE_def)
  then have "MakeShared False 1000000 4096 ob h = Some (1000008, ?h)"
    by (simp add: assms MakeShared_def pool_new_def Allocate_def split_beta data_addr_def sizeof_memory_header_def)
  moreover have "heap_reach False (mem_start False) h"
    unfolding assms by (rule heap_reach.start [OF mem_start_reach]) (simp add: mem_start_def)
  ultimately have "heap_reach False (allocated_world 1000000 1000008 4096 (heap_mgr ?h) (mem_start False)) ?h"
    using mem_start_room [of 1000000 False 4096] by (intro heap_reach.make) simp_all
  then show ?thesis by force
qed

lemma shared_objects_witness:
  "\<exists>w (h :: string object_heap) h'. heap_reach False w h \<and> shared_drop False 1000008 h = Some h' \<and>
     destroyed h' = [(1000008, ''player'')] \<and> shared_drop False 0 h = None"
proof -
  obtain w and h :: "string object_heap" where h: "heap_reach False w h" "heap_objs h = [(1000008, ''player'')]"
    "use_counts h = [(1000008, 1)]" "destroyed h = []"
    using make_large [OF refl, of "''player''"] by auto
  from shared_objects [OF h(1), of 1000008] h have "\<exists>h'. shared_drop False 1000008 h = Some h' \<and>
     destroyed h' = [(1000008, ''player'')]" by auto
  moreover have "shared_drop False 0 h = None" by (simp add: shared_drop_def h)
  ultimately show ?thesis using h(1) by blast
qed

end
