(* ===== verification/Server_Network.thy ===== *)
theory Server_Network
  imports World_Reach Iocp_Laws
begin

text \<open>
  The whole server: the network of IocpCore with the service of GameServer, whose state is the
  world. The locale network_service carries an invariant of the service's state through the
  network: accepts, connects, completions, the heartbeat and the start. The game server interprets
  it with the soundness of the world.
\<close>

section \<open>Requests leave the sessions alone\<close>

lemma round_manager: "manager (retry os n) = manager n"
  using round_True(1) [of os n] round_False(1) [of os n]
  by (cases "round_ok os (os_calls_made n)") (simp_all add: accept_frame_def)

lemma RequestAccept_manager: "RequestAccept os n = Some n' \<Longrightarrow> manager n' = manager n"
proof -
  assume "RequestAccept os n = Some n'"
  then obtain k where "n' = retry os ((retry os ^^ k) n)" using RequestAccept_rounds by blast
  moreover have "manager ((retry os ^^ k) n) = manager n" for k by (induction k) (simp_all add: round_manager)
  ultimately show ?thesis by (simp add: round_manager)
qed

lemma pause_manager: "manager (accept_pause ctx n) = manager n"
  by (simp add: accept_pause_def Let_def note_event_def release_context_def split: option.split)

lemma ReRequestAccept_manager: "ReRequestAccept os ctx n = Some n' \<Longrightarrow> manager n' = manager n"
  using RequestAccept_manager [of os "accept_pause ctx n" n'] by (simp add: ReRequestAccept_def pause_manager)

lemma ProcessAccept_manager: "ProcessAccept os ob n = Some n' \<Longrightarrow> manager n' = manager n"
proof -
  obtain c n1 where p: "post_accept os ob n = (c, n1)" by fastforce
  then have "manager n1 = manager n"
    by (auto simp: post_accept_def alloc_context_def call_code_def note_event_def Let_def split: if_splits)
  then show "ProcessAccept os ob n = Some n' \<Longrightarrow> manager n' = manager n"
    using ReRequestAccept_manager [of os c n1 n'] p by (auto simp: ProcessAccept_def split: option.splits)
qed

lemma request_accepts_manager: "request_accepts k os n = Some n' \<Longrightarrow> manager n' = manager n"
proof (induction k arbitrary: n)
  case (Suc k)
  then obtain n1 where "RequestAccept os n = Some n1" "request_accepts k os n1 = Some n'" by (auto simp: bind_eq_Some_conv)
  with Suc.IH [of n1] RequestAccept_manager [OF this(1)] show ?case by simp
qed simp

lemmas request_managers = RequestAccept_manager ReRequestAccept_manager ProcessAccept_manager request_accepts_manager

text \<open>A call to Windows changes the counter and the trace only.\<close>

lemma call_ok_manager: "call_ok os e n = (ok, n1) \<Longrightarrow> manager n1 = manager n"
  for n :: "'w network"
  by (auto simp: call_ok_def call_code_def note_event_def)

abbreviation net_app :: "'w network \<Rightarrow> 'w" where
  "net_app n \<equiv> mgr_app (manager n)"

lemma put_app_fields [simp]: "net_app (put_app w n) = w" "sessions (manager (put_app w n)) = sessions (manager n)"
  by (simp_all add: put_app_def)

lemma Add_app [simp]: "mgr_app (Add ob m) = mgr_app m"
  by (simp add: Add_def split: option.split)

section \<open>An invariant of the service's state\<close>

locale network_service = service_invariant +
  assumes beaten: "OnHeartbeat svc s w = Some (s', w') \<Longrightarrow> I w \<Longrightarrow> I w'"
begin

lemma OnAcceptCompleted_inv:
  assumes "OnAcceptCompleted os so svc cid n = Some (ok, n')" and "I (net_app n)"
  shows "I (net_app n')"
proof -
  obtain k where k: "map_of (contexts n) cid = Some (AcceptContext k)"
    using assms(1) by (auto simp: OnAcceptCompleted_def split: option.splits net_context.splits)
  show ?thesis
  proof (cases k)
    case None
    with assms k show ?thesis by (auto simp: OnAcceptCompleted_def bind_eq_Some_conv dest: request_managers)
  next
    case (Some ob)
    obtain ok1 n1 where c: "call_ok os (SetOption (sock (obj_sess ob)) SO_UPDATE_ACCEPT_CONTEXT) n = (ok1, n1)" by fastforce
    note n1 = call_ok_manager [OF c]
    consider "manager n' = manager n"
      | ok2 c where "Init so svc (netNow n1) (sock (obj_sess ob)) True (obj_conn ob n1) = Some (ok2, c)" "net_app n' = app c"
      using assms(1) k Some c n1
      by (auto simp: OnAcceptCompleted_def Let_def bind_eq_Some_conv note_event_def put_app_def
          dest!: request_managers split: if_splits)
    then show ?thesis
    proof cases
      case (2 ok2 c)
      with Init_inv [OF 2(1)] assms(2) n1 show ?thesis by (simp add: obj_conn_def)
    qed (use assms(2) in simp)
  qed
qed

lemma OnConnectCompleted_inv:
  assumes "OnConnectCompleted os so svc cid n = Some (ok, n')" and "I (net_app n)"
  shows "I (net_app n')"
proof -
  obtain k where k: "map_of (contexts n) cid = Some (ConnectContext k)"
    using assms(1) by (auto simp: OnConnectCompleted_def split: option.splits net_context.splits)
  show ?thesis
  proof (cases k)
    case None
    with assms k show ?thesis by (simp add: OnConnectCompleted_def)
  next
    case (Some ob)
    obtain ok1 n1 where c: "call_ok os (SetOption (sock (obj_sess ob)) SO_UPDATE_CONNECT_CONTEXT) n = (ok1, n1)" by fastforce
    note n1 = call_ok_manager [OF c]
    consider "manager n' = manager n"
      | ok2 c where "Init so svc (netNow n1) (sock (obj_sess ob)) False (obj_conn ob n1) = Some (ok2, c)" "net_app n' = app c"
      using assms(1) k Some c n1
      by (auto simp: OnConnectCompleted_def Let_def bind_eq_Some_conv release_context_def put_app_def split: if_splits)
    then show ?thesis
    proof cases
      case 2
      with Init_inv [OF 2(1)] assms(2) n1 show ?thesis by (simp add: obj_conn_def)
    qed (use assms(2) in simp)
  qed
qed

lemma at_session_inv:
  assumes "at_session f sid n = Some n'" and "\<And>c c'. f c = Some c' \<Longrightarrow> I (app c) \<Longrightarrow> I (app c')" and "I (net_app n)"
  shows "I (net_app n')"
proof -
  obtain ob c where "f (obj_conn ob n) = Some c" "net_app n' = app c"
    using assms(1) by (auto simp: at_session_def bind_eq_Some_conv put_app_def split: option.splits)
  with assms(2) [OF this(1)] assms(3) show ?thesis by (simp add: obj_conn_def)
qed

lemma receive_inv: "receive so svc now bs c = Some c' \<Longrightarrow> I (app c) \<Longrightarrow> I (app c')"
  unfolding receive_def by (drule OnRecvCompleted_inv) simp_all

lemma conn_sent_inv: "conn_sent so svc now k c = Some c' \<Longrightarrow> I (app c) \<Longrightarrow> I (app c')"
  by (auto simp: conn_sent_def bind_eq_Some_conv intro: OnSendCompleted_inv)

lemma io_turn_inv:
  assumes "io_turn os so svc g n = Some (go, n')" and "I (net_app n)"
  shows "I (net_app n')"
proof -
  consider "n' = n"
    | sid f where "at_session f sid n = Some n'" "\<And>c c'. f c = Some c' \<Longrightarrow> I (app c) \<Longrightarrow> I (app c')"
    | cid ok where "OnAcceptCompleted os so svc cid n = Some (ok, n')"
    | cid ok where "OnConnectCompleted os so svc cid n = Some (ok, n')"
  proof (cases "\<not> gqcs_ret g \<or> gqcs_overlapped g = None")
    case True
    with assms(1) that(1) that(2) [of "conn_close svc"] conn_close_inv show thesis
      by (auto simp: io_turn_def bind_eq_Some_conv split: if_splits completion_key.splits)
  next
    case False
    then obtain ov where ov: "gqcs_overlapped g = Some ov" "gqcs_ret g" by blast
    show thesis
    proof (cases ov)
      case (ContextOv cid)
      with assms(1) ov that(3,4) show thesis
        by (auto simp: io_turn_def bind_eq_Some_conv split: option.splits net_context.splits)
    next
      case (RecvOv bs)
      have f: "I (app c')" if "(if bs = [] then conn_close svc else receive so svc (netNow n) bs) c = Some c'" "I (app c)" for c c'
        using that conn_close_inv receive_inv by (simp split: if_splits)
      show thesis using assms(1) ov RecvOv that(1) that(2) [OF _ f]
        by (auto simp: io_turn_def bind_eq_Some_conv split: completion_key.splits)
    next
      case (SendOv k)
      have f: "I (app c')" if "(if k = 0 then conn_close svc else conn_sent so svc (netNow n) k) c = Some c'" "I (app c)" for c c'
        using that conn_close_inv conn_sent_inv by (simp split: if_splits)
      show thesis using assms(1) ov SendOv that(1) that(2) [OF _ f]
        by (auto simp: io_turn_def bind_eq_Some_conv split: completion_key.splits)
    qed
  qed
  then show ?thesis
  proof cases
    case (2 sid f)
    from at_session_inv [OF 2(1) 2(2) assms(2)] show ?thesis .
  next
    case (3 cid ok)
    from OnAcceptCompleted_inv [OF 3 assms(2)] show ?thesis .
  next
    case (4 cid ok)
    from OnConnectCompleted_inv [OF 4 assms(2)] show ?thesis .
  qed (use assms(2) in simp)
qed

lemma IOWorkerThread_inv: "IOWorkerThread os so svc gs n = Some n' \<Longrightarrow> I (net_app n) \<Longrightarrow> I (net_app n')"
proof (induction gs arbitrary: n)
  case (Cons g gs)
  show ?case
  proof (cases "running n")
    case True
    with Cons.prems(1) obtain n0 go n1 where s: "dequeue g n = Some n0" "io_turn os so svc g n0 = Some (go, n1)"
      "(if go then IOWorkerThread os so svc gs n1 else Some n1) = Some n'" by (auto simp: bind_eq_Some_conv)
    have "net_app n0 = net_app n"
      using s(1) by (auto simp: dequeue_def split: option.splits overlapped_ex.splits if_splits)
    with io_turn_inv [OF s(2)] Cons.prems(2) have "I (net_app n1)" by simp
    with s(3) Cons.IH [of n1] show ?thesis by (auto split: if_splits)
  qed (use Cons.prems in simp)
qed simp

lemma for_sessions_inv:
  assumes "for_sessions body sids m = Some m'" and "\<And>s w l s' w' l'. body s w l = Some (s', w', l') \<Longrightarrow> I w \<Longrightarrow> I w'"
    and "I (mgr_app m)"
  shows "I (mgr_app m')"
  using assms(1,3)
proof (induction sids arbitrary: m)
  case (Cons sid sids)
  show ?case
  proof (cases "map_of (sessions m) sid")
    case (Some ob)
    with Cons.prems(1) obtain s w l where b: "body (obj_sess ob) (mgr_app m) (mgr_logs m) = Some (s, w, l)"
      and r: "for_sessions body sids (m\<lparr>sessions := hm_assign sid (ob\<lparr>obj_sess := s\<rparr>) (sessions m), mgr_app := w, mgr_logs := l\<rparr>) = Some m'"
      by (auto simp: bind_eq_Some_conv)
    from Cons.IH [OF r] assms(2) [OF b] Cons.prems(2) show ?thesis by simp
  qed (use Cons in simp)
qed simp

lemma Heartbeat_inv:
  assumes "Heartbeat (OnDisconnected svc) (if b then None else Some svc) now m = Some m'" and "I (mgr_app m)"
  shows "I (mgr_app m')"
proof -
  have c: "close_expired (OnDisconnected svc) now s w l = Some (s', w', l') \<Longrightarrow> I w \<Longrightarrow> I w'" for s w l s' w' l'
    by (auto simp: close_expired_def bind_eq_Some_conv Let_def intro: Close_inv)
  have b: "beat (OnDisconnected svc) svc s w l = Some (s', w', l') \<Longrightarrow> I w \<Longrightarrow> I w'" for s w l s' w' l'
    by (auto simp: beat_def bind_eq_Some_conv intro: Close_inv beaten split: if_splits)
  from assms(1) obtain m1 where m1: "for_sessions (close_expired (OnDisconnected svc) now)
      (map fst (filter (\<lambda>(sid, ob). expired now ob) (sessions m))) m = Some m1"
    and r: "(case (if b then None else Some svc) of
        None \<Rightarrow> Some (m1\<lparr>sessions := fold hm_erase (map fst (filter (\<lambda>(sid, ob). expired now ob) (sessions m))) (sessions m1)\<rparr>)
      | Some svc' \<Rightarrow> for_sessions (beat (OnDisconnected svc) svc') (map fst (filter (\<lambda>(sid, ob). \<not> expired now ob) (sessions m)))
          (m1\<lparr>sessions := fold hm_erase (map fst (filter (\<lambda>(sid, ob). expired now ob) (sessions m))) (sessions m1)\<rparr>)) = Some m'"
    by (auto simp: Heartbeat_def Let_def bind_eq_Some_conv)
  have "I (mgr_app m1)" by (rule for_sessions_inv [OF m1 c assms(2)])
  moreover have "I (mgr_app m')" if "for_sessions (beat (OnDisconnected svc) svc) sids m2 = Some m'" "I (mgr_app m2)" for sids m2
    by (rule for_sessions_inv [OF that(1) b that(2)])
  ultimately show ?thesis using r by (auto split: if_splits)
qed

lemma StartHeartbeatTask_inv: "StartHeartbeatTask svc n = Some n' \<Longrightarrow> I (net_app n) \<Longrightarrow> I (net_app n')"
  by (auto simp: StartHeartbeatTask_def bind_eq_Some_conv intro: Heartbeat_inv split: if_splits)

lemma Start_inv:
  assumes "Start os svc port n = Some (True, n')" and "I (net_app n)"
  shows "I (net_app n')"
proof -
  from assms(1) obtain skt n0 n2 n3 n4 where s: "CreateSocketAndBind os (listenSocket n) port n = (True, skt, n0)"
    "ListenSocket os skt (n0\<lparr>listenSocket := skt\<rparr>) = (True, n2)" "WSAIoctlAcceptEx os n2 = (True, n3)"
    "request_accepts ACCEPT_NUM os n3 = Some n4"
    "StartHeartbeatTask svc (StartWorkerThreads (MAX_WORKER_THREAD_NUM (cpuCount n4)) n4) = Some n'"
    by (auto simp: Start_def bind_eq_Some_conv Let_def split: prod.splits if_splits)
  have "manager n3 = manager n0"
    using s(2,3) by (auto simp: ListenSocket_def WSAIoctlAcceptEx_def call_ok_def call_code_def note_event_def split: if_splits)
  then have "net_app n4 = net_app n"
    using request_accepts_manager [OF s(4)] more_fields(4) [OF CreateSocketAndBind_True(11) [OF s(1)]] by simp
  then show ?thesis using StartHeartbeatTask_inv [OF s(5)] assms(2) by (simp add: StartWorkerThreads_def note_event_def)
qed

end

section \<open>The game server\<close>

interpretation nw: network_service "server_service so m" world_sound
proof unfold_locales
  fix s w s' w'
  show "OnHeartbeat (server_service so m) s w = Some (s', w') \<Longrightarrow> world_sound w \<Longrightarrow> world_sound w'"
    using ws.heartbeat_inv [of so so m "\<lambda>w. ser_ping m (worldMs w)" s w s' w'] by (simp add: server_service_def)
qed

text \<open>
  The threads of the server: a worker takes a completion, the system group runs the heartbeat task,
  the frame thread runs a frame for the active sessions, the social group runs a chat job, time
  passes, and the network is shut down.
\<close>

inductive network_step ::
  "net_os \<Rightarrow> os_calls \<Rightarrow> server_messages \<Rightarrow> world network \<Rightarrow> world network \<Rightarrow> bool" for os so m where
  worker: "IOWorkerThread os so (server_service so m) [g] n = Some n' \<Longrightarrow> network_step os so m n n'"
| heartbeat_task: "StartHeartbeatTask (server_service so m) n = Some n' \<Longrightarrow> network_step os so m n n'"
| world_frame: "SectorUpdateWorkerThread (map (\<lambda>ob. sessionID (obj_sess ob)) (GetActiveSessions (netNow n) (manager n))) (net_app n) = Some w
    \<Longrightarrow> network_step os so m n (put_app w n)"
| chat_job: "chat_turn t (net_app n) = Some w \<Longrightarrow> network_step os so m n (put_app w n)"
| clock: "network_step os so m n (put_app ((net_app n)\<lparr>worldNow := t, worldMs := ms, rndSource := rnd\<rparr>) (n\<lparr>netNow := t\<rparr>))"
| shutdown: "network_step os so m n (Shutdown n)"

lemma Shutdown_manager: "manager (Shutdown n) = manager n"
  by (simp add: Shutdown_def WakeUpIOWorkerThreads_def note_event_def Let_def)

lemma network_step_sound: "network_step os so m n n' \<Longrightarrow> world_sound (net_app n) \<Longrightarrow> world_sound (net_app n')"
proof (induction rule: network_step.induct)
  case (clock n t ms rnd)
  then show ?case using server_step_sound [OF server_step.tick [of so m "net_app n" t ms rnd]] by simp
next
  case (worker g n n')
  show ?case by (rule nw.IOWorkerThread_inv [OF worker])
next
  case (heartbeat_task n n')
  show ?case by (rule nw.StartHeartbeatTask_inv [OF heartbeat_task])
next
  case (world_frame n w)
  then show ?case using frame_sound by simp
next
  case (chat_job t n w)
  then show ?case using chat_sound by simp
qed (simp add: Shutdown_manager)

lemma network_reach_sound:
  "(network_step os so m)\<^sup>*\<^sup>* n n' \<Longrightarrow> world_sound (net_app n) \<Longrightarrow> world_sound (net_app n')"
  by (induction rule: rtranclp_induct) (auto intro: network_step_sound)

text \<open>C6: The whole server: GameServer starts, IocpCore starts on top of it, and then workers take any
  completions in any order, accept and drop clients, time them out in heartbeats, hand their packets
  to the handlers, while frames, chat jobs, the clock and a shutdown come in between. The world under
  the network stays sound all the time: what its shared pointers lead to is alive and has its id, its
  sectors have one entry per cell, and the next frame finds the sectors and objects it works on.\<close>

theorem network_sound:
  assumes "GameServer_start js zone0 fs = Some (net_app n)" and "Town \<in> zoneType ` set (zones (mapData (net_app n)))"
    and "Start os (server_service so m) port n = Some (True, n1)" and "(network_step os so m)\<^sup>*\<^sup>* n1 n2"
  shows "heap_ok (net_app n2) \<and> set (held_list (net_app n2)) \<subseteq> alive (net_app n2) \<and>
    (\<forall>zt s. FindSector (net_app n2) zt = Some s \<longrightarrow> distinct (map fst s)) \<and>
    (\<exists>w1 w2. DeleteObjSector (net_app n2) = Some w1 \<and> UpdateSector (reclaim w1) = Some w2 \<and> world_sound w2)"
proof -
  have "world_sound (net_app n)" by (rule start_sound [OF assms(1,2)])
  then have "world_sound (net_app n1)" by (rule nw.Start_inv [OF assms(3)])
  then have s: "world_sound (net_app n2)" by (rule network_reach_sound [OF assms(4)])
  then have "world_ok (net_app n2)" "sectors_wf (net_app n2)" by (simp_all add: world_sound_def)
  moreover obtain w1 where "DeleteObjSector (net_app n2) = Some w1" "world_sound w1" using DeleteObjSector_sound [OF s] by blast
  moreover from UpdateSector_sound [OF reclaim_sound [OF this(2)]] obtain w2 where "UpdateSector (reclaim w1) = Some w2"
    "world_sound w2" by blast
  ultimately show ?thesis by (auto simp: world_ok_def sectors_wf_def)
qed

definition server_network :: "world network" where
  "server_network = \<lparr>os_calls_made = 0, trace = [], running = False, listenSocket = INVALID_SOCKET, iocpHandle = InvalidHandle,
     acceptEx = False, connectEx = False, serverType = Some True, netNow = 0, cpuCount = 4, contexts = [], posted = [],
     nextContext = 0, nextSession = 1, manager = \<lparr>sessions = [], mgr_app = started, mgr_logs = []\<rparr>, heartbeatDue = []\<rparr>"

text \<open>The server starts on a Windows that takes everything, and beats once.\<close>

definition demo_server :: server_messages where
  "demo_server = \<lparr>ser_ping = \<lambda>t. [1], parse_pong = \<lambda>_. (True, 0), parse_enter = \<lambda>_. (True, 0),
     parse_move = \<lambda>_. (True, \<lparr>mv_pos = PosInfo 0 0 0 0, mv_vec = (0, 0)\<rparr>), parse_chat = \<lambda>_. (True, MSG_TYPE_General, [])\<rparr>"

lemma network_sound_witness:
  "\<exists>n1 n2 w1 w2. Start good_os (server_service good_calls demo_server) 7777 server_network = Some (True, n1) \<and>
     network_step good_os good_calls demo_server n1 n2 \<and> heartbeatDue n2 \<noteq> [] \<and>
     DeleteObjSector (net_app n2) = Some w1 \<and> UpdateSector (reclaim w1) = Some w2"
proof -
  have app: "net_app server_network = started" by (simp add: server_network_def)
  obtain n1 where n1: "Start good_os (server_service good_calls demo_server) 7777 server_network = Some (True, n1)"
    "manager n1 = manager server_network"
    using good_start [of server_network "server_service good_calls demo_server"] by (auto simp: server_network_def)
  have run: "running n1" using Start_True [OF n1(1)] by (simp add: server_network_def)
  have "Heartbeat d s now (manager n1) = Some (manager n1)" for d s now
    using n1(2) by (cases s) (simp_all add: Heartbeat_def server_network_def)
  then have "StartHeartbeatTask (server_service good_calls demo_server) n1 =
      Some (n1\<lparr>heartbeatDue := heartbeatDue n1 @ [netNow n1 + HEART_BEAT_INTERVAL * 10 ^ 6]\<rparr>)"
    using run by (simp add: StartHeartbeatTask_def)
  from network_step.heartbeat_task [OF this] obtain n2 where
    n2: "network_step good_os good_calls demo_server n1 n2" "heartbeatDue n2 \<noteq> []" by force
  have "\<exists>w1 w2. DeleteObjSector (net_app n2) = Some w1 \<and> UpdateSector (reclaim w1) = Some w2"
    using network_sound [where n = server_network, unfolded app, OF start_started started_town n1(1) r_into_rtranclp [of "network_step good_os good_calls demo_server", OF n2(1)]]
    by blast
  with n1(1) n2 show ?thesis by blast
qed

section \<open>A packet that ends the server\<close>

lemma server_table: "server_handlers m pid \<noteq> None \<longleftrightarrow> pid \<in> {6, 7, 8, 9}"
  by (auto simp: server_handlers_def RegisterPacket_def no_handlers_def Let_def)

lemma deliver_dead:
  assumes "p \<in> set ps" and "\<And>s w. OnRecv svc p s w = None"
  shows "deliver svc ps s w = None"
  using assms(1)
proof (induction ps arbitrary: s w)
  case (Cons q ps)
  then show ?case using assms(2) by (cases "p = q") (auto intro!: bind_eq_None_conv [THEN iffD2])
qed simp

text \<open>C33: One packet ends the whole server: if the bytes of one completed receive bring a packet whose
  id is none of the four that the server registered, the worker that handles the completion never
  comes back, because HandlePacket calls an empty std::function (or reads outside its table) and
  nobody catches the exception. The session need not have entered the game, and it makes no
  difference what else the worker had to do.\<close>

theorem stray_packet_kills_server:
  assumes "running n" and "map_of (sessions (manager n)) sid = Some ob"
    and "wf_buffer (obj_recv ob)" and "bs \<noteq> []" and "length bs \<le> room (obj_recv ob)"
    and "p \<in> set (packets_of (content (obj_recv ob) @ bs))" and "read_header p = Some h" and "hdr_id h \<notin> {6, 7, 8, 9}"
    and "gqcs_ret g" and "gqcs_key g = SessionKey sid" and "gqcs_overlapped g = Some (RecvOv bs)"
  shows "IOWorkerThread os so (server_service so m) (g # gs) n = None"
proof -
  let ?svc = "server_service so m" and ?c = "obj_conn ob n"
  have "\<not> registered (server_handlers m) (hdr_id h)"
    using assms(8) server_table [of m "hdr_id h"] by (simp add: registered_def)
  then have "OnRecv ?svc p s w = None" for s w
    using HandlePacket_unregistered [OF assms(7)] by (simp add: server_service_def server_OnRecv_def)
  then have "deliver ?svc (packets_of (content (obj_recv ob) @ bs)) s w = None" for s w
    by (rule deliver_dead [OF assms(6)])
  moreover have "wf_buffer (recvBuffer ?c)" "length bs \<le> room (recvBuffer ?c)" "content (recvBuffer ?c) @ bs = content (obj_recv ob) @ bs"
    using assms(3,5) by (simp_all add: obj_conn_def)
  from receive_spec [OF this(1,2) assms(4) this(3), of so ?svc "netNow n"]
  have "\<exists>rb'. receive so ?svc (netNow n) bs ?c = do {
      (s1, w1) \<leftarrow> deliver ?svc (packets_of (content (obj_recv ob) @ bs)) ((sess ?c)\<lparr>lastRecvTime := netNow n\<rparr>) (app ?c);
      let c1 = ?c\<lparr>sess := s1, app := w1, recvBuffer := rb'\<rparr>;
      (if bad_stream (content (obj_recv ob) @ bs) then conn_close ?svc c1
       else ProcessRecv so ?svc (c1\<lparr>recvBuffer := Compact rb'\<rparr>)) }" by blast
  ultimately have "receive so ?svc (netNow n) bs ?c = None" by auto
  then have "io_turn os so ?svc g n = None"
    using assms(2,4,9-11) by (simp add: io_turn_def at_session_def)
  moreover have "dequeue g n = Some n" using assms(11) by (simp add: dequeue_def)
  ultimately show ?thesis using assms(1) by simp
qed

text \<open>A chat message of the server's own kind, sent back to it right after connecting.\<close>

lemma stray_packet_kills_server_witness:
  "\<exists>n. running n \<and> sessions (manager n) \<noteq> [] \<and>
     IOWorkerThread good_os good_calls (server_service good_calls demo_server)
       [\<lparr>gqcs_ret = True, gqcs_key = SessionKey 1, gqcs_overlapped = Some (RecvOv (encode SC_CHAT_MSG [1])), gqcs_error = 0\<rparr>] n = None"
proof -
  let ?ob = "\<lparr>obj_sess = Session 1 0, obj_recv = BaseBuffer BUFFER_SIZE\<rparr>"
  let ?n = "server_network\<lparr>running := True, manager := (manager server_network)\<lparr>sessions := [(1, ?ob)]\<rparr>\<rparr>"
  let ?g = "\<lparr>gqcs_ret = True, gqcs_key = SessionKey 1, gqcs_overlapped = Some (RecvOv (encode SC_CHAT_MSG [1])), gqcs_error = 0\<rparr>"
  have b: "wf_buffer (obj_recv ?ob)" "content (obj_recv ?ob) = []" "length (encode SC_CHAT_MSG [1]) \<le> room (obj_recv ?ob)"
    by (simp_all add: encode_def header_bytes_def u16_bytes_def BUFFER_SIZE_def)
  have p: "encode SC_CHAT_MSG [1] \<in> set (packets_of (content (obj_recv ?ob) @ encode SC_CHAT_MSG [1]))"
    using frames_encode [of "[1]" SC_CHAT_MSG "[]"] b(2) by (simp add: frames_short)
  obtain h where h: "read_header (encode SC_CHAT_MSG [1]) = Some h" "hdr_id h = 5"
    using encode_header(1) [of "[1]" SC_CHAT_MSG "[]"] by auto
  have "IOWorkerThread good_os good_calls (server_service good_calls demo_server) [?g] ?n = None"
    by (rule stray_packet_kills_server [OF _ _ b(1) _ b(3) p h(1)]) (simp_all add: h(2) encode_def header_bytes_def u16_bytes_def)
  then show ?thesis by (intro exI [of _ ?n]) simp
qed

end
