(* ===== verification/Server_Sessions.thy ===== *)
theory Server_Sessions
  imports Server_Network
begin

text \<open>
  Each connection of the server. net_reach is the life of a server with the bytes that each of its
  sessions has received; sessions_inv carries the invariant of one connection (Connection) to every
  session of the manager, through accepts, completions, heartbeats and packets that are queued from
  outside. It is proved for any service within service_contract, and holds for the game server.
\<close>

section \<open>The invariant of a session object\<close>

definition obj_inv :: "u8 list \<Rightarrow> session_obj \<Rightarrow> bool" where
  "obj_inv rx ob \<longleftrightarrow> conn_inv rx \<lparr>sess = obj_sess ob, recvBuffer = obj_recv ob, app = ()\<rparr>"

lemma obj_inv_conn: "conn_inv rx (obj_conn ob n) = obj_inv rx ob" "obj_inv rx (conn_obj c) = conn_inv rx c"
  by (simp_all add: obj_inv_def conn_inv_def obj_conn_def conn_obj_def)

lemma obj_inv_step: "obj_inv rx ob \<Longrightarrow> session_step (obj_sess ob) s \<Longrightarrow> obj_inv rx (ob\<lparr>obj_sess := s\<rparr>)"
  by (auto simp: obj_inv_def conn_inv_def session_step_def)

lemma created_inv: "obj_inv [] \<lparr>obj_sess = PreInit skt t (Session sid t0), obj_recv = BaseBuffer BUFFER_SIZE\<rparr>"
  by (simp add: obj_inv_def conn_inv_def PreInit_def Session_def session_inv_def frames_short BUFFER_SIZE_def)

text \<open>Sessions that wait in a context have received nothing.\<close>

definition fresh_contexts :: "'w network \<Rightarrow> bool" where
  "fresh_contexts n \<longleftrightarrow> distinct (map fst (contexts n)) \<and> (\<forall>cid k. map_of (contexts n) cid = Some k \<longrightarrow> (\<exists>ob. k = AcceptContext (Some ob) \<and> obj_inv [] ob))"

definition sessions_inv :: "(u64 \<Rightarrow> u8 list) \<Rightarrow> 'w network \<Rightarrow> bool" where
  "sessions_inv rx n \<longleftrightarrow> fresh_contexts n \<and>
     (\<forall>sid ob. map_of (sessions (manager n)) sid = Some ob \<longrightarrow> obj_inv (rx sid) ob)"

lemma fresh_contexts_cong: "contexts n' = contexts n \<Longrightarrow> fresh_contexts n' = fresh_contexts n"
  by (simp add: fresh_contexts_def)

lemma fresh_assign:
  "fresh_contexts n \<Longrightarrow> obj_inv [] ob \<Longrightarrow> contexts n' = hm_assign cid (AcceptContext (Some ob)) (contexts n) \<Longrightarrow> fresh_contexts n'"
  by (auto simp: fresh_contexts_def hm_simps distinct_update simp del: map_of_eq_Some_iff)

lemma fresh_erase: "fresh_contexts n \<Longrightarrow> contexts n' = hm_erase cid (contexts n) \<Longrightarrow> fresh_contexts n'"
  by (auto simp: fresh_contexts_def hm_simps distinct_delete simp del: map_of_eq_Some_iff)

section \<open>Requests make fresh sessions\<close>

lemma post_accept_fresh:
  "post_accept os ob n = (c, n1) \<Longrightarrow> fresh_contexts n \<Longrightarrow> obj_inv [] ob \<Longrightarrow> fresh_contexts n1"
  by (rule fresh_assign [of n ob]) (auto simp: post_accept_def alloc_context_def call_code_def note_event_def Let_def split: if_splits)

lemma pause_fresh: "fresh_contexts n \<Longrightarrow> fresh_contexts (accept_pause ctx n)"
  by (auto simp: accept_pause_def Let_def note_event_def release_context_def fresh_contexts_def hm_simps distinct_delete simp del: map_of_eq_Some_iff split: option.split)

lemma fresh_no_connect:
  assumes "fresh_contexts n"
  shows "context_of sid (contexts n) = None"
proof (rule ccontr)
  assume "context_of sid (contexts n) \<noteq> None"
  then obtain cid ob where "(cid, ConnectContext (Some ob)) \<in> set (contexts n)" using context_of_in by fast
  with assms have "map_of (contexts n) cid = Some (ConnectContext (Some ob))" by (simp add: fresh_contexts_def)
  with assms have "\<exists>o1. ConnectContext (Some ob) = AcceptContext (Some o1)" unfolding fresh_contexts_def by blast
  then show False by simp
qed

lemma round_fresh: "fresh_contexts n \<Longrightarrow> fresh_contexts (retry os n)"
proof -
  assume f: "fresh_contexts n"
  obtain ob n1 where c: "Create n = (ob, n1)" by fastforce
  obtain skt n2 where s: "CreateSocket os n1 = (skt, n2)" by fastforce
  have n2: "fresh_contexts n2"
    using f c s fresh_contexts_cong [of n2 n] by (auto simp: Create_def CreateSocket_def Let_def note_event_def split: if_splits)
  show ?thesis
  proof (cases "skt = INVALID_SOCKET")
    case True
    with n2 c s show ?thesis by (simp add: accept_round_def pause_fresh)
  next
    case False
    let ?ob = "ob\<lparr>obj_sess := PreInit skt (netNow n2) (obj_sess ob)\<rparr>"
    obtain r n3 where p: "post_accept os ?ob n2 = (r, n3)" by fastforce
    have "obj_inv [] ?ob" using c created_inv by (auto simp: Create_def)
    from post_accept_fresh [OF p n2 this] have "fresh_contexts n3" .
    with False c s p show ?thesis by (cases r) (simp_all add: accept_round_def Let_def pause_fresh)
  qed
qed

lemma RequestAccept_fresh: "RequestAccept os n = Some n' \<Longrightarrow> fresh_contexts n \<Longrightarrow> fresh_contexts n'"
proof -
  assume f: "fresh_contexts n" and "RequestAccept os n = Some n'"
  then obtain k where "n' = retry os ((retry os ^^ k) n)" using RequestAccept_rounds by blast
  moreover have "fresh_contexts ((retry os ^^ k) n)" for k by (induction k) (simp_all add: f round_fresh)
  ultimately show ?thesis by (simp add: round_fresh)
qed

lemma ReRequestAccept_fresh: "ReRequestAccept os ctx n = Some n' \<Longrightarrow> fresh_contexts n \<Longrightarrow> fresh_contexts n'"
  unfolding ReRequestAccept_def by (rule RequestAccept_fresh [OF _ pause_fresh])

lemma ProcessAccept_fresh:
  assumes "ProcessAccept os ob n = Some n'" and "fresh_contexts n" and "obj_inv [] ob"
  shows "fresh_contexts n'"
proof -
  obtain c n1 where p: "post_accept os ob n = (c, n1)" by fastforce
  from post_accept_fresh [OF p assms(2,3)] have "fresh_contexts n1" .
  with assms(1) p show ?thesis by (auto simp: ProcessAccept_def dest: ReRequestAccept_fresh split: option.splits)
qed

lemma request_accepts_fresh: "request_accepts k os n = Some n' \<Longrightarrow> fresh_contexts n \<Longrightarrow> fresh_contexts n'"
  by (induction k arbitrary: n) (auto simp: bind_eq_Some_conv dest: RequestAccept_fresh)

lemmas request_fresh = RequestAccept_fresh ReRequestAccept_fresh ProcessAccept_fresh request_accepts_fresh

section \<open>What the sessions have received\<close>

text \<open>
  Completions are those of stream sockets, as in conn_reach: a receive brings at most as many bytes
  as the session's buffer has room for, a send of an open session all the bytes in flight.
\<close>

definition completion_ok :: "completion \<Rightarrow> 'w network \<Rightarrow> bool" where
  "completion_ok g n \<longleftrightarrow> (gqcs_ret g \<longrightarrow> (\<forall>sid ob. gqcs_key g = SessionKey sid \<longrightarrow> map_of (sessions (manager n)) sid = Some ob \<longrightarrow>
     (\<forall>bs. gqcs_overlapped g = Some (RecvOv bs) \<longrightarrow> length bs \<le> room (obj_recv ob)) \<and>
     (\<forall>k. gqcs_overlapped g = Some (SendOv k) \<longrightarrow> k = int (in_flight (obj_sess ob)) \<and> sending (obj_sess ob) \<and> \<not> isClosed (obj_sess ob))))"

definition bytes_for :: "u64 \<Rightarrow> completion \<Rightarrow> u8 list" where
  "bytes_for sid g = (if gqcs_ret g \<and> gqcs_key g = SessionKey sid then
     (case gqcs_overlapped g of Some (RecvOv bs) \<Rightarrow> bs | _ \<Rightarrow> []) else [])"

text \<open>A session that is not registered yet has received nothing; an id may come back.\<close>

definition heard :: "completion \<Rightarrow> 'w network \<Rightarrow> (u64 \<Rightarrow> u8 list) \<Rightarrow> u64 \<Rightarrow> u8 list" where
  "heard g n rx sid = (if map_of (sessions (manager n)) sid = None then [] else rx sid @ bytes_for sid g)"

inductive net_reach ::
  "net_os \<Rightarrow> os_calls \<Rightarrow> 'w core_service \<Rightarrow> 'w network \<Rightarrow> (u64 \<Rightarrow> u8 list) \<Rightarrow> bool" for os so svc where
  started: "Start os svc port n = Some (True, n') \<Longrightarrow> contexts n = [] \<Longrightarrow> sessions (manager n) = [] \<Longrightarrow>
     net_reach os so svc n' (\<lambda>sid. [])"
| completed: "net_reach os so svc n rx \<Longrightarrow> completion_ok g n \<Longrightarrow> IOWorkerThread os so svc [g] n = Some n' \<Longrightarrow>
     net_reach os so svc n' (if running n then heard g n rx else rx)"
| beaten: "net_reach os so svc n rx \<Longrightarrow> StartHeartbeatTask svc n = Some n' \<Longrightarrow> net_reach os so svc n' rx"
| queued: "net_reach os so svc n rx \<Longrightarrow> map_of (sessions (manager n)) sid = Some ob \<Longrightarrow>
     SendPacket so (OnDisconnected svc) pid msg (obj_sess ob) (net_app n) = Some (s, w) \<Longrightarrow>
     net_reach os so svc (put_app w (n\<lparr>manager := (manager n)\<lparr>sessions := hm_assign sid (ob\<lparr>obj_sess := s\<rparr>) (sessions (manager n))\<rparr>\<rparr>)) rx"
| served: "net_reach os so svc n rx \<Longrightarrow> net_reach os so svc (put_app w n) rx"
| clock: "net_reach os so svc n rx \<Longrightarrow> net_reach os so svc (n\<lparr>netNow := t\<rparr>) rx"
| shut: "net_reach os so svc n rx \<Longrightarrow> net_reach os so svc (Shutdown n) rx"

lemma for_sessions_all:
  assumes "for_sessions body sids m = Some m'" and "\<forall>sid ob. map_of (sessions m) sid = Some ob \<longrightarrow> P sid ob"
    and "\<And>sid ob w l s w' l'. P sid ob \<Longrightarrow> body (obj_sess ob) w l = Some (s, w', l') \<Longrightarrow> P sid (ob\<lparr>obj_sess := s\<rparr>)"
  shows "\<forall>sid ob. map_of (sessions m') sid = Some ob \<longrightarrow> P sid ob"
  using assms(1,2)
proof (induction sids arbitrary: m)
  case (Cons x sids)
  show ?case
  proof (cases "map_of (sessions m) x")
    case (Some o1)
    from for_sessions_step [OF Cons.prems(1) Some] obtain s w l where
      b: "body (obj_sess o1) (mgr_app m) (mgr_logs m) = Some (s, w, l)" and
      r: "for_sessions body sids (m\<lparr>sessions := hm_assign x (o1\<lparr>obj_sess := s\<rparr>) (sessions m), mgr_app := w, mgr_logs := l\<rparr>) = Some m'" .
    have "P x (o1\<lparr>obj_sess := s\<rparr>)" using Cons.prems(2) Some assms(3) [OF _ b] by blast
    with Cons.prems(2) show ?thesis by (intro Cons.IH [OF r]) (auto simp: hm_simps)
  qed (use Cons in simp)
qed simp

context service_contract
begin

text \<open>A completion of an accept.\<close>

lemma accepted_each:
  assumes "OnAcceptCompleted os so svc cid n = Some (ok, n')" and "sessions_inv rx n"
  shows "sessions_inv (\<lambda>sid. if map_of (sessions (manager n)) sid = None then [] else rx sid) n'"
proof -
  have f: "fresh_contexts n" and each: "\<And>sid ob. map_of (sessions (manager n)) sid = Some ob \<Longrightarrow> obj_inv (rx sid) ob"
    using assms(2) by (auto simp: sessions_inv_def)
  obtain ob where ob: "map_of (contexts n) cid = Some (AcceptContext (Some ob))" "obj_inv [] ob"
    using assms(1) f by (auto simp: OnAcceptCompleted_def fresh_contexts_def split: option.splits net_context.splits)
  obtain ok1 n1 where c: "call_ok os (SetOption (sock (obj_sess ob)) SO_UPDATE_ACCEPT_CONTEXT) n = (ok1, n1)" by fastforce
  have n1: "contexts n1 = contexts n" "manager n1 = manager n"
    using c by (auto simp: call_ok_def call_code_def note_event_def)
  have open_inv: "obj_inv [] (conn_obj d)"
    if "Init so svc (netNow n1) (sock (obj_sess ob)) True (obj_conn ob n1) = Some (ok2, d)" for ok2 d
    using Init_opens [OF that] ob(2) by (simp add: obj_inv_conn)
  consider m where "ReRequestAccept os (Some cid) m = Some n'" "contexts m = contexts n" "sessions (manager m) = sessions (manager n)"
    | m o1 where "ProcessAccept os o1 m = Some n'" "obj_inv [] o1" "contexts m = contexts n" "sessions (manager m) = sessions (manager n)"
    | m o1 where "ReRequestAccept os (Some cid) m = Some n'" "obj_inv [] o1" "contexts m = contexts n"
        "sessions (manager m) = hm_insert (sessionID (obj_sess o1)) o1 (sessions (manager n))"
    using assms(1) ob c n1
    by (auto simp: OnAcceptCompleted_def Let_def bind_eq_Some_conv put_app_def note_event_def Add_def
        dest: open_inv split: if_splits)
  then show ?thesis
  proof cases
    case (1 m)
    have "fresh_contexts n'" using request_fresh(2) [OF 1(1)] fresh_contexts_cong [of m n] f 1 by simp
    moreover have "sessions (manager n') = sessions (manager n)" using request_managers(2) [OF 1(1)] 1 by simp
    ultimately show ?thesis using each by (auto simp: sessions_inv_def)
  next
    case (2 m o1)
    have "fresh_contexts n'" using request_fresh(3) [OF 2(1) _ 2(2)] fresh_contexts_cong [of m n] f 2 by simp
    moreover have "sessions (manager n') = sessions (manager n)" using request_managers(3) [OF 2(1)] 2 by simp
    ultimately show ?thesis using each by (auto simp: sessions_inv_def)
  next
    case (3 m o1)
    have "fresh_contexts n'" using request_fresh(2) [OF 3(1)] fresh_contexts_cong [OF 3(3)] f by simp
    moreover have "sessions (manager n') = hm_insert (sessionID (obj_sess o1)) o1 (sessions (manager n))"
      using request_managers(2) [OF 3(1)] 3(4) by simp
    ultimately show ?thesis using 3(2) each by (auto simp: sessions_inv_def hm_simps split: if_splits)
  qed
qed

text \<open>A completion of the session's own.\<close>

lemma at_session_each:
  assumes "at_session f k n = Some n'" and "sessions_inv rx n"
    and "\<And>ob c. map_of (sessions (manager n)) k = Some ob \<Longrightarrow> f (obj_conn ob n) = Some c \<Longrightarrow> obj_inv (rx k) ob \<Longrightarrow> conn_inv (rx k @ bs) c"
  shows "sessions_inv (\<lambda>sid. if map_of (sessions (manager n)) sid = None then [] else rx sid @ (if sid = k then bs else [])) n'"
proof -
  have f: "fresh_contexts n" and each: "\<And>sid ob. map_of (sessions (manager n)) sid = Some ob \<Longrightarrow> obj_inv (rx sid) ob"
    using assms(2) by (auto simp: sessions_inv_def)
  from assms(1) fresh_no_connect [OF f, of k] obtain ob c where ob: "map_of (sessions (manager n)) k = Some ob"
    and c: "f (obj_conn ob n) = Some c"
    and n': "n' = n\<lparr>manager := (manager n)\<lparr>sessions := hm_assign k (conn_obj c) (sessions (manager n)), mgr_app := app c\<rparr>\<rparr>"
    by (auto simp: at_session_def bind_eq_Some_conv split: option.splits)
  have "fresh_contexts n'" using f fresh_contexts_cong [of n' n] n' by simp
  with assms(3) [OF ob c each [OF ob]] each ob show ?thesis by (auto simp: sessions_inv_def n' hm_simps obj_inv_conn)
qed

text \<open>The session a completion is for.\<close>

lemma received_conn:
  assumes "bs = [] \<or> length bs \<le> room (recvBuffer c)" and "conn_inv rx c"
    and "(if bs = [] then conn_close svc else receive so svc now bs) c = Some c'"
  shows "conn_inv (rx @ bs) c'"
proof (cases "bs = []")
  case True
  with assms(3) conn_close_inv obtain s w where "c' = c\<lparr>sess := s, app := w\<rparr>" "session_step (sess c) s" by fastforce
  with True assms(2) show ?thesis by (simp add: conn_inv_session_step)
qed (use assms receive_inv in auto)

lemma sent_conn:
  assumes "k = int (in_flight (sess c))" and "sending (sess c)" and "\<not> isClosed (sess c)" and "conn_inv rx c"
    and "(if k = 0 then conn_close svc else conn_sent so svc now k) c = Some c'"
  shows "conn_inv rx c'"
proof (cases "k = 0")
  case True
  with assms(5) conn_close_inv obtain s w where "c' = c\<lparr>sess := s, app := w\<rparr>" "session_step (sess c) s" by fastforce
  with assms(4) show ?thesis by (simp add: conn_inv_session_step)
next
  case False
  with assms(5) obtain s w where s: "OnSendCompleted so svc now k (sess c) (app c) = Some (s, w)" "c' = c\<lparr>sess := s, app := w\<rparr>"
    by (auto simp: conn_sent_def bind_eq_Some_conv)
  have "session_inv (sess c)" using assms(4) by (simp add: conn_inv_def)
  note OnSendCompleted_inv [OF this assms(3,2) s(1) [unfolded assms(1)]]
  with assms(3,4) s(2) show ?thesis by (auto simp: conn_inv_def)
qed

lemma closed_conn:
  assumes "conn_close svc c = Some c'" and "conn_inv rx c"
  shows "conn_inv rx c'"
  using conn_close_inv [OF assms(1)] assms(2) by (auto intro: conn_inv_session_step)

text \<open>One turn of a worker.\<close>

lemma turn_each:
  assumes t: "io_turn os so svc g n = Some (go, n')" and inv: "sessions_inv rx n" and ok: "completion_ok g n"
  shows "sessions_inv (heard g n rx) n'"
proof -
  let ?rx = "\<lambda>sid. if map_of (sessions (manager n)) sid = None then [] else rx sid"
  have same: "sessions_inv ?rx n" using inv by (auto simp: sessions_inv_def)
  have quiet: "heard g n rx = ?rx" if "\<And>sid. bytes_for sid g = []" using that by (simp add: heard_def fun_eq_iff)
  have at: "sessions_inv (heard g n rx) n'"
    if "at_session f k n = Some n'" "\<And>sid. bytes_for sid g = (if sid = k then bs else [])"
      "\<And>ob c. map_of (sessions (manager n)) k = Some ob \<Longrightarrow> f (obj_conn ob n) = Some c \<Longrightarrow> obj_inv (rx k) ob \<Longrightarrow> conn_inv (rx k @ bs) c" for f k bs
  proof -
    have "heard g n rx = (\<lambda>sid. if map_of (sessions (manager n)) sid = None then [] else rx sid @ (if sid = k then bs else []))"
      by (simp add: heard_def that(2) fun_eq_iff)
    with at_session_each [OF that(1) inv that(3)] show ?thesis by simp
  qed
  show ?thesis
  proof (cases "\<not> gqcs_ret g \<or> gqcs_overlapped g = None")
    case True
    then have q: "bytes_for sid g = []" for sid by (auto simp: bytes_for_def)
    consider "n' = n" | k where "at_session (conn_close svc) k n = Some n'"
      using t True by (auto simp: io_turn_def bind_eq_Some_conv split: if_splits completion_key.splits)
    then show ?thesis
    proof cases
      case (2 k)
      then show ?thesis by (rule at [where bs = "[]"]) (auto simp: q obj_inv_conn dest: closed_conn)
    qed (use same quiet q in simp)
  next
    case False
    then obtain ov where ov: "gqcs_overlapped g = Some ov" "gqcs_ret g" by blast
    show ?thesis
    proof (cases ov)
      case (ContextOv cid)
      then have q: "bytes_for sid g = []" for sid by (simp add: bytes_for_def ov)
      have "\<exists>ob. map_of (contexts n) cid = Some (AcceptContext (Some ob))"
        using t ov ContextOv inv by (auto simp: io_turn_def sessions_inv_def fresh_contexts_def
            simp del: map_of_eq_Some_iff split: option.splits)
      with t ov ContextOv obtain r where "OnAcceptCompleted os so svc cid n = Some (r, n')"
        by (auto simp: io_turn_def bind_eq_Some_conv)
      from accepted_each [OF this inv] quiet q show ?thesis by simp
    next
      case (RecvOv bs)
      show ?thesis
      proof (cases "gqcs_key g")
        case (SessionKey k)
        have a: "at_session (if bs = [] then conn_close svc else receive so svc (netNow n) bs) k n = Some n'"
          using t ov RecvOv SessionKey by (auto simp: io_turn_def bind_eq_Some_conv)
        have room: "length bs \<le> room (obj_recv ob)" if "map_of (sessions (manager n)) k = Some ob" for ob
          using ok that ov RecvOv SessionKey by (auto simp: completion_ok_def)
        show ?thesis
        proof (rule at [OF a])
          show "bytes_for sid g = (if sid = k then bs else [])" for sid by (auto simp: bytes_for_def ov RecvOv SessionKey)
          fix ob c
          assume h: "map_of (sessions (manager n)) k = Some ob" "obj_inv (rx k) ob"
            "(if bs = [] then conn_close svc else receive so svc (netNow n) bs) (obj_conn ob n) = Some c"
          show "conn_inv (rx k @ bs) c"
            by (rule received_conn [OF _ _ h(3)]) (use room [OF h(1)] h(2) in \<open>simp_all add: obj_inv_conn\<close>, simp add: obj_conn_def)
        qed
      qed (use t ov RecvOv same quiet in \<open>auto simp: io_turn_def bytes_for_def\<close>)
    next
      case (SendOv b)
      have q: "bytes_for sid g = []" for sid by (simp add: bytes_for_def ov SendOv)
      show ?thesis
      proof (cases "gqcs_key g")
        case (SessionKey k)
        have a: "at_session (if b = 0 then conn_close svc else conn_sent so svc (netNow n) b) k n = Some n'"
          using t ov SendOv SessionKey by (auto simp: io_turn_def bind_eq_Some_conv)
        show ?thesis
        proof (rule at [OF a, where bs = "[]"])
          show "bytes_for sid g = (if sid = k then [] else [])" for sid by (simp add: q)
          fix ob c
          assume h: "map_of (sessions (manager n)) k = Some ob" "obj_inv (rx k) ob"
            "(if b = 0 then conn_close svc else conn_sent so svc (netNow n) b) (obj_conn ob n) = Some c"
          have o: "b = int (in_flight (obj_sess ob))" "sending (obj_sess ob)" "\<not> isClosed (obj_sess ob)"
            using ok h(1) ov SendOv SessionKey by (auto simp: completion_ok_def)
          have "conn_inv (rx k) c"
            by (rule sent_conn [OF _ _ _ _ h(3)]) (use o h(2) in \<open>simp_all add: obj_inv_conn\<close>, simp_all add: obj_conn_def)
          then show "conn_inv (rx k @ []) c" by simp
        qed
      qed (use t ov SendOv same quiet q in \<open>auto simp: io_turn_def\<close>)
    qed
  qed
qed

lemma worker_each:
  assumes "IOWorkerThread os so svc [g] n = Some n'" and "sessions_inv rx n" and "completion_ok g n"
  shows "sessions_inv (if running n then heard g n rx else rx) n'"
proof (cases "running n")
  case True
  with assms(1) obtain n0 go where s: "dequeue g n = Some n0" "io_turn os so svc g n0 = Some (go, n')"
    by (auto simp: bind_eq_Some_conv split: if_splits)
  have n0: "manager n0 = manager n" "contexts n0 = contexts n"
    using s(1) by (auto simp: dequeue_def split: option.splits overlapped_ex.splits if_splits)
  have "sessions_inv rx n0" "completion_ok g n0"
    using assms(2,3) n0 fresh_contexts_cong [of n0 n] by (simp_all add: sessions_inv_def completion_ok_def)
  from turn_each [OF s(2) this] have "sessions_inv (heard g n0 rx) n'" .
  moreover have "heard g n0 rx = heard g n rx" by (simp add: heard_def n0 fun_eq_iff)
  ultimately show ?thesis using True by simp
qed (use assms in simp)

text \<open>A pass of the heartbeat, with the service or without it.\<close>

lemma Heartbeat_each:
  assumes "Heartbeat (OnDisconnected svc) (if b then None else Some svc) now m = Some m'"
    and "\<forall>sid ob. map_of (sessions m) sid = Some ob \<longrightarrow> obj_inv (rx sid) ob"
  shows "\<forall>sid ob. map_of (sessions m') sid = Some ob \<longrightarrow> obj_inv (rx sid) ob"
proof -
  have c: "obj_inv (rx sid) ob \<Longrightarrow> close_expired (OnDisconnected svc) now (obj_sess ob) w l = Some (s, w', l') \<Longrightarrow>
      obj_inv (rx sid) (ob\<lparr>obj_sess := s\<rparr>)" for sid ob w l s w' l'
    using close_expired_closes [OF disconnect_contract_axioms] obj_inv_step by blast
  have b: "obj_inv (rx sid) ob \<Longrightarrow> beat (OnDisconnected svc) svc (obj_sess ob) w l = Some (s, w', l') \<Longrightarrow>
      obj_inv (rx sid) (ob\<lparr>obj_sess := s\<rparr>)" for sid ob w l s w' l'
    using beat_closes [OF service_contract_axioms] obj_inv_step by blast
  let ?dead = "map fst (filter (\<lambda>(sid, ob). expired now ob) (sessions m))"
  from assms(1) obtain m1 where m1: "for_sessions (close_expired (OnDisconnected svc) now) ?dead m = Some m1"
    and r: "(case (if b then None else Some svc) of
        None \<Rightarrow> Some (m1\<lparr>sessions := fold hm_erase ?dead (sessions m1)\<rparr>)
      | Some svc' \<Rightarrow> for_sessions (beat (OnDisconnected svc) svc') (map fst (filter (\<lambda>(sid, ob). \<not> expired now ob) (sessions m)))
          (m1\<lparr>sessions := fold hm_erase ?dead (sessions m1)\<rparr>)) = Some m'"
    by (auto simp: Heartbeat_def Let_def bind_eq_Some_conv)
  have 1: "\<forall>sid ob. map_of (sessions m1) sid = Some ob \<longrightarrow> obj_inv (rx sid) ob"
    by (rule for_sessions_all [OF m1 assms(2) c])
  let ?m2 = "m1\<lparr>sessions := fold hm_erase ?dead (sessions m1)\<rparr>"
  have 2: "\<forall>sid ob. map_of (sessions ?m2) sid = Some ob \<longrightarrow> obj_inv (rx sid) ob"
    using 1 by (simp add: map_of_fold_erase)
  show ?thesis
  proof (cases b)
    case False
    with r have "for_sessions (beat (OnDisconnected svc) svc)
        (map fst (filter (\<lambda>(sid, ob). \<not> expired now ob) (sessions m))) ?m2 = Some m'" by simp
    from for_sessions_all [OF this 2 b] show ?thesis .
  qed (use r 2 in simp)
qed

lemma task_each:
  assumes "StartHeartbeatTask svc n = Some n'" and "sessions_inv rx n"
  shows "sessions_inv rx n'"
proof (cases "running n")
  case True
  with assms(1) obtain m where m: "Heartbeat (OnDisconnected svc) (if serverType n = None then None else Some svc) (netNow n) (manager n) = Some m"
    and n': "n' = n\<lparr>manager := m, heartbeatDue := heartbeatDue n @ [netNow n + HEART_BEAT_INTERVAL * 10 ^ 6]\<rparr>"
    by (auto simp: StartHeartbeatTask_def bind_eq_Some_conv)
  have "\<forall>sid ob. map_of (sessions m) sid = Some ob \<longrightarrow> obj_inv (rx sid) ob"
    using assms(2) by (intro Heartbeat_each [OF m]) (simp add: sessions_inv_def)
  with assms(2) fresh_contexts_cong [of n' n] show ?thesis by (simp add: sessions_inv_def n')
qed (use assms in \<open>simp add: StartHeartbeatTask_def\<close>)

lemma Start_each:
  assumes "Start os svc port n = Some (True, n')" and "contexts n = []" and "sessions (manager n) = []"
  shows "sessions_inv rx n'"
proof -
  from assms(1) obtain skt n0 n2 n3 n4 where s: "CreateSocketAndBind os (listenSocket n) port n = (True, skt, n0)"
    "ListenSocket os skt (n0\<lparr>listenSocket := skt\<rparr>) = (True, n2)" "WSAIoctlAcceptEx os n2 = (True, n3)"
    "request_accepts ACCEPT_NUM os n3 = Some n4"
    "StartHeartbeatTask svc (StartWorkerThreads (MAX_WORKER_THREAD_NUM (cpuCount n4)) n4) = Some n'"
    by (auto simp: Start_def bind_eq_Some_conv Let_def split: prod.splits if_splits)
  have "manager n3 = manager n0" "contexts n3 = contexts n0"
    using s(2,3) by (auto simp: ListenSocket_def WSAIoctlAcceptEx_def call_ok_def call_code_def note_event_def split: if_splits)
  then have n3: "sessions (manager n3) = []" "contexts n3 = []"
    using more_fields [OF CreateSocketAndBind_True(11) [OF s(1)]] assms(2,3) by simp_all
  then have "fresh_contexts n3" by (simp add: fresh_contexts_def)
  from request_fresh(4) [OF s(4) this] request_managers(4) [OF s(4)] n3
  have "sessions_inv rx n4" by (simp add: sessions_inv_def)
  then have "sessions_inv rx (StartWorkerThreads (MAX_WORKER_THREAD_NUM (cpuCount n4)) n4)"
    using fresh_contexts_cong [of "StartWorkerThreads (MAX_WORKER_THREAD_NUM (cpuCount n4)) n4" n4]
    by (simp add: sessions_inv_def StartWorkerThreads_def note_event_def)
  from task_each [OF s(5) this] show ?thesis .
qed

lemma net_reach_inv: "net_reach os so svc n rx \<Longrightarrow> sessions_inv rx n"
proof (induction rule: net_reach.induct)
  case (started port n n')
  then show ?case by (rule Start_each)
next
  case (completed n rx g n')
  show ?case by (rule worker_each [OF completed.hyps(3) completed.IH completed.hyps(2)])
next
  case (beaten n rx n')
  show ?case by (rule task_each [OF beaten.hyps(2) beaten.IH])
next
  case (queued n rx sid ob pid msg s w)
  let ?n = "put_app w (n\<lparr>manager := (manager n)\<lparr>sessions := hm_assign sid (ob\<lparr>obj_sess := s\<rparr>) (sessions (manager n))\<rparr>\<rparr>)"
  have "session_step (obj_sess ob) s" by (rule SendPacket_step [OF queued.hyps(3)])
  moreover have "obj_inv (rx sid) ob" using queued by (simp add: sessions_inv_def)
  ultimately have "obj_inv (rx sid) (ob\<lparr>obj_sess := s\<rparr>)" by (rule obj_inv_step [rotated])
  with queued.IH fresh_contexts_cong [of ?n n] show ?case by (auto simp: sessions_inv_def put_app_def hm_simps)
next
  case (served n rx w)
  then show ?case using fresh_contexts_cong [of "put_app w n" n] by (simp add: sessions_inv_def put_app_def)
next
  case (clock n rx t)
  then show ?case using fresh_contexts_cong [of "n\<lparr>netNow := t\<rparr>" n] by (simp add: sessions_inv_def)
next
  case (shut n rx)
  have "contexts (Shutdown n) = contexts n" by (simp add: Shutdown_def WakeUpIOWorkerThreads_def note_event_def Let_def)
  with shut fresh_contexts_cong [of "Shutdown n" n] show ?case by (simp add: sessions_inv_def Shutdown_manager)
qed

end

section \<open>The game server\<close>

text \<open>The steps of the whole server are such a life, with its socket completions.\<close>

lemma network_step_reach:
  assumes "network_step os so m n n'" and "net_reach os so (server_service so m) n rx"
    and "\<forall>g. IOWorkerThread os so (server_service so m) [g] n = Some n' \<longrightarrow> completion_ok g n"
  shows "\<exists>rx'. net_reach os so (server_service so m) n' rx'"
  using assms
proof (induction rule: network_step.induct)
  case (clock n rnd ms t)
  from net_reach.served [OF net_reach.clock [OF clock.prems(1), of t], of "(net_app n)\<lparr>worldNow := t, worldMs := ms, rndSource := rnd\<rparr>"]
  show ?case by blast
qed (blast intro: net_reach.intros)+

text \<open>C5: Every connection of the running server is served by itself. Whatever completions the workers
  get for whatever sessions, however the heartbeats, frames, handlers and packets sent by others come
  in between, each session that the manager holds has handed to the service exactly the packets of
  the bytes it received itself, in order, and has the rest in its buffer. A bad header has closed it;
  while it is open it has room for a whole packet, and the bytes given to WSASend with those still
  queued are the bytes that were sent to this session. Sessions do not mix.\<close>

theorem every_session:
  assumes "net_reach os so (server_service so m) n rx" and "map_of (sessions (manager n)) sid = Some ob"
  shows "packets_in (io (obj_sess ob)) = packets_of (rx sid) \<and> content (obj_recv ob) = rest_of (rx sid) \<and>
    (bad_stream (rx sid) \<longrightarrow> isClosed (obj_sess ob)) \<and>
    (if isClosed (obj_sess ob) then prefix (wire_of (io (obj_sess ob))) (submitted_of (io (obj_sess ob)))
     else 2048 \<le> room (obj_recv ob) \<and>
       wire_of (io (obj_sess ob)) @ pending (sendDeque (obj_sess ob)) = submitted_of (io (obj_sess ob)))"
proof -
  have "obj_inv (rx sid) ob" using gs.net_reach_inv [OF assms(1)] assms(2) by (simp add: sessions_inv_def)
  then show ?thesis by (auto simp: obj_inv_def conn_inv_def session_inv_def)
qed

text \<open>A client connects and sends a pong and the first bytes of another packet.\<close>

definition accepted :: "nat \<Rightarrow> completion" where
  "accepted cid = \<lparr>gqcs_ret = True, gqcs_key = ZeroKey, gqcs_overlapped = Some (ContextOv cid), gqcs_error = 0\<rparr>"

lemma good_Init:
  assumes "0 < room (recvBuffer c)" and conn: "\<And>s w. \<exists>w'. OnConnected svc s w = Some (s, w')"
  shows "\<exists>d. Init good_calls svc now skt True c = Some (True, d)"
proof -
  let ?s = "(sess c)\<lparr>sock := skt, lastRecvTime := now, lastSendTime := now, connectedTime := now, io := io (sess c) @ [IoRegister skt]\<rparr>"
  have "\<exists>c2. ProcessRecv good_calls svc (c\<lparr>sess := ?s\<rparr>) = Some c2"
    using assms(1) by (simp add: ProcessRecv_room Let_def good_calls_def)
  then obtain c2 where c2: "ProcessRecv good_calls svc (c\<lparr>sess := ?s\<rparr>) = Some c2" by blast
  obtain w' where "OnConnected svc (sess c2) (app c2) = Some (sess c2, w')" using conn by blast
  with c2 show ?thesis by (simp add: Init_def Let_def good_calls_def)
qed

lemma good_accept:
  assumes run: "running n" and ok: "accepts_ok n" and p: "cid \<in> set (posted n)" and inv: "sessions_inv rx n"
    and conn: "\<And>s w. \<exists>w'. OnConnected svc s w = Some (s, w')" and none: "sessions (manager n) = []"
  shows "\<exists>n2 sid ob. IOWorkerThread good_os good_calls svc [accepted cid] n = Some n2 \<and>
    map_of (sessions (manager n2)) sid = Some ob \<and> running n2"
proof -
  let ?n0 = "n\<lparr>posted := remove1 cid (posted n)\<rparr>"
  from ok p have "map_of (contexts n) cid \<noteq> None" unfolding accepts_ok_def by blast
  with inv obtain ob where ob: "map_of (contexts n) cid = Some (AcceptContext (Some ob))" "obj_inv [] ob"
    unfolding sessions_inv_def fresh_contexts_def by blast
  have call: "call_ok good_os e c = (True, note_event e c\<lparr>os_calls_made := os_calls_made c + 1\<rparr>)"
    for e and c :: "'a network" by (simp add: call_ok_def call_code_def good_os_def)
  let ?n1 = "note_event (SetOption (sock (obj_sess ob)) SO_UPDATE_ACCEPT_CONTEXT) ?n0\<lparr>os_calls_made := os_calls_made ?n0 + 1\<rparr>"
  have again: "\<exists>k. ReRequestAccept good_os c k' = Some k \<and> manager k = manager k' \<and> running k = running k'" for c and k' :: "'a network"
  proof -
    have "RequestAccept good_os (accept_pause c k') = Some (retry good_os (accept_pause c k'))"
      using RequestAccept_after [of good_os 0 "accept_pause c k'"] good_round by (simp add: round_ok_iff)
    moreover have "running (accept_pause c k') = running k'"
      by (simp add: accept_pause_def note_event_def release_context_def Let_def split: option.split)
    ultimately show ?thesis
      using round_True(1) [OF good_round, of "accept_pause c k'"] by (simp add: ReRequestAccept_def accept_frame_def pause_manager)
  qed
  obtain d where d: "Init good_calls svc (netNow ?n1) (sock (obj_sess ob)) True (obj_conn ob ?n1) = Some (True, d)"
  proof -
    have "0 < room (recvBuffer (obj_conn ob ?n1))" using ob(2) by (simp add: obj_inv_def conn_inv_def frames_short obj_conn_def)
    from good_Init [OF this conn] that show thesis by blast
  qed
  let ?n2 = "put_app (app d) ?n1"
  obtain k where k: "ReRequestAccept good_os (Some cid) (?n2\<lparr>manager := Add (Some (conn_obj d)) (manager ?n2)\<rparr>) = Some k"
    "manager k = Add (Some (conn_obj d)) (manager ?n2)" "running k = running n"
    using again [of "Some cid" "?n2\<lparr>manager := Add (Some (conn_obj d)) (manager ?n2)\<rparr>"] by (auto simp: put_app_def note_event_def)
  have "OnAcceptCompleted good_os good_calls svc cid ?n0 = Some (True, k)"
    using ob(1) d k(1) by (simp add: OnAcceptCompleted_def call Let_def)
  then have "IOWorkerThread good_os good_calls svc [accepted cid] n = Some k"
    using run p ob(1) by (simp add: dequeue_def accepted_def io_turn_def)
  moreover have "map_of (sessions (manager k)) (sessionID (obj_sess (conn_obj d))) = Some (conn_obj d)"
    using none by (simp add: k(2) Add_def put_app_def note_event_def hm_simps)
  ultimately show ?thesis using k(3) run by blast
qed

lemma server_pong:
  assumes "length msg \<le> 2044"
  shows "\<exists>s' w'. server_OnRecv m (encode CS_SYSTEM_PONG msg) s w = Some (s', w')"
proof -
  have len: "(word_of_nat (length msg) :: u16) = of_nat (4 + length msg) - 4" by simp
  have n: "unat (word_of_nat (length msg) :: u16) = length msg"
    using assms by (simp add: unat_of_nat_u16)
  have "drop 4 (encode CS_SYSTEM_PONG msg) = msg" by (simp add: encode_def)
  moreover have "read_header (encode CS_SYSTEM_PONG msg) =
      Some \<lparr>hdr_id = 6, hdr_size = of_nat (4 + length msg)\<rparr>"
    using encode_header(1) [OF assms, of CS_SYSTEM_PONG "[]"] by simp
  ultimately show ?thesis
    using n by (simp add: server_OnRecv_def HandlePacket_def UINT16_MAX_def server_handlers_def
        RegisterPacket_def HandlePacketAs_def Let_def sizeof_header_def Handle_pong_def split: prod.split)
qed

definition first_bytes :: "u8 list" where
  "first_bytes = encode CS_SYSTEM_PONG [3] @ [5, 0, 9]"

definition client_bytes :: "u64 \<Rightarrow> completion" where
  "client_bytes sid = \<lparr>gqcs_ret = True, gqcs_key = SessionKey sid, gqcs_overlapped = Some (RecvOv first_bytes), gqcs_error = 0\<rparr>"

lemma every_session_witness:
  "\<exists>n rx sid ob. net_reach good_os good_calls (server_service good_calls demo_server) n rx \<and>
     map_of (sessions (manager n)) sid = Some ob \<and> rx sid = first_bytes \<and>
     packets_in (io (obj_sess ob)) = [encode CS_SYSTEM_PONG [3]] \<and> content (obj_recv ob) = [5, 0, 9]"
proof -
  let ?svc = "server_service good_calls demo_server"
  have s0: "\<not> running server_network" "contexts server_network = []" "posted server_network = []"
    "nextContext server_network = 0" "sessions (manager server_network) = []" by (simp_all add: server_network_def)
  obtain n1 where n1: "Start good_os ?svc 7777 server_network = Some (True, n1)" "posted n1 = [0 ..< 10]"
    "manager n1 = manager server_network" using good_start [OF s0] by blast
  from Start_True [OF n1(1) s0(2,3)] have r1: "running n1" "accepts_ok n1" by simp_all
  have reach1: "net_reach good_os good_calls ?svc n1 (\<lambda>sid. [])" by (rule net_reach.started [OF n1(1) s0(2,5)])
  note inv1 = gs.net_reach_inv [OF reach1]
  have conn: "\<exists>w'. OnConnected ?svc s w = Some (s, w')" for s w by (simp add: server_service_def server_OnConnected_def)
  obtain n2 sid ob where n2: "IOWorkerThread good_os good_calls ?svc [accepted 0] n1 = Some n2"
    "map_of (sessions (manager n2)) sid = Some ob" "running n2"
    using good_accept [OF r1 _ inv1 conn, of 0] n1(2,3) s0(5) by auto
  have none: "heard (accepted 0) n1 (\<lambda>sid. []) = (\<lambda>sid. [])"
    using n1(3) s0(5) by (simp add: heard_def fun_eq_iff)
  have reach2: "net_reach good_os good_calls ?svc n2 (\<lambda>sid. [])"
    using net_reach.completed [OF reach1 _ n2(1)] r1(1) none by (simp add: completion_ok_def accepted_def)
  have fr: "frames first_bytes = ([encode CS_SYSTEM_PONG [3]], [5, 0, 9], False)"
    by (simp add: first_bytes_def frames_encode frames_short)
  let ?c = "obj_conn ob n2"
  have ci: "conn_inv [] ?c" using gs.net_reach_inv [OF reach2] n2(2) by (simp add: sessions_inv_def obj_inv_conn)
  then have cb: "wf_buffer (recvBuffer ?c)" "length first_bytes \<le> room (recvBuffer ?c)" "bufferSize (recvBuffer ?c) = BUFFER_SIZE"
    "content (recvBuffer ?c) @ first_bytes = first_bytes"
    by (simp_all add: conn_inv_def frames_short first_bytes_def)
  obtain s' w' where "deliver ?svc (packets_of first_bytes) ((sess ?c)\<lparr>lastRecvTime := netNow n2\<rparr>) (app ?c) = Some (s', w')"
    using server_pong [of "[3]" demo_server] by (fastforce simp: fr server_service_def)
  from receive_good [OF cb(1) _ cb(2-4) _ _ this, of good_calls] obtain c' where
    c': "receive good_calls ?svc (netNow n2) first_bytes ?c = Some c'"
    by (auto simp: fr good_calls_def) (auto simp: first_bytes_def)
  obtain n3 where n3: "IOWorkerThread good_os good_calls ?svc [client_bytes sid] n2 = Some n3"
    "sessions (manager n3) = hm_assign sid (conn_obj c') (sessions (manager n2))"
    using c' n2(2,3) by (simp add: dequeue_def client_bytes_def io_turn_def at_session_def first_bytes_def)
  have "completion_ok (client_bytes sid) n2"
    using cb(2) n2(2) by (simp add: completion_ok_def client_bytes_def obj_conn_def)
  from net_reach.completed [OF reach2 this n3(1)] n2(3)
  have reach3: "net_reach good_os good_calls ?svc n3 (heard (client_bytes sid) n2 (\<lambda>sid. []))" by simp
  have rx: "heard (client_bytes sid) n2 (\<lambda>sid. []) sid = first_bytes"
    using n2(2) by (simp add: heard_def bytes_for_def client_bytes_def)
  have ob3: "map_of (sessions (manager n3)) sid = Some (conn_obj c')" by (simp add: n3(2) hm_simps)
  note each = every_session [OF reach3 ob3, unfolded rx fr fst_conv snd_conv]
  show ?thesis
    by (rule exI [of _ n3], rule exI [of _ "heard (client_bytes sid) n2 (\<lambda>sid. [])"], rule exI [of _ sid], rule exI [of _ "conn_obj c'"])
       (use each reach3 ob3 rx in simp)
qed

end
